(* ===== verification/Prelude.thy ===== *)
theory Prelude
  imports Main "HOL-Library.Word"
begin

text \<open>
  Shared vocabulary of the development: the machine integer types, the ways in which the
  C and C++ code can stop abnormally (a failed \<^verbatim>\<open>assert\<close>, an exception nobody catches,
  undefined behaviour), sequencing of fallible computations, and the locale of state
  machines whose steps may fault, from which every invariant of the development is lifted
  from one step to whole runs.
\<close>

section \<open>Machine integers\<close>

type_synonym u8 = "8 word"
type_synonym u16 = "16 word"
type_synonym u32 = "32 word"
type_synonym u64 = "64 word"

type_synonym fd = int

text \<open>\<^verbatim>\<open>/\<close> and \<^verbatim>\<open>%\<close> of C on signed integers round towards zero.\<close>

definition c_div :: "int \<Rightarrow> int \<Rightarrow> int" where
  "c_div a b = sgn a * sgn b * (\<bar>a\<bar> div \<bar>b\<bar>)"

definition c_mod :: "int \<Rightarrow> int \<Rightarrow> int" where
  "c_mod a b = a - c_div a b * b"

lemma c_div_nonneg [simp]: "0 \<le> a \<Longrightarrow> 0 < b \<Longrightarrow> c_div a b = a div b"
  by (cases "a = 0") (simp_all add: c_div_def)

lemma c_mod_nonneg [simp]: "0 \<le> a \<Longrightarrow> 0 < b \<Longrightarrow> c_mod a b = a mod b"
  by (simp add: c_mod_def minus_div_mult_eq_mod)

section \<open>Abnormal ends\<close>

datatype exn =
    Invalid_Argument   \<comment> \<open>\<^verbatim>\<open>std::invalid_argument\<close>, thrown by \<^verbatim>\<open>stoi\<close>\<close>
  | Out_Of_Range       \<comment> \<open>\<^verbatim>\<open>std::out_of_range\<close>, thrown by \<^verbatim>\<open>stoi\<close>\<close>
  | Open_Failure       \<comment> \<open>\<^verbatim>\<open>ifstream::failure\<close> of a stream with \<^verbatim>\<open>exceptions(failbit)\<close>\<close>
  | System_Error string \<comment> \<open>\<^verbatim>\<open>throw_syserror(info)\<close>\<close>

datatype ub =
    Shift_Count        \<comment> \<open>a shift by a negative amount or by the width or more\<close>
  | Uninit_Read        \<comment> \<open>reading a local variable that was never written\<close>
  | Null_Deref         \<comment> \<open>writing or reading through a null pointer\<close>
  | Dangling           \<comment> \<open>using an iterator or a reference to an erased element\<close>
  | Out_Of_Bounds      \<comment> \<open>an index outside a vector or a buffer\<close>

datatype fault =
    Assert_Failed
  | Uncaught exn
  | Undefined ub

type_synonym 'a result = "fault + 'a"

fun and_then :: "'a result \<Rightarrow> ('a \<Rightarrow> 'b result) \<Rightarrow> 'b result" where
  "and_then (Inl e) k = Inl e"
| "and_then (Inr a) k = k a"

named_theorems result_simps "equations that run a fallible computation"

lemma and_then_Inr_iff [result_simps]:
  "and_then r k = Inr b \<longleftrightarrow> (\<exists>a. r = Inr a \<and> k a = Inr b)"
  by (cases r) auto

lemma and_then_Inl_iff [result_simps]:
  "and_then r k = Inl e \<longleftrightarrow> r = Inl e \<or> (\<exists>a. r = Inr a \<and> k a = Inl e)"
  by (cases r) auto

lemma and_then_assoc: "and_then (and_then r k) l = and_then r (\<lambda>a. and_then (k a) l)"
  by (cases r) auto

lemma and_then_Inr_right [simp]: "and_then r Inr = r"
  by (cases r) auto

section \<open>State machines whose steps may fault\<close>

text \<open>
  \<open>run step s es\<close> feeds the events \<open>es\<close> to the machine one after the other and stops at the
  first fault, as the process does.
\<close>

fun run :: "('s \<Rightarrow> 'e \<Rightarrow> 's result) \<Rightarrow> 's \<Rightarrow> 'e list \<Rightarrow> 's result" where
  "run step s [] = Inr s"
| "run step s (e # es) = and_then (step s e) (\<lambda>s'. run step s' es)"

lemma run_append: "run step s (xs @ ys) = and_then (run step s xs) (\<lambda>s'. run step s' ys)"
  by (induction xs arbitrary: s) (simp_all add: and_then_assoc)

text \<open>The contract of a component with an invariant: every step that ends keeps it.\<close>

locale safe_machine =
  fixes step :: "'s \<Rightarrow> 'e \<Rightarrow> 's result"
    and inv :: "'s \<Rightarrow> bool"
  assumes step_inv: "inv s \<Longrightarrow> step s e = Inr s' \<Longrightarrow> inv s'"
begin

lemma run_inv: "inv s \<Longrightarrow> run step s es = Inr s' \<Longrightarrow> inv s'"
proof (induction es arbitrary: s)
  case Nil
  then show ?case by simp
next
  case (Cons e es)
  then show ?case by (auto simp: result_simps intro: step_inv)
qed

text \<open>A quantity that no step changes is the same at the end of every run.\<close>

lemma run_frame:
  assumes "\<And>s e s'. inv s \<Longrightarrow> step s e = Inr s' \<Longrightarrow> f s' = f s"
  shows "inv s \<Longrightarrow> run step s es = Inr s' \<Longrightarrow> f s' = f s"
proof (induction es arbitrary: s)
  case Nil
  then show ?case by simp
next
  case (Cons e es)
  then obtain t where "step s e = Inr t" "run step t es = Inr s'"
    by (auto simp: result_simps)
  with Cons assms step_inv show ?case by metis
qed

text \<open>A quantity that no step lowers is not lower at the end.\<close>

lemma run_mono:
  fixes f :: "'s \<Rightarrow> 'n::order"
  assumes "\<And>s e s'. inv s \<Longrightarrow> step s e = Inr s' \<Longrightarrow> f s \<le> f s'"
  shows "inv s \<Longrightarrow> run step s es = Inr s' \<Longrightarrow> f s \<le> f s'"
proof (induction es arbitrary: s)
  case Nil
  then show ?case by simp
next
  case (Cons e es)
  then obtain t where "step s e = Inr t" "run step t es = Inr s'"
    by (auto simp: result_simps)
  with Cons assms step_inv show ?case by (metis order_trans)
qed

end

text \<open>A machine that never faults from a state that satisfies the invariant.\<close>

locale total_machine = safe_machine +
  assumes step_total: "inv s \<Longrightarrow> \<exists>s'. step s e = Inr s'"
begin

lemma run_total: "inv s \<Longrightarrow> \<exists>s'. run step s es = Inr s' \<and> inv s'"
proof (induction es arbitrary: s)
  case Nil
  then show ?case by simp
next
  case (Cons e es)
  obtain t where t: "step s e = Inr t" using step_total [OF Cons.prems] by blast
  with Cons.prems have "inv t" by (rule step_inv)
  with Cons.IH t show ?case by auto
qed

end

section \<open>Lists\<close>

lemma takeWhile_no_hit [simp]: "d \<notin> set xs \<Longrightarrow> takeWhile (\<lambda>c. c \<noteq> d) xs = xs"
  by (induction xs) auto

lemma dropWhile_no_hit [simp]: "d \<notin> set xs \<Longrightarrow> dropWhile (\<lambda>c. c \<noteq> d) xs = []"
  by (induction xs) auto

lemma takeWhile_hit [simp]:
  "d \<notin> set xs \<Longrightarrow> takeWhile (\<lambda>c. c \<noteq> d) (xs @ d # ys) = xs"
  by (induction xs) auto

lemma dropWhile_hit [simp]:
  "d \<notin> set xs \<Longrightarrow> dropWhile (\<lambda>c. c \<noteq> d) (xs @ d # ys) = d # ys"
  by (induction xs) auto

lemma list_all_and_set: "list_all P xs \<longleftrightarrow> (\<forall>x \<in> set xs. P x)"
  by (simp add: list_all_iff)

end
