(* ===== verification/Registry.thy ===== *)
theory Registry
  imports Prelude
begin

unbundle bit_operations_syntax

text \<open>
  The table of intercepted functions, \<^verbatim>\<open>mysyscall/common.h\<close> and \<^verbatim>\<open>mysyscall/common.c\<close>, and the
  start-up of \<^verbatim>\<open>ptracer.c\<close>, which changes the same table. An entry's state is a bit set; the
  counters are \<^verbatim>\<open>uint64_t\<close> and modelled as naturals. \<^verbatim>\<open>dlsym\<close> belongs to the loader: its answers are
  arguments. \<^verbatim>\<open>errno\<close> and the thread-local \<^verbatim>\<open>saved_errno\<close> are part of the state, because the wrappers
  save and restore them.
\<close>

section \<open>State\<close>

type_synonym ptr = u64

definition STATE_UNUSED :: u32 where "STATE_UNUSED = 0"
definition STATE_ENABLED :: u32 where "STATE_ENABLED = 1"
definition STATE_PTRACE :: u32 where "STATE_PTRACE = 2"
definition STATE_LIBRARY :: u32 where "STATE_LIBRARY = 4"
definition STATE_DISABLED :: u32 where "STATE_DISABLED = 8"

definition NR_REG_FUNC_DICT :: nat where "NR_REG_FUNC_DICT = 512"

record reg_func =
  rf_name :: string
  rf_count :: nat
  concerned_count :: nat
  real_func :: ptr
  fake_func :: ptr
  rf_state :: u32

record registry =
  dict :: "nat \<Rightarrow> reg_func"
  nr_self_defined :: nat
  max_func_name_len :: nat
  saved_errno :: int
  errno :: int

definition empty_func :: reg_func where
  "empty_func = \<lparr>rf_name = [], rf_count = 0, concerned_count = 0, real_func = 0, fake_func = 0,
     rf_state = STATE_UNUSED\<rparr>"

definition registry_globals :: registry where
  "registry_globals = \<lparr>dict = (\<lambda>_. empty_func), nr_self_defined = NR_REG_FUNC_DICT - 2,
     max_func_name_len = 0, saved_errno = 0, errno = 0\<rparr>"

definition upd_func :: "nat \<Rightarrow> (reg_func \<Rightarrow> reg_func) \<Rightarrow> registry \<Rightarrow> registry" where
  "upd_func nr f r = r\<lparr>dict := (dict r)(nr := f (dict r nr))\<rparr>"

section \<open>Checks and counters\<close>

definition check_intercept :: "registry \<Rightarrow> nat \<Rightarrow> bool" where
  "check_intercept r nr \<longleftrightarrow> rf_state (dict r nr) AND STATE_ENABLED \<noteq> 0"

definition count_intercepted :: "nat \<Rightarrow> registry \<Rightarrow> registry" where
  "count_intercepted nr = upd_func nr (\<lambda>e. e\<lparr>rf_count := rf_count e + 1\<rparr>)"

definition count_concerned :: "nat \<Rightarrow> registry \<Rightarrow> registry" where
  "count_concerned nr = upd_func nr (\<lambda>e. e\<lparr>concerned_count := concerned_count e + 1\<rparr>)"

definition check_count_intercepted :: "nat \<Rightarrow> registry \<Rightarrow> bool \<times> registry" where
  "check_count_intercepted nr r =
     (if check_intercept r nr then (True, count_intercepted nr r) else (False, r))"

definition begin_intercept :: "nat \<Rightarrow> registry \<Rightarrow> bool \<times> registry" where
  "begin_intercept nr r =
     (if \<not> check_intercept r nr then (False, r)
      else (True, count_intercepted nr (r\<lparr>saved_errno := errno r\<rparr>)))"

definition end_intercept :: "registry \<Rightarrow> registry" where
  "end_intercept r = r\<lparr>errno := saved_errno r\<rparr>"

text \<open>\<^verbatim>\<open>log_intercepted\<close> in the default build, where neither \<^verbatim>\<open>PRINT_FIRST_USAGE\<close> nor
  \<^verbatim>\<open>PRINT_EVERY_USAGE\<close> is defined.\<close>

definition log_intercepted :: "nat \<Rightarrow> registry \<Rightarrow> registry" where
  "log_intercepted nr r = (if \<not> check_intercept r nr then r else count_concerned nr r)"

section \<open>Registration\<close>

text \<open>\<^verbatim>\<open>register_intercepted(nr, name, func, &real)\<close>: \<open>default_func\<close> and \<open>next_func\<close> are the answers of
  \<^verbatim>\<open>dlsym(RTLD_DEFAULT, name)\<close> and \<^verbatim>\<open>dlsym(RTLD_NEXT, name)\<close>; the second component is what is stored
  in \<^verbatim>\<open>*real\<close>.\<close>

definition register_intercepted ::
  "nat \<Rightarrow> string \<Rightarrow> ptr \<Rightarrow> ptr \<Rightarrow> ptr \<Rightarrow> registry \<Rightarrow> (registry \<times> ptr) result" where
  "register_intercepted nr name func default_func next_func r =
     (if \<not> nr < NR_REG_FUNC_DICT then Inl Assert_Failed
      else
       (let last = NR_REG_FUNC_DICT - 1;
            real = (if default_func \<noteq> func then default_func else next_func);
            r1 = (if default_func \<noteq> func
                  then upd_func nr (\<lambda>e. e\<lparr>real_func := real, fake_func := func,
                         rf_state := STATE_DISABLED\<rparr>) r
                  else (upd_func last (\<lambda>e. e\<lparr>concerned_count := concerned_count e + 1\<rparr>)
                         (upd_func nr (\<lambda>e. e\<lparr>real_func := real, fake_func := func,
                            rf_state := STATE_ENABLED\<rparr>) r))
                       \<lparr>max_func_name_len := max (max_func_name_len r) (length name)\<rparr>);
            r2 = upd_func nr (\<lambda>e. e\<lparr>rf_name := take 31 name\<rparr>) r1;
            r3 = (if nr = nr_self_defined r2 + 1
                  then upd_func nr (\<lambda>e. e\<lparr>rf_state := rf_state e OR STATE_LIBRARY\<rparr>) r2
                  else r2)
        in Inr (upd_func last (\<lambda>e. e\<lparr>rf_count := rf_count e + 1\<rparr>) r3, real)))"

definition unregister_intercepted :: "nat \<Rightarrow> registry \<Rightarrow> registry" where
  "unregister_intercepted nr =
     upd_func nr (\<lambda>e. e\<lparr>rf_state := (rf_state e AND NOT STATE_ENABLED) OR STATE_DISABLED\<rparr>)"

text \<open>The constructors that \<^verbatim>\<open>MAKE_SYS_TEMPLATE\<close> and \<^verbatim>\<open>MAKE_LIB_TEMPLATE\<close> expand to. A library
  function takes its number from the end of the table: \<^verbatim>\<open>LIB_name = NR_self_defined_func--\<close>.\<close>

record reg_request =
  rq_name :: string
  rq_func :: ptr
  rq_default :: ptr
  rq_next :: ptr

definition reg_sys :: "nat \<Rightarrow> reg_request \<Rightarrow> registry \<Rightarrow> (registry \<times> ptr) result" where
  "reg_sys nr q = register_intercepted nr (rq_name q) (rq_func q) (rq_default q) (rq_next q)"

definition reg_lib :: "reg_request \<Rightarrow> registry \<Rightarrow> (registry \<times> nat \<times> ptr) result" where
  "reg_lib q r =
     (let lib = nr_self_defined r;
          r1 = r\<lparr>nr_self_defined := lib - 1\<rparr>
      in and_then (register_intercepted lib (rq_name q) (rq_func q) (rq_default q) (rq_next q) r1)
           (\<lambda>(r2, real). Inr (r2, lib, real)))"

section \<open>\<^verbatim>\<open>ptracer\<close>'s start-up\<close>

text \<open>The loop of \<^verbatim>\<open>init\<close> over the table, from index \<open>i\<close> on, with its counter.\<close>

fun ptracer_loop :: "nat list \<Rightarrow> nat \<Rightarrow> registry \<Rightarrow> registry \<times> nat" where
  "ptracer_loop [] count r = (r, count)"
| "ptracer_loop (i # is) count r =
     (if check_intercept r i then
        (if rf_state (dict r i) AND STATE_LIBRARY \<noteq> 0
         then ptracer_loop is count (unregister_intercepted i r)
         else ptracer_loop is (count + 1)
                (upd_func i (\<lambda>e. e\<lparr>rf_state := rf_state e OR STATE_PTRACE\<rparr>) r))
      else ptracer_loop is count r)"

definition ptracer_init :: "registry \<Rightarrow> registry \<times> nat" where
  "ptracer_init r = ptracer_loop [0..<NR_REG_FUNC_DICT] 0 r"

section \<open>Lemmas\<close>

lemmas state_defs = STATE_UNUSED_def STATE_ENABLED_def STATE_PTRACE_def STATE_LIBRARY_def
  STATE_DISABLED_def

lemma dict_upd_func [simp]:
  "dict (upd_func nr f r) = (dict r)(nr := f (dict r nr))"
  "nr_self_defined (upd_func nr f r) = nr_self_defined r"
  "max_func_name_len (upd_func nr f r) = max_func_name_len r"
  "saved_errno (upd_func nr f r) = saved_errno r"
  "errno (upd_func nr f r) = errno r"
  by (simp_all add: upd_func_def)

text \<open>The flags as bits.\<close>

lemma flag_bits [simp]:
  "w AND STATE_ENABLED \<noteq> 0 \<longleftrightarrow> bit w 0"
  "w AND STATE_PTRACE \<noteq> 0 \<longleftrightarrow> bit w 1"
  "w AND STATE_LIBRARY \<noteq> 0 \<longleftrightarrow> bit w 2"
  "w AND STATE_DISABLED \<noteq> 0 \<longleftrightarrow> bit w 3"
proof -
  note * = and_exp_eq_0_iff_not_bit [of w]
  from * [of 0] * [of 1] * [of 2] * [of 3]
  show "w AND STATE_ENABLED \<noteq> 0 \<longleftrightarrow> bit w 0" "w AND STATE_PTRACE \<noteq> 0 \<longleftrightarrow> bit w 1"
    "w AND STATE_LIBRARY \<noteq> 0 \<longleftrightarrow> bit w 2" "w AND STATE_DISABLED \<noteq> 0 \<longleftrightarrow> bit w 3"
    by (simp_all add: state_defs)
qed

lemma state_bit [simp]:
  "bit STATE_ENABLED n \<longleftrightarrow> n = 0" "bit STATE_PTRACE n \<longleftrightarrow> n = 1"
  "bit STATE_LIBRARY n \<longleftrightarrow> n = 2" "bit STATE_DISABLED n \<longleftrightarrow> n = 3"
proof -
  have "bit (push_bit k 1 :: u32) n \<longleftrightarrow> n = k" if "k < 32" for k
    using that by (auto simp: bit_simps)
  from this [of 0] this [of 1] this [of 2] this [of 3]
  show "bit STATE_ENABLED n \<longleftrightarrow> n = 0" "bit STATE_PTRACE n \<longleftrightarrow> n = 1"
    "bit STATE_LIBRARY n \<longleftrightarrow> n = 2" "bit STATE_DISABLED n \<longleftrightarrow> n = 3"
    by (simp_all add: state_defs)
qed

lemma check_intercept_bit: "check_intercept r nr \<longleftrightarrow> bit (rf_state (dict r nr)) 0"
  by (simp add: check_intercept_def)

text \<open>What registration writes, in one update of the entry and one of the summary.\<close>

lemma register_dict:
  assumes "nr < NR_REG_FUNC_DICT" and "nr \<noteq> NR_REG_FUNC_DICT - 1"
  shows "\<exists>r'. register_intercepted nr name f d n r = Inr (r', if d = f then n else d) \<and>
    nr_self_defined r' = nr_self_defined r \<and>
    dict r' = (dict r)
      (nr := (dict r nr)\<lparr>rf_name := take 31 name, real_func := (if d = f then n else d),
         fake_func := f,
         rf_state := (if d = f then STATE_ENABLED else STATE_DISABLED) OR
           (if nr = nr_self_defined r + 1 then STATE_LIBRARY else 0)\<rparr>,
       NR_REG_FUNC_DICT - 1 := (dict r (NR_REG_FUNC_DICT - 1))
         \<lparr>rf_count := rf_count (dict r (NR_REG_FUNC_DICT - 1)) + 1,
          concerned_count := concerned_count (dict r (NR_REG_FUNC_DICT - 1)) +
            (if d = f then 1 else 0)\<rparr>)"
proof -
  define last where "last = NR_REG_FUNC_DICT - 1"
  have ne: "last \<noteq> nr" "nr \<noteq> last" using assms by (simp_all add: last_def)
  define lib where "lib = (nr = nr_self_defined r + 1)"
  show ?thesis
    unfolding register_intercepted_def last_def [symmetric] Let_def
    using assms(1) ne
    by (cases "d = f"; cases lib) (simp_all add: lib_def fun_eq_iff)
qed

lemma register_total: "nr < NR_REG_FUNC_DICT \<Longrightarrow> \<exists>r' real. register_intercepted nr name f d n r = Inr (r', real)"
  by (simp add: register_intercepted_def Let_def)

section \<open>\<^verbatim>\<open>ptracer\<close>: lemmas\<close>

definition ptracer_state :: "u32 \<Rightarrow> u32" where
  "ptracer_state w =
     (if \<not> bit w 0 then w
      else if bit w 2 then (w AND NOT STATE_ENABLED) OR STATE_DISABLED
      else w OR STATE_PTRACE)"

lemma ptracer_loop_spec:
  "distinct is \<Longrightarrow> ptracer_loop is c r = (r', c') \<Longrightarrow>
     (\<forall>j. rf_state (dict r' j) =
        (if j \<in> set is then ptracer_state (rf_state (dict r j)) else rf_state (dict r j))) \<and>
     c' = c + length (filter (\<lambda>j. bit (rf_state (dict r j)) 0 \<and> \<not> bit (rf_state (dict r j)) 2) is)"
proof (induction "is" c r rule: ptracer_loop.induct)
  case (1 c r)
  then show ?case by simp
next
  case (2 i "is" c r)
  have f: "filter (\<lambda>j. bit (rf_state (dict (upd_func i g r) j)) 0 \<and>
        \<not> bit (rf_state (dict (upd_func i g r) j)) 2) is =
      filter (\<lambda>j. bit (rf_state (dict r j)) 0 \<and> \<not> bit (rf_state (dict r j)) 2) is" for g
    using "2.prems"(1) by (intro filter_cong) auto
  show ?case
  proof (cases "bit (rf_state (dict r i)) 0")
    case False
    with 2 show ?thesis by (auto simp: check_intercept_bit ptracer_state_def)
  next
    case en: True
    show ?thesis
    proof (cases "bit (rf_state (dict r i)) 2")
      case True
      with 2 en f show ?thesis
        by (auto simp: check_intercept_bit ptracer_state_def unregister_intercepted_def)
    next
      case False
      with 2 en f show ?thesis
        by (auto simp: check_intercept_bit ptracer_state_def)
    qed
  qed
qed

section \<open>Properties\<close>

text \<open>Registration aborts for a number outside the table and otherwise succeeds; afterwards the
  entry holds the pointer that the wrapper will call, the loader's own function when another library
  shadows the wrapper and the next one otherwise, the wrapper intercepts exactly in the second case,
  and no other entry (but the summary at the end) has changed.\<close>

theorem registration:
  assumes "nr \<noteq> NR_REG_FUNC_DICT - 1"
  shows "case register_intercepted nr name f d n r of
     Inl e \<Rightarrow> e = Assert_Failed \<and> NR_REG_FUNC_DICT \<le> nr
   | Inr (r', real) \<Rightarrow> nr < NR_REG_FUNC_DICT \<and> real = (if d = f then n else d) \<and>
       real_func (dict r' nr) = real \<and> (check_intercept r' nr \<longleftrightarrow> d = f) \<and>
       (\<forall>m \<in> - {nr, NR_REG_FUNC_DICT - 1}. dict r' m = dict r m)"
proof (cases "nr < NR_REG_FUNC_DICT")
  case True
  define last where "last = NR_REG_FUNC_DICT - 1"
  have "nr \<noteq> last" using assms by (simp add: last_def)
  then show ?thesis
    using register_dict [OF True assms, of name f d n r] True
    unfolding last_def [symmetric] by (auto simp: check_intercept_bit bit_simps)
next
  case False
  then show ?thesis by (simp add: register_intercepted_def)
qed

theorem registration_witness:
  "\<exists>r'. register_intercepted 1 ''write'' 4096 4096 8192 registry_globals = Inr (r', 8192) \<and>
     check_intercept r' 1"
  using registration [where nr = 1 and name = "''write''" and f = 4096 and d = 4096 and n = 8192
      and r = registry_globals]
  by (auto simp: NR_REG_FUNC_DICT_def split: sum.splits)

text \<open>After \<^verbatim>\<open>ptracer\<close>'s \<^verbatim>\<open>init\<close> no library function of the table is intercepted any more, every
  system call that was intercepted still is and carries \<^verbatim>\<open>STATE_PTRACE\<close>, nothing else becomes
  intercepted, and the printed count is the number of those system calls.\<close>

theorem ptracer_init_effect:
  assumes "ptracer_init r = (r', n)"
  shows "(\<forall>i < NR_REG_FUNC_DICT.
       check_intercept r' i = (check_intercept r i \<and> \<not> bit (rf_state (dict r i)) 2) \<and>
       (check_intercept r' i \<longrightarrow> bit (rf_state (dict r' i)) 1)) \<and>
     n = card {i. i < NR_REG_FUNC_DICT \<and> check_intercept r' i}"
proof -
  let ?P = "\<lambda>j. bit (rf_state (dict r j)) 0 \<and> \<not> bit (rf_state (dict r j)) 2"
  have s: "\<forall>j. rf_state (dict r' j) = (if j < NR_REG_FUNC_DICT
        then ptracer_state (rf_state (dict r j)) else rf_state (dict r j))"
    and n: "n = length (filter ?P [0..<NR_REG_FUNC_DICT])"
    using ptracer_loop_spec [OF _ assms [unfolded ptracer_init_def]] by auto
  have c: "check_intercept r' i \<longleftrightarrow> ?P i" if "i < NR_REG_FUNC_DICT" for i
    using s that by (auto simp: check_intercept_bit ptracer_state_def bit_simps)
  have "n = card (set (filter ?P [0..<NR_REG_FUNC_DICT]))"
    unfolding n by (rule distinct_card [symmetric]) simp
  also have "set (filter ?P [0..<NR_REG_FUNC_DICT]) =
      {i. i < NR_REG_FUNC_DICT \<and> check_intercept r' i}"
    using c by auto
  finally show ?thesis
    using c s by (auto simp: check_intercept_bit ptracer_state_def bit_simps)
qed

theorem ptracer_init_effect_witness:
  "\<exists>r' n. ptracer_init (upd_func 1 (\<lambda>e. e\<lparr>rf_state := STATE_ENABLED\<rparr>) registry_globals) = (r', n) \<and>
     bit (rf_state (dict r' 1)) 1"
proof -
  let ?r = "upd_func 1 (\<lambda>e. e\<lparr>rf_state := STATE_ENABLED\<rparr>) registry_globals"
  obtain r' n where p: "ptracer_init ?r = (r', n)" by fastforce
  have "check_intercept ?r 1" by (simp add: check_intercept_bit)
  then show ?thesis
    using ptracer_init_effect [OF p] p by (auto simp: NR_REG_FUNC_DICT_def)
qed

end
