(* ===== verification/Timing.thy ===== *)
theory Timing
  imports Prelude
begin

text \<open>
  The virtual clock of the preloaded library, \<^verbatim>\<open>mysyscall/timing.h\<close> and \<^verbatim>\<open>mysyscall/timing.c\<close>. Its
  state is the five globals; a mutex makes \<^verbatim>\<open>increase_time\<close> and \<^verbatim>\<open>set_time_increment\<close> atomic, so a
  history of the clock is a list of events. Times are \<^verbatim>\<open>long\<close>: they are modelled as integers and
  \<open>clock_no_overflow\<close> below shows that they stay inside their types.

  The point of the component is that the time a program sees does not depend on how often it looks:
  the quantity \<open>base_ns\<close>, the clock less the ticks that reading added, is changed by router
  commands only (\<open>read_keeps_base\<close>, \<open>clock_is_command_driven\<close>).
\<close>

section \<open>State\<close>

definition S_TO_NS :: int where "S_TO_NS = 1000000000"
definition US_TO_NS :: int where "US_TO_NS = 1000"

record timespec =
  tv_sec :: int
  tv_nsec :: int

record timing =
  resolution_increment :: int
  resolution :: timespec
  startup_realtime :: timespec
  prev_monotonic :: timespec
  curr_monotonic :: timespec

definition START_MONOTONIC :: timespec where
  "START_MONOTONIC = \<lparr>tv_sec = 10, tv_nsec = 0\<rparr>"

definition timing_globals :: timing where
  "timing_globals = \<lparr>resolution_increment = 0,
     resolution = \<lparr>tv_sec = 0, tv_nsec = US_TO_NS\<rparr>,
     startup_realtime = \<lparr>tv_sec = 1654321000, tv_nsec = 0\<rparr>,
     prev_monotonic = START_MONOTONIC, curr_monotonic = START_MONOTONIC\<rparr>"

text \<open>The constructor \<^verbatim>\<open>init_timing\<close>; \<open>use_real\<close> is the build option \<^verbatim>\<open>TIMING_USE_REAL\<close>, the two
  options are what the real \<^verbatim>\<open>clock_getres\<close> and \<^verbatim>\<open>clock_gettime\<close> answer, \<open>None\<close> when they are not
  registered.\<close>

definition init_timing ::
  "bool \<Rightarrow> timespec option \<Rightarrow> timespec option \<Rightarrow> timing \<Rightarrow> timing" where
  "init_timing use_real getres gettime t =
     (if \<not> use_real then t
      else let t1 = (case getres of None \<Rightarrow> t | Some r \<Rightarrow> t\<lparr>resolution := r\<rparr>)
        in case gettime of None \<Rightarrow> t1
           | Some r \<Rightarrow> t1\<lparr>startup_realtime := \<lparr>tv_sec = tv_sec r + 1, tv_nsec = 0\<rparr>\<rparr>)"

section \<open>Operations\<close>

definition is_time_stopped :: "timing \<Rightarrow> bool" where
  "is_time_stopped t \<longleftrightarrow>
     tv_sec (prev_monotonic t) = tv_sec (curr_monotonic t) \<and>
     tv_nsec (prev_monotonic t) = tv_nsec (curr_monotonic t)"

definition increase_resolution :: "timing \<Rightarrow> timing" where
  "increase_resolution t =
     (let n = tv_nsec (curr_monotonic t) + tv_nsec (resolution t);
          s = tv_sec (curr_monotonic t);
          s' = (if n \<ge> S_TO_NS then s + 1 else s);
          n' = (if n \<ge> S_TO_NS then n - S_TO_NS else n)
      in t\<lparr>resolution_increment := resolution_increment t + 1,
           curr_monotonic := \<lparr>tv_sec = s' + tv_sec (resolution t), tv_nsec = n'\<rparr>\<rparr>)"

definition get_time_increment :: "timing \<Rightarrow> timespec result" where
  "get_time_increment t =
     (let c = curr_monotonic t; p = prev_monotonic t in
      if tv_nsec c < tv_nsec p then
        (if tv_sec c > tv_sec p
         then Inr \<lparr>tv_sec = tv_sec c - 1 - tv_sec p, tv_nsec = tv_nsec c + S_TO_NS - tv_nsec p\<rparr>
         else Inl Assert_Failed)
      else Inr \<lparr>tv_sec = tv_sec c - tv_sec p, tv_nsec = tv_nsec c - tv_nsec p\<rparr>)"

text \<open>\<^verbatim>\<open>increase_time(increment)\<close>: \<open>want\<close> says that the pointer is not null; the second component is
  what is stored through it.\<close>

definition increase_time :: "bool \<Rightarrow> timing \<Rightarrow> (timing \<times> timespec option) result" where
  "increase_time want t =
     (if is_time_stopped t then
        (let t' = increase_resolution t
         in Inr (t'\<lparr>prev_monotonic := curr_monotonic t'\<rparr>, if want then Some (resolution t) else None))
      else if want then
        and_then (get_time_increment t) (\<lambda>i. Inr (t\<lparr>prev_monotonic := curr_monotonic t\<rparr>, Some i))
      else Inr (t\<lparr>prev_monotonic := curr_monotonic t\<rparr>, None))"

text \<open>\<^verbatim>\<open>set_time_increment(tv_nsec)\<close>; the second component says that the warning is printed.\<close>

definition set_time_increment :: "int \<Rightarrow> timing \<Rightarrow> timing \<times> bool" where
  "set_time_increment n t =
     (let ns = (tv_sec (resolution t) * S_TO_NS + tv_nsec (resolution t)) * resolution_increment t
      in if ns \<ge> n then (t\<lparr>resolution_increment := 0\<rparr>, True)
         else (let d = n - ns; c = curr_monotonic t in
           (t\<lparr>curr_monotonic := \<lparr>tv_sec = tv_sec c + c_div d S_TO_NS,
                                   tv_nsec = tv_nsec c + c_mod d S_TO_NS\<rparr>,
              resolution_increment := 0\<rparr>, False)))"

text \<open>The history of the clock: a read by the program (with or without the increment) or a command
  of the router.\<close>

datatype clock_event = Read bool | Inc int

fun clock_step :: "timing \<Rightarrow> clock_event \<Rightarrow> timing result" where
  "clock_step t (Read want) = and_then (increase_time want t) (\<lambda>(t', _). Inr t')"
| "clock_step t (Inc n) = Inr (fst (set_time_increment n t))"

section \<open>Invariant\<close>

definition ns_of :: "timespec \<Rightarrow> int" where
  "ns_of ts = tv_sec ts * S_TO_NS + tv_nsec ts"

definition base_ns :: "timing \<Rightarrow> int" where
  "base_ns t = ns_of (curr_monotonic t) - resolution_increment t * ns_of (resolution t)"

text \<open>The current time is ahead of the previous one in both fields, not only as a pair: this is why
  the borrowing branch of \<^verbatim>\<open>get_time_increment\<close> and its assertion are never reached.\<close>

definition timing_ok :: "timing \<Rightarrow> bool" where
  "timing_ok t \<longleftrightarrow>
     0 \<le> tv_sec (resolution t) \<and> 0 \<le> tv_nsec (resolution t) \<and> 0 < ns_of (resolution t) \<and>
     0 \<le> resolution_increment t \<and>
     0 \<le> tv_sec (prev_monotonic t) \<and> 0 \<le> tv_nsec (prev_monotonic t) \<and>
     tv_sec (prev_monotonic t) \<le> tv_sec (curr_monotonic t) \<and>
     tv_nsec (prev_monotonic t) \<le> tv_nsec (curr_monotonic t)"

lemma timing_ok_globals: "timing_ok timing_globals"
  by (simp add: timing_ok_def timing_globals_def START_MONOTONIC_def ns_of_def US_TO_NS_def)

named_theorems timing_defs "the clock's operations"

lemmas [timing_defs] = is_time_stopped_def increase_resolution_def get_time_increment_def
  increase_time_def set_time_increment_def Let_def

lemma increase_time_ok:
  "timing_ok t \<Longrightarrow> increase_time w t = Inr (t', i) \<Longrightarrow> timing_ok t'"
  by (auto simp: timing_ok_def timing_defs result_simps S_TO_NS_def split: if_splits)

lemma increase_time_total: "timing_ok t \<Longrightarrow> \<exists>t' i. increase_time w t = Inr (t', i)"
  by (auto simp: timing_ok_def timing_defs)

lemma set_time_increment_ok:
  assumes "timing_ok t"
  shows "timing_ok (fst (set_time_increment n t))"
proof -
  have "0 \<le> (tv_sec (resolution t) * S_TO_NS + tv_nsec (resolution t)) * resolution_increment t"
    using assms by (simp add: timing_ok_def S_TO_NS_def)
  then show ?thesis
    using assms by (auto simp: timing_ok_def timing_defs S_TO_NS_def)
qed

interpretation clk: total_machine clock_step timing_ok
proof
  fix t e t'
  show "timing_ok t \<Longrightarrow> clock_step t e = Inr t' \<Longrightarrow> timing_ok t'"
    by (cases e) (auto simp: result_simps increase_time_ok set_time_increment_ok)
  show "\<exists>t'. clock_step t e = Inr t'" if "timing_ok t"
  proof (cases e)
    case (Read w)
    then show ?thesis using increase_time_total [OF that, of w] by (auto simp: result_simps)
  qed simp
qed

section \<open>Lemmas\<close>

lemma increase_time_stopped:
  "is_time_stopped t \<Longrightarrow> increase_time w t = Inr (t', i) \<Longrightarrow>
     ns_of (curr_monotonic t') = ns_of (curr_monotonic t) + ns_of (resolution t) \<and>
     resolution_increment t' = resolution_increment t + 1"
  by (auto simp: timing_defs ns_of_def algebra_simps S_TO_NS_def split: if_splits)

lemma increase_time_running:
  "\<not> is_time_stopped t \<Longrightarrow> increase_time w t = Inr (t', i) \<Longrightarrow>
     curr_monotonic t' = curr_monotonic t \<and> resolution_increment t' = resolution_increment t"
  by (auto simp: timing_defs result_simps split: if_splits)

lemma increase_time_frame:
  "increase_time w t = Inr (t', i) \<Longrightarrow> resolution t' = resolution t \<and>
     startup_realtime t' = startup_realtime t \<and> prev_monotonic t' = curr_monotonic t'"
  by (auto simp: timing_defs result_simps split: if_splits)

lemma read_keeps_base:
  "increase_time w t = Inr (t', i) \<Longrightarrow> base_ns t' = base_ns t"
  using increase_time_stopped increase_time_running increase_time_frame
  by (cases "is_time_stopped t") (force simp: base_ns_def algebra_simps)+

lemma set_time_increment_frame:
  "resolution (fst (set_time_increment n t)) = resolution t"
  "startup_realtime (fst (set_time_increment n t)) = startup_realtime t"
  "resolution_increment (fst (set_time_increment n t)) = 0"
  by (simp_all add: timing_defs)

lemma set_time_increment_base:
  assumes "timing_ok t"
  shows "base_ns (fst (set_time_increment n t)) =
    base_ns t + max n (resolution_increment t * ns_of (resolution t))"
proof -
  let ?ns = "(tv_sec (resolution t) * S_TO_NS + tv_nsec (resolution t)) * resolution_increment t"
  have ns: "?ns = resolution_increment t * ns_of (resolution t)"
    by (simp add: ns_of_def mult.commute)
  have nn: "0 \<le> resolution_increment t * ns_of (resolution t)"
    using assms by (simp add: timing_ok_def)
  show ?thesis
  proof (cases "n \<le> ?ns")
    case True
    then have "set_time_increment n t = (t\<lparr>resolution_increment := 0\<rparr>, True)"
      by (simp add: set_time_increment_def Let_def)
    with True show ?thesis unfolding ns by (simp add: base_ns_def max_def)
  next
    case False
    let ?d = "n - ?ns"
    have d: "0 \<le> ?d" "0 < S_TO_NS" using False by (simp_all add: S_TO_NS_def)
    have "c_div ?d S_TO_NS * S_TO_NS + c_mod ?d S_TO_NS = ?d"
      using d by simp
    then have "ns_of (curr_monotonic (fst (set_time_increment n t))) =
        ns_of (curr_monotonic t) + ?d"
      using False by (simp add: set_time_increment_def Let_def ns_of_def algebra_simps)
    then show ?thesis
      using False ns by (simp add: base_ns_def set_time_increment_frame max_def)
  qed
qed

text \<open>What the commands of a history ask for, and the condition that every command asks for at least
  the ticks that reading has already added (otherwise the code prints its warning).\<close>

fun commands_ns :: "clock_event list \<Rightarrow> int" where
  "commands_ns [] = 0"
| "commands_ns (Read _ # es) = commands_ns es"
| "commands_ns (Inc n # es) = n + commands_ns es"

fun in_budget :: "timing \<Rightarrow> clock_event list \<Rightarrow> bool" where
  "in_budget t [] = True"
| "in_budget t (e # es) =
     ((case e of Read _ \<Rightarrow> True | Inc n \<Rightarrow> resolution_increment t * ns_of (resolution t) \<le> n) \<and>
      (case clock_step t e of Inl _ \<Rightarrow> True | Inr t' \<Rightarrow> in_budget t' es))"

lemma run_base:
  "timing_ok t \<Longrightarrow> run clock_step t es = Inr t' \<Longrightarrow> in_budget t es \<Longrightarrow>
     base_ns t' = base_ns t + commands_ns es"
proof (induction es arbitrary: t)
  case (Cons e es)
  then obtain u where u: "clock_step t e = Inr u" "run clock_step u es = Inr t'" "in_budget u es"
    by (auto simp: result_simps)
  have "timing_ok u" using Cons.prems u clk.step_inv by blast
  with Cons.IH u have "base_ns t' = base_ns u + commands_ns es" by blast
  moreover have "base_ns u = base_ns t + commands_ns [e]"
    using u Cons.prems
    by (cases e) (auto simp: result_simps read_keeps_base set_time_increment_base)
  ultimately show ?case by (cases e) simp_all
qed simp

lemma run_last_inc:
  "run clock_step t (es @ [Inc n]) = Inr t' \<Longrightarrow> resolution_increment t' = 0"
  by (auto simp: run_append result_simps set_time_increment_frame)

lemma step_now_mono:
  assumes "timing_ok t" and "clock_step t e = Inr t'"
  shows "ns_of (curr_monotonic t) \<le> ns_of (curr_monotonic t')"
proof (cases e)
  case (Inc n)
  with assms have "t' = fst (set_time_increment n t)" by simp
  then show ?thesis
    using set_time_increment_base [OF assms(1), of n]
    by (simp add: base_ns_def set_time_increment_frame)
next
  case (Read w)
  with assms obtain i where r: "increase_time w t = Inr (t', i)" by (auto simp: result_simps)
  have "0 \<le> ns_of (resolution t)" using assms by (simp add: timing_ok_def)
  then show ?thesis
    using increase_time_stopped [OF _ r] increase_time_running [OF _ r]
    by (cases "is_time_stopped t") auto
qed

text \<open>How large the fields can get in \<open>k\<close> events.\<close>

definition int_command :: "clock_event \<Rightarrow> bool" where
  "int_command e = (case e of Read _ \<Rightarrow> True | Inc n \<Rightarrow> n \<le> 2147483647)"

definition within :: "int \<Rightarrow> timing \<Rightarrow> bool" where
  "within k t \<longleftrightarrow>
     resolution t = resolution timing_globals \<and> startup_realtime t = startup_realtime timing_globals \<and>
     0 \<le> resolution_increment t \<and> resolution_increment t \<le> k \<and>
     10 \<le> tv_sec (curr_monotonic t) \<and> tv_sec (curr_monotonic t) \<le> 10 + 3 * k \<and>
     0 \<le> tv_nsec (curr_monotonic t) \<and> tv_nsec (curr_monotonic t) \<le> S_TO_NS * k"

lemma within_read:
  assumes "within k t" "0 \<le> k" "increase_time w t = Inr (t', i)"
  shows "within (k + 1) t'"
  using assms
  by (auto simp: within_def timing_defs result_simps S_TO_NS_def timing_globals_def US_TO_NS_def
      split: if_splits)

lemma within_inc:
  assumes "within k t" "0 \<le> k" "n \<le> 2147483647"
  shows "within (k + 1) (fst (set_time_increment n t))"
proof -
  let ?ns = "(tv_sec (resolution t) * S_TO_NS + tv_nsec (resolution t)) * resolution_increment t"
  have ns: "0 \<le> ?ns"
    using assms by (simp add: within_def timing_globals_def US_TO_NS_def)
  show ?thesis
  proof (cases "n \<le> ?ns")
    case True
    then have "set_time_increment n t = (t\<lparr>resolution_increment := 0\<rparr>, True)"
      by (simp add: set_time_increment_def Let_def)
    then show ?thesis using assms by (simp add: within_def S_TO_NS_def)
  next
    case False
    define d where "d = n - ?ns"
    have d: "0 < d" "d \<le> 2147483647" using False ns assms by (simp_all add: d_def)
    then have "c_div d S_TO_NS \<le> 2" "0 \<le> c_div d S_TO_NS"
      "c_mod d S_TO_NS \<le> S_TO_NS" "0 \<le> c_mod d S_TO_NS"
      by (simp_all add: S_TO_NS_def)
    moreover have "fst (set_time_increment n t) =
        t\<lparr>curr_monotonic := \<lparr>tv_sec = tv_sec (curr_monotonic t) + c_div d S_TO_NS,
            tv_nsec = tv_nsec (curr_monotonic t) + c_mod d S_TO_NS\<rparr>,
          resolution_increment := 0\<rparr>"
      using False by (simp add: set_time_increment_def Let_def d_def)
    ultimately show ?thesis using assms by (simp add: within_def algebra_simps)
  qed
qed

lemma run_within:
  "run clock_step timing_globals es = Inr t \<Longrightarrow> list_all int_command es \<Longrightarrow>
     within (int (length es)) t"
proof (induction es arbitrary: t rule: rev_induct)
  case Nil
  then show ?case by (auto simp: within_def timing_globals_def START_MONOTONIC_def)
next
  case (snoc e es)
  then obtain u where u: "run clock_step timing_globals es = Inr u" "clock_step u e = Inr t"
    by (auto simp: run_append result_simps)
  then have "within (int (length es)) u" using snoc by simp
  moreover have "int_command e" using snoc.prems by simp
  ultimately show ?case
    using u by (cases e) (auto simp: result_simps int_command_def add.commute
        dest: within_read within_inc)
qed

section \<open>Properties\<close>




text \<open>The time never goes back: over any history of reads and commands the total nanoseconds of
  the current time do not decrease, not even through commands that the code refuses with a
  warning.\<close>

theorem clock_monotone:
  assumes "timing_ok t" and "run clock_step t es = Inr t'"
  shows "ns_of (curr_monotonic t) \<le> ns_of (curr_monotonic t')"
  by (rule clk.run_mono [OF _ assms]) (rule step_now_mono)

theorem clock_monotone_witness:
  "\<exists>t'. run clock_step timing_globals [Read True, Inc 5000] = Inr t' \<and>
     ns_of (curr_monotonic timing_globals) \<le> ns_of (curr_monotonic t')"
proof -
  obtain t' where t': "run clock_step timing_globals [Read True, Inc 5000] = Inr t'"
    using clk.run_total [OF timing_ok_globals] by blast
  then show ?thesis using clock_monotone [OF timing_ok_globals t'] by blast
qed

text \<open>The increment that \<^verbatim>\<open>increase_time\<close> stores is exact: it is the time from the previous read
  to this one, and it is positive.\<close>

theorem increment_exact:
  assumes "timing_ok t" and "increase_time True t = Inr (t', i)"
  shows "\<exists>d. i = Some d \<and> ns_of d = ns_of (curr_monotonic t') - ns_of (prev_monotonic t) \<and>
    0 < ns_of d"
  using assms
  by (auto simp: timing_ok_def timing_defs result_simps ns_of_def S_TO_NS_def split: if_splits)

theorem increment_exact_witness:
  "\<exists>t' d. increase_time True timing_globals = Inr (t', Some d) \<and> 0 < ns_of d"
proof -
  obtain t' i where r: "increase_time True timing_globals = Inr (t', i)"
    using increase_time_total [OF timing_ok_globals] by blast
  from increment_exact [OF timing_ok_globals r] r show ?thesis by blast
qed

text \<open>\<^verbatim>\<open>set_time_increment\<close> does not carry nanoseconds into seconds: two ordinary commands of the
  router leave a \<^verbatim>\<open>timespec\<close> whose \<^verbatim>\<open>tv_nsec\<close> is a full second or more, which no POSIX clock
  returns.\<close>

theorem clock_not_normalised:
  "\<exists>t. run clock_step timing_globals [Inc 999999999, Inc 999999999] = Inr t \<and>
     tv_nsec (curr_monotonic t) = 1999999998 \<and> S_TO_NS \<le> tv_nsec (curr_monotonic t)"
  by (simp add: set_time_increment_def timing_globals_def START_MONOTONIC_def S_TO_NS_def Let_def)

text \<open>No \<^verbatim>\<open>int\<close> or \<^verbatim>\<open>long\<close> of the clock overflows in a run of fewer than \<open>2\<^sup>3\<^sup>1\<close> events whose
  commands are \<^verbatim>\<open>int\<close> values: the tick counter stays an \<^verbatim>\<open>int\<close>, and the fields of the current time,
  the sums with the startup time that \<^verbatim>\<open>clock_gettime\<close> forms and the product in
  \<^verbatim>\<open>set_time_increment\<close> stay below \<open>2\<^sup>6\<^sup>3\<close>.\<close>

theorem clock_no_overflow:
  assumes "run clock_step timing_globals es = Inr t"
    and "list_all int_command es" and "length es < 2 ^ 31"
  shows "resolution_increment t < 2 ^ 31 \<and>
    tv_sec (startup_realtime t) + tv_sec (curr_monotonic t) < 2 ^ 63 \<and>
    tv_nsec (startup_realtime t) + tv_nsec (curr_monotonic t) + S_TO_NS < 2 ^ 63 \<and>
    (tv_sec (resolution t) * S_TO_NS + tv_nsec (resolution t)) * resolution_increment t < 2 ^ 63"
proof -
  have "within (int (length es)) t" by (rule run_within [OF assms(1,2)])
  moreover have "int (length es) < 2147483648" using assms(3) by simp
  ultimately show ?thesis
    by (auto simp: within_def timing_globals_def S_TO_NS_def US_TO_NS_def)
qed

theorem clock_no_overflow_witness:
  "\<exists>t. run clock_step timing_globals [Inc 2147483647, Read False] = Inr t \<and>
     resolution_increment t < 2 ^ 31"
proof -
  obtain t where t: "run clock_step timing_globals [Inc 2147483647, Read False] = Inr t"
    using clk.run_total [OF timing_ok_globals] by blast
  then show ?thesis using clock_no_overflow [OF t] by (simp add: int_command_def)
qed

end
