(* ===== verification/Clocks.thy ===== *)
theory Clocks
  imports Registry Timing
begin

text \<open>
  The intercepted clock functions: \<^verbatim>\<open>myclock_gettime.c\<close>, \<^verbatim>\<open>mygettimeofday.c\<close>, \<^verbatim>\<open>mytime.c\<close> and
  \<^verbatim>\<open>myclock_getres.c\<close>. Each takes the real function's behaviour as an argument, the table and the
  clock, and gives them back with the return value and what is stored through the pointer. A
  pointer argument is the flag that it is not null.
\<close>

definition SYS_gettimeofday :: nat where "SYS_gettimeofday = 96"
definition SYS_time :: nat where "SYS_time = 201"
definition SYS_clock_gettime :: nat where "SYS_clock_gettime = 228"
definition SYS_clock_getres :: nat where "SYS_clock_getres = 229"

definition CLOCK_REALTIME :: int where "CLOCK_REALTIME = 0"
definition CLOCK_MONOTONIC :: int where "CLOCK_MONOTONIC = 1"
definition CLOCK_MONOTONIC_RAW :: int where "CLOCK_MONOTONIC_RAW = 4"
definition CLOCK_REALTIME_COARSE :: int where "CLOCK_REALTIME_COARSE = 5"
definition CLOCK_MONOTONIC_COARSE :: int where "CLOCK_MONOTONIC_COARSE = 6"
definition CLOCK_BOOTTIME :: int where "CLOCK_BOOTTIME = 7"

lemmas clock_ids = CLOCK_REALTIME_def CLOCK_MONOTONIC_def CLOCK_MONOTONIC_RAW_def
  CLOCK_REALTIME_COARSE_def CLOCK_MONOTONIC_COARSE_def CLOCK_BOOTTIME_def

record timeval =
  tv_sec_of :: int
  tv_usec :: int

section \<open>The wrappers\<close>

text \<open>The switch of \<^verbatim>\<open>clock_gettime\<close>; \<open>None\<close> is the \<^verbatim>\<open>default\<close> label with its \<^verbatim>\<open>assert(0)\<close>.\<close>

definition clock_value :: "timing \<Rightarrow> int \<Rightarrow> timespec option" where
  "clock_value t clockid =
     (if clockid = CLOCK_REALTIME \<or> clockid = CLOCK_REALTIME_COARSE then
        Some \<lparr>tv_sec = tv_sec (startup_realtime t) + tv_sec (curr_monotonic t),
              tv_nsec = tv_nsec (startup_realtime t) + tv_nsec (curr_monotonic t)\<rparr>
      else if clockid = CLOCK_MONOTONIC \<or> clockid = CLOCK_MONOTONIC_COARSE \<or>
              clockid = CLOCK_MONOTONIC_RAW \<or> clockid = CLOCK_BOOTTIME then
        Some \<lparr>tv_sec = tv_sec (curr_monotonic t), tv_nsec = tv_nsec (curr_monotonic t)\<rparr>
      else None)"

definition clock_gettime ::
  "(int \<Rightarrow> bool \<Rightarrow> int \<times> timespec option) \<Rightarrow> int \<Rightarrow> bool \<Rightarrow> registry \<Rightarrow> timing \<Rightarrow>
     (registry \<times> timing \<times> int \<times> timespec option) result" where
  "clock_gettime real_clock_gettime clockid tp r t =
     (case check_count_intercepted SYS_clock_gettime r of (ok, r1) \<Rightarrow>
      if \<not> ok then (case real_clock_gettime clockid tp of (ret, ts) \<Rightarrow> Inr (r1, t, ret, ts))
      else and_then (increase_time True t) (\<lambda>(t', _).
        case clock_value t' clockid of
          None \<Rightarrow> Inl Assert_Failed
        | Some ts \<Rightarrow>
            if tp then Inr (log_intercepted SYS_clock_gettime r1, t', 0, Some ts)
            else Inl (Undefined Null_Deref)))"

text \<open>\<^verbatim>\<open>gettimeofday(tv, tz)\<close>. With a time zone the real function runs first; what it stores through \<^verbatim>\<open>tv\<close> is
  overwritten, what it stores through \<^verbatim>\<open>tz\<close> is not part of the result.\<close>

definition gettimeofday ::
  "(bool \<Rightarrow> bool \<Rightarrow> int \<times> timeval option) \<Rightarrow> bool \<Rightarrow> bool \<Rightarrow> registry \<Rightarrow> timing \<Rightarrow>
     (registry \<times> timing \<times> int \<times> timeval option) result" where
  "gettimeofday real_gettimeofday tv tz r t =
     (case check_count_intercepted SYS_gettimeofday r of (ok, r1) \<Rightarrow>
      if \<not> ok then (case real_gettimeofday tv tz of (ret, v) \<Rightarrow> Inr (r1, t, ret, v))
      else and_then (increase_time False t) (\<lambda>(t', _).
        if tv then
          Inr (log_intercepted SYS_gettimeofday r1, t', 0,
               Some \<lparr>tv_sec_of = tv_sec (startup_realtime t') + tv_sec (curr_monotonic t'),
                 tv_usec = c_div (tv_nsec (startup_realtime t') + tv_nsec (curr_monotonic t')) US_TO_NS\<rparr>)
        else Inl (Undefined Null_Deref)))"

text \<open>\<^verbatim>\<open>time(tloc)\<close>; the last component is what \<^verbatim>\<open>*tloc\<close> holds afterwards.\<close>

definition my_time ::
  "(bool \<Rightarrow> int) \<Rightarrow> bool \<Rightarrow> registry \<Rightarrow> timing \<Rightarrow>
     (registry \<times> timing \<times> int \<times> int option) result" where
  "my_time real_time tloc r t =
     (case check_count_intercepted SYS_time r of (ok, r1) \<Rightarrow>
      if \<not> ok then Inr (r1, t, real_time tloc, if tloc then Some (real_time tloc) else None)
      else and_then (increase_time False t) (\<lambda>(t', _).
        (let ret = tv_sec (startup_realtime t') + tv_sec (curr_monotonic t') in
         if tloc \<and> real_time tloc = -1 then Inr (r1, t', -1, Some (-1))
         else Inr (log_intercepted SYS_time r1, t', ret, if tloc then Some ret else None))))"

definition clock_getres ::
  "(int \<Rightarrow> bool \<Rightarrow> int \<times> timespec option) \<Rightarrow> int \<Rightarrow> bool \<Rightarrow> registry \<Rightarrow> timing \<Rightarrow>
     (registry \<times> int \<times> timespec option) result" where
  "clock_getres real_clock_getres clockid res r t =
     (case check_count_intercepted SYS_clock_getres r of (ok, r1) \<Rightarrow>
      if \<not> ok then (case real_clock_getres clockid res of (ret, ts) \<Rightarrow> Inr (r1, ret, ts))
      else if res then Inr (log_intercepted SYS_clock_getres r1, 0, Some (resolution t))
      else Inl (Undefined Null_Deref))"

section \<open>Lemmas\<close>

lemma check_count_enabled [simp]:
  "check_intercept r nr \<Longrightarrow> check_count_intercepted nr r = (True, count_intercepted nr r)"
  by (simp add: check_count_intercepted_def)

lemma check_count_disabled [simp]:
  "\<not> check_intercept r nr \<Longrightarrow> check_count_intercepted nr r = (False, r)"
  by (simp add: check_count_intercepted_def)

text \<open>The two forms of \<^verbatim>\<open>increase_time\<close> leave the same clock.\<close>

lemma increase_time_want:
  assumes "timing_ok t"
  obtains t' d where "increase_time True t = Inr (t', Some d)" "increase_time False t = Inr (t', None)"
    "timing_ok t'" "startup_realtime t' = startup_realtime t"
proof -
  have "\<exists>t' d. increase_time True t = Inr (t', Some d) \<and> increase_time False t = Inr (t', None)"
    using assms by (auto simp: timing_ok_def timing_defs)
  then show ?thesis
    using that increase_time_ok [OF assms] increase_time_frame by metis
qed

section \<open>Properties\<close>

text \<open>The ways of asking for the time agree: from the same clock, intercepted
  \<^verbatim>\<open>clock_gettime(CLOCK_REALTIME)\<close>, \<^verbatim>\<open>gettimeofday\<close> and \<^verbatim>\<open>time\<close> leave the same new clock, and
  report the startup time plus the monotonic time, in nanoseconds, in microseconds rounded down and
  in whole seconds.\<close>

theorem clocks_agree:
  assumes "timing_ok t" and "0 \<le> tv_nsec (startup_realtime t)"
    and "check_intercept r SYS_clock_gettime" "check_intercept r SYS_gettimeofday"
      "check_intercept r SYS_time"
  shows "\<exists>t' ts r1 r2 r3.
    clock_gettime f CLOCK_REALTIME True r t = Inr (r1, t', 0, Some ts) \<and>
    gettimeofday g True tz r t = Inr (r2, t', 0,
      Some \<lparr>tv_sec_of = tv_sec ts, tv_usec = tv_nsec ts div US_TO_NS\<rparr>) \<and>
    my_time h False r t = Inr (r3, t', tv_sec ts, None) \<and>
    ns_of ts = ns_of (startup_realtime t) + ns_of (curr_monotonic t')"
proof -
  obtain t' d where t': "increase_time True t = Inr (t', Some d)"
    "increase_time False t = Inr (t', None)" "timing_ok t'" "startup_realtime t' = startup_realtime t"
    using increase_time_want [OF assms(1)] .
  have "0 \<le> tv_nsec (curr_monotonic t')" using t'(3) by (auto simp: timing_ok_def)
  with assms t' show ?thesis
    by (auto simp: clock_gettime_def gettimeofday_def my_time_def clock_value_def clock_ids
        ns_of_def algebra_simps US_TO_NS_def)
qed

definition clock_registry :: registry where
  "clock_registry = upd_func 228 (\<lambda>e. e\<lparr>rf_state := STATE_ENABLED\<rparr>)
     (upd_func 201 (\<lambda>e. e\<lparr>rf_state := STATE_ENABLED\<rparr>)
     (upd_func 96 (\<lambda>e. e\<lparr>rf_state := STATE_ENABLED\<rparr>) registry_globals))"

theorem clocks_agree_witness:
  "\<exists>t' ts r1. clock_gettime (\<lambda>_ _. (0, None)) CLOCK_REALTIME True clock_registry timing_globals =
      Inr (r1, t', 0, Some ts) \<and>
    ns_of ts = ns_of (startup_realtime timing_globals) + ns_of (curr_monotonic t')"
proof -
  have "check_intercept clock_registry SYS_clock_gettime"
    "check_intercept clock_registry SYS_gettimeofday" "check_intercept clock_registry SYS_time"
    by (simp_all add: clock_registry_def check_intercept_bit SYS_clock_gettime_def
        SYS_gettimeofday_def SYS_time_def)
  from clocks_agree [OF timing_ok_globals _ this, of "\<lambda>_ _. (0, None)"
      "\<lambda>_ _. (0, None)" False "\<lambda>_. 0"]
  show ?thesis by (auto simp: timing_globals_def)
qed

text \<open>An intercepted \<^verbatim>\<open>clock_gettime\<close> aborts the program exactly for the clocks it does not know
  (the CPU time clocks among them), whatever the state of the virtual clock, and otherwise writes the result without
  a look at the pointer.\<close>

theorem clock_gettime_aborts:
  assumes "timing_ok t" and "check_intercept r SYS_clock_gettime"
  shows "(clock_gettime f clockid tp r t = Inl Assert_Failed) = (clockid \<notin> {0, 1, 4, 5, 6, 7}) \<and>
    (isl (clock_gettime f clockid tp r t) = (clockid \<notin> {0, 1, 4, 5, 6, 7} \<or> \<not> tp))"
proof -
  obtain t' d where "increase_time True t = Inr (t', Some d)"
    using increase_time_want [OF assms(1)] .
  with assms(2) show ?thesis
    by (auto simp: clock_gettime_def clock_value_def clock_ids)
qed

theorem clock_gettime_aborts_witness:
  "clock_gettime (\<lambda>_ _. (0, None)) 2 True clock_registry timing_globals = Inl Assert_Failed"
proof -
  have "check_intercept clock_registry SYS_clock_gettime"
    by (simp add: clock_registry_def check_intercept_bit SYS_clock_gettime_def)
  from clock_gettime_aborts [OF timing_ok_globals this] show ?thesis by simp
qed

text \<open>\<^verbatim>\<open>clock_getres\<close> with a null result pointer, which POSIX allows, writes through it once the
  call is intercepted.\<close>

theorem clock_getres_null:
  assumes "check_intercept r SYS_clock_getres"
  shows "clock_getres f clockid False r t = Inl (Undefined Null_Deref)"
  using assms by (simp add: clock_getres_def)

theorem clock_getres_null_witness:
  "clock_getres (\<lambda>_ _. (0, None)) 1 False
     (upd_func 229 (\<lambda>e. e\<lparr>rf_state := STATE_ENABLED\<rparr>) registry_globals) timing_globals =
   Inl (Undefined Null_Deref)"
  by (rule clock_getres_null) (simp add: check_intercept_bit SYS_clock_getres_def)

text \<open>A call that only asks for the time zone, which the real \<^verbatim>\<open>gettimeofday\<close> answers, writes through the null
  pointer.\<close>

theorem gettimeofday_null:
  assumes "timing_ok t" and "check_intercept r SYS_gettimeofday"
  shows "gettimeofday g False tz r t = Inl (Undefined Null_Deref)"
  by (rule increase_time_want [OF assms(1)]) (simp add: gettimeofday_def assms(2))

theorem gettimeofday_null_witness:
  "gettimeofday (\<lambda>_ _. (0, None)) False True clock_registry timing_globals = Inl (Undefined Null_Deref)"
proof -
  have "check_intercept clock_registry SYS_gettimeofday"
    by (simp add: clock_registry_def check_intercept_bit SYS_gettimeofday_def)
  from gettimeofday_null [OF timing_ok_globals this] show ?thesis .
qed

end
