(* ===== verification/Byte_Order.thy ===== *)
theory Byte_Order
  imports Prelude
begin

unbundle bit_operations_syntax

text \<open>
  Byte order. The program runs on little-endian Linux/x86-64 (\<^verbatim>\<open>common.c\<close> names the loader
  \<^verbatim>\<open>/lib64/ld-linux-x86-64.so.2\<close>), so \<^verbatim>\<open>htons\<close>, \<^verbatim>\<open>ntohs\<close>, \<^verbatim>\<open>htonl\<close> and \<^verbatim>\<open>ntohl\<close> swap bytes and an
  integer's lowest byte comes first in memory. A \<^verbatim>\<open>uint32_t\<close> field of a packed header is read
  and written through \<open>mem_of_u32\<close> and \<open>u32_of_mem\<close>.
\<close>

definition bswap16 :: "u16 \<Rightarrow> u16" where
  "bswap16 w = push_bit 8 w OR drop_bit 8 w"

definition bswap32 :: "u32 \<Rightarrow> u32" where
  "bswap32 w = push_bit 24 w OR push_bit 16 (take_bit 8 (drop_bit 8 w))
     OR push_bit 8 (take_bit 8 (drop_bit 16 w)) OR drop_bit 24 w"

abbreviation htons :: "u16 \<Rightarrow> u16" where "htons \<equiv> bswap16"
abbreviation ntohs :: "u16 \<Rightarrow> u16" where "ntohs \<equiv> bswap16"
abbreviation htonl :: "u32 \<Rightarrow> u32" where "htonl \<equiv> bswap32"
abbreviation ntohl :: "u32 \<Rightarrow> u32" where "ntohl \<equiv> bswap32"

definition mem_of_u32 :: "u32 \<Rightarrow> u8 list" where
  "mem_of_u32 w = [ucast w, ucast (drop_bit 8 w), ucast (drop_bit 16 w), ucast (drop_bit 24 w)]"

fun u32_of_mem :: "u8 list \<Rightarrow> u32" where
  "u32_of_mem (a # b # c # d # _) =
     ucast a OR push_bit 8 (ucast b) OR push_bit 16 (ucast c) OR push_bit 24 (ucast d)"
| "u32_of_mem _ = 0"

lemma bswap16_bit:
  "bit (bswap16 w) n \<longleftrightarrow> n < 16 \<and> (if n < 8 then bit w (n + 8) else bit w (n - 8))"
  by (auto simp: bswap16_def bit_simps add.commute dest: bit_imp_le_length)

lemma bswap16_bswap16 [simp]: "bswap16 (bswap16 w) = w"
  by (rule bit_word_eqI) (auto simp: bswap16_bit dest: bit_imp_le_length)

lemma bswap16_eq_iff [simp]: "bswap16 a = bswap16 b \<longleftrightarrow> a = b"
  by (metis bswap16_bswap16)

lemma bswap16_0 [simp]: "bswap16 0 = 0"
  by (simp add: bswap16_def)

lemma bswap16_eq_0_iff [simp]: "bswap16 a = 0 \<longleftrightarrow> a = 0"
  by (metis bswap16_bswap16 bswap16_0)

lemma bswap32_bit:
  "bit (bswap32 w) n \<longleftrightarrow> n < 32 \<and>
     (if n < 8 then bit w (n + 24) else if n < 16 then bit w (n + 8)
      else if n < 24 then bit w (n - 8) else bit w (n - 24))"
  by (auto simp: bswap32_def bit_simps add.commute dest: bit_imp_le_length)

lemma bswap32_bswap32 [simp]: "bswap32 (bswap32 w) = w"
  by (rule bit_word_eqI) (auto simp: bswap32_bit)

lemma bswap32_eq_iff [simp]: "bswap32 a = bswap32 b \<longleftrightarrow> a = b"
  by (metis bswap32_bswap32)

lemma length_mem_of_u32 [simp]: "length (mem_of_u32 w) = 4"
  by (simp add: mem_of_u32_def)

lemma u32_of_mem_append [simp]: "u32_of_mem (mem_of_u32 w @ xs) = w"
proof (rule bit_word_eqI)
  fix n
  assume "n < LENGTH(32)"
  then have "n < 32" by simp
  then consider "n < 8" | "8 \<le> n" "n < 16" | "16 \<le> n" "n < 24" | "24 \<le> n" "n < 32"
    by linarith
  then show "bit (u32_of_mem (mem_of_u32 w @ xs)) n = bit w n"
    by cases (auto simp: mem_of_u32_def bit_simps dest: bit_imp_le_length)
qed

lemma u32_of_mem_mem [simp]: "u32_of_mem (mem_of_u32 w) = w"
  using u32_of_mem_append [of w "[]"] by simp

lemma mem_of_u32_inj [simp]: "mem_of_u32 a = mem_of_u32 b \<longleftrightarrow> a = b"
  by (metis u32_of_mem_mem)

lemma mem_of_u32_mem:
  "mem_of_u32 (u32_of_mem [a, b, c, d]) = [a, b, c, d]"
  by (auto simp: mem_of_u32_def intro!: bit_word_eqI)
    (auto simp: bit_simps dest: bit_imp_le_length)

text \<open>Network order on the wire: the most significant byte of the host value goes first.\<close>

lemma mem_of_htonl:
  "mem_of_u32 (htonl w) =
     [ucast (drop_bit 24 w), ucast (drop_bit 16 w), ucast (drop_bit 8 w), ucast w]"
  by (auto simp: mem_of_u32_def intro!: bit_word_eqI)
    (auto simp: bit_simps bswap32_bit add.commute)

lemma mem_of_u32_ex: "length xs = 4 \<Longrightarrow> \<exists>w. xs = mem_of_u32 w"
  by (auto simp: length_Suc_conv numeral_eq_Suc) (metis mem_of_u32_mem)

end
