(* ===== verification/C_Lib.thy ===== *)
theory C_Lib
  imports Byte_Order "HOL-Library.Char_ord"
begin

text \<open>
  What the source uses of the C and C++ standard library: C strings, \<^verbatim>\<open>std::stoi\<close> with its two
  exceptions, \<^verbatim>\<open>std::to_string\<close>, \<^verbatim>\<open>inet_aton\<close> (one to four parts, each decimal, octal or
  hexadecimal, white space allowed behind them) and \<^verbatim>\<open>inet_ntoa\<close>. The round trip
  \<open>inet_aton_ntoa\<close> is what every address printed in a log or typed by an operator relies on.
\<close>

section \<open>Characters and C strings\<close>

definition char_code :: "char \<Rightarrow> int" where
  "char_code c = of_char c"

definition is_digit :: "char \<Rightarrow> bool" where
  "is_digit c \<longleftrightarrow> 48 \<le> char_code c \<and> char_code c \<le> 57"

definition is_space :: "char \<Rightarrow> bool" where
  "is_space c \<longleftrightarrow> char_code c = 32 \<or> (9 \<le> char_code c \<and> char_code c \<le> 13)"

definition c_str :: "string \<Rightarrow> string" where
  "c_str s = takeWhile (\<lambda>c. c \<noteq> CHR 0x00) s"

definition digit_char :: "int \<Rightarrow> char" where
  "digit_char n = char_of (48 + n)"

lemma char_code_digit [simp]: "0 \<le> n \<Longrightarrow> n < 10 \<Longrightarrow> char_code (digit_char n) = 48 + n"
  by (simp add: char_code_def digit_char_def)

lemma is_digit_digit [simp]: "0 \<le> n \<Longrightarrow> n < 10 \<Longrightarrow> is_digit (digit_char n)"
  by (simp add: is_digit_def)

section \<open>Numbers\<close>

text \<open>The value of one digit; letters count from ten, as in hexadecimal.\<close>

definition digit_value :: "char \<Rightarrow> int" where
  "digit_value c =
     (let n = char_code c in
      if 48 \<le> n \<and> n \<le> 57 then n - 48
      else if 97 \<le> n \<and> n \<le> 122 then n - 87
      else if 65 \<le> n \<and> n \<le> 90 then n - 55
      else 36)"

definition digit_in :: "int \<Rightarrow> char \<Rightarrow> bool" where
  "digit_in b c \<longleftrightarrow> digit_value c < b"

definition value_in :: "int \<Rightarrow> string \<Rightarrow> int" where
  "value_in b s = foldl (\<lambda>n c. b * n + digit_value c) 0 s"

text \<open>The longest prefix of digits in base \<open>b\<close>, its value, and what is left.\<close>

definition scan_in :: "int \<Rightarrow> string \<Rightarrow> int \<times> string" where
  "scan_in b s = (value_in b (takeWhile (digit_in b) s), dropWhile (digit_in b) s)"

text \<open>\<^verbatim>\<open>std::to_string\<close> of a value that is not negative.\<close>

fun to_string :: "int \<Rightarrow> string" where
  "to_string n = (if n < 10 then [digit_char n] else to_string (n div 10) @ [digit_char (n mod 10)])"

declare to_string.simps [simp del]

definition int_max :: int where "int_max = 2147483647"
definition int_min :: int where "int_min = -2147483648"

text \<open>\<^verbatim>\<open>std::stoi(s)\<close>: white space, a sign, decimal digits; what follows is ignored.\<close>

definition stoi :: "string \<Rightarrow> int result" where
  "stoi s =
     (let t = dropWhile is_space s;
          neg = (t \<noteq> [] \<and> hd t = CHR ''-'');
          u = (if t \<noteq> [] \<and> (hd t = CHR ''-'' \<or> hd t = CHR ''+'') then tl t else t);
          ds = takeWhile (digit_in 10) u;
          v = (if neg then - value_in 10 ds else value_in 10 ds)
      in if ds = [] then Inl (Uncaught Invalid_Argument)
         else if v < int_min \<or> int_max < v then Inl (Uncaught Out_Of_Range)
         else Inr v)"

section \<open>Internet addresses\<close>

text \<open>\<^verbatim>\<open>strtoul(cp, &end, 0)\<close> on a string that starts with a digit.\<close>

definition strtoul0 :: "string \<Rightarrow> int \<times> string" where
  "strtoul0 s =
     (case s of
        z # x # h # r \<Rightarrow>
          if z = CHR ''0'' \<and> (x = CHR ''x'' \<or> x = CHR ''X'') \<and> digit_in 16 h
          then scan_in 16 (h # r)
          else scan_in (if z = CHR ''0'' then 8 else 10) s
      | z # r \<Rightarrow> scan_in (if z = CHR ''0'' then 8 else 10) s
      | [] \<Rightarrow> (0, []))"

fun inet_parts :: "nat \<Rightarrow> int list \<Rightarrow> string \<Rightarrow> (int list \<times> int \<times> string) option" where
  "inet_parts k acc s =
     (if s = [] \<or> \<not> is_digit (hd s) then None
      else let (v, r) = strtoul0 s in
        if 0xFFFFFFFF < v then None
        else if r \<noteq> [] \<and> hd r = CHR ''.'' then
          (case k of
             0 \<Rightarrow> None
           | Suc k' \<Rightarrow> if 255 < v then None else inet_parts k' (acc @ [v]) (tl r))
        else Some (acc, v, r))"

declare inet_parts.simps [simp del]

definition part_max :: "nat \<Rightarrow> int" where
  "part_max n = (if n = 0 then 0xFFFFFFFF else if n = 1 then 0xFFFFFF else if n = 2 then 0xFFFF else 0xFF)"

definition parts_value :: "int list \<Rightarrow> int \<Rightarrow> int" where
  "parts_value acc v =
     (case acc of
        [] \<Rightarrow> v
      | [a] \<Rightarrow> a * 0x1000000 + v
      | [a, b] \<Rightarrow> a * 0x1000000 + b * 0x10000 + v
      | a # b # c # _ \<Rightarrow> a * 0x1000000 + b * 0x10000 + c * 0x100 + v)"

text \<open>\<^verbatim>\<open>inet_aton\<close>: \<open>None\<close> where it returns 0 and leaves the address alone; the address is in
  network order.\<close>

definition inet_aton :: "string \<Rightarrow> u32 option" where
  "inet_aton s =
     (case inet_parts 3 [] (c_str s) of
        None \<Rightarrow> None
      | Some (acc, v, r) \<Rightarrow>
          if r \<noteq> [] \<and> \<not> is_space (hd r) then None
          else if part_max (length acc) < v then None
          else Some (htonl (of_int (parts_value acc v))))"

definition inet_ntoa :: "u32 \<Rightarrow> string" where
  "inet_ntoa a =
     (case map uint (mem_of_u32 a) of
        [p, q, r, s] \<Rightarrow> to_string p @ ''.'' @ to_string q @ ''.'' @ to_string r @ ''.'' @ to_string s
      | _ \<Rightarrow> [])"

section \<open>Numbers: printing and reading back\<close>

lemma digit_char_0: "digit_char 0 = CHR ''0''"
  by code_simp

lemma digit_value_digit [simp]: "0 \<le> n \<Longrightarrow> n < 10 \<Longrightarrow> digit_value (digit_char n) = n"
  by (simp add: digit_value_def)

lemma digit_in_10_digit [simp]: "0 \<le> n \<Longrightarrow> n < 10 \<Longrightarrow> digit_in 10 (digit_char n)"
  by (simp add: digit_in_def)

lemma digit_in_10_iff: "digit_in 10 c \<longleftrightarrow> is_digit c"
  by (auto simp: digit_in_def digit_value_def is_digit_def Let_def)

lemma is_digit_not_space: "is_digit c \<Longrightarrow> \<not> is_space c"
  by (auto simp: is_digit_def is_space_def)

lemma value_in_snoc: "value_in b (s @ [c]) = b * value_in b s + digit_value c"
  by (simp add: value_in_def)

lemma to_string_not_Nil [simp]: "to_string n \<noteq> []"
  by (subst to_string.simps) simp

lemma length_to_string: "n < 10 ^ Suc d \<Longrightarrow> length (to_string n) \<le> Suc d"
proof (induction d arbitrary: n)
  case 0
  then show ?case by (simp add: to_string.simps [of n])
next
  case (Suc d)
  show ?case
  proof (cases "n < 10")
    case False
    have "n div 10 < 10 ^ Suc d" using Suc.prems by simp
    from Suc.IH [OF this] False show ?thesis by (simp add: to_string.simps [of n])
  qed (simp add: to_string.simps [of n])
qed

lemma to_string_digits: "0 \<le> n \<Longrightarrow> c \<in> set (to_string n) \<Longrightarrow> is_digit c"
proof (induction n rule: to_string.induct)
  case (1 n)
  show ?case
  proof (cases "n < 10")
    case True
    with 1 show ?thesis by (auto simp: to_string.simps [of n])
  next
    case False
    then have "to_string n = to_string (n div 10) @ [digit_char (n mod 10)]"
      by (simp add: to_string.simps [of n])
    with 1 False show ?thesis by (auto simp: pos_mod_bound)
  qed
qed

lemma value_in_to_string: "0 \<le> n \<Longrightarrow> value_in 10 (to_string n) = n"
proof (induction n rule: to_string.induct)
  case (1 n)
  show ?case
  proof (cases "n < 10")
    case True
    with 1 show ?thesis by (simp add: to_string.simps [of n] value_in_def)
  next
    case False
    then have "to_string n = to_string (n div 10) @ [digit_char (n mod 10)]"
      by (simp add: to_string.simps [of n])
    with 1 False show ?thesis by (simp add: value_in_snoc)
  qed
qed

lemma hd_to_string_zero: "0 < n \<Longrightarrow> hd (to_string n) \<noteq> CHR ''0''"
proof (induction n rule: to_string.induct)
  case (1 n)
  show ?case
  proof (cases "n < 10")
    case True
    with "1.prems" have "digit_value (hd (to_string n)) = n"
      by (simp add: to_string.simps [of n])
    moreover have "digit_value CHR ''0'' = 0" by (simp add: digit_value_def char_code_def)
    ultimately show ?thesis using "1.prems" by auto
  next
    case False
    with 1 show ?thesis by (simp add: to_string.simps [of n])
  qed
qed

lemma takeWhile_to_string:
  assumes "0 \<le> n" and "r = [] \<or> \<not> digit_in 10 (hd r)"
  shows "takeWhile (digit_in 10) (to_string n @ r) = to_string n"
    and "dropWhile (digit_in 10) (to_string n @ r) = r"
  using assms by (cases r; auto simp: takeWhile_append dropWhile_append to_string_digits
    digit_in_10_iff)+

lemma scan_in_to_string:
  "0 \<le> n \<Longrightarrow> r = [] \<or> \<not> digit_in 10 (hd r) \<Longrightarrow> scan_in 10 (to_string n @ r) = (n, r)"
  by (simp add: scan_in_def takeWhile_to_string value_in_to_string)

lemma to_string_head:
  assumes "0 \<le> n"
  obtains c t where "to_string n = c # t" "is_digit c"
  using assms to_string_digits [of n] by (cases "to_string n") auto

lemma stoi_to_string_all:
  assumes "0 \<le> n"
  shows "stoi (to_string n) = (if n \<le> int_max then Inr n else Inl (Uncaught Out_Of_Range))"
proof -
  obtain c t where ct: "to_string n = c # t" "is_digit c"
    using assms to_string_head by blast
  then have "dropWhile is_space (to_string n) = to_string n"
    by (simp add: is_digit_not_space)
  moreover have "c \<noteq> CHR ''-''" "c \<noteq> CHR ''+''"
    using ct by (auto simp: is_digit_def char_code_def)
  ultimately show ?thesis
    using assms ct takeWhile_to_string [of n "[]"] value_in_to_string [of n]
    by (simp add: stoi_def Let_def int_min_def)
qed

lemma stoi_to_string: "0 \<le> n \<Longrightarrow> n \<le> int_max \<Longrightarrow> stoi (to_string n) = Inr n"
  by (simp add: stoi_to_string_all)

lemma strtoul0_to_string:
  assumes "0 \<le> n" and "r = [] \<or> hd r = CHR ''.''"
  shows "strtoul0 (to_string n @ r) = (n, r)"
proof -
  have r10: "r = [] \<or> \<not> digit_in 10 (hd r)"
    using assms by (auto simp: digit_in_10_iff is_digit_def char_code_def)
  show ?thesis
  proof (cases "n = 0")
    case True
    then have z: "to_string n = ''0''" by (simp add: to_string.simps digit_char_0)
    have d: "\<not> digit_in 8 CHR ''.''" "digit_in 8 CHR ''0''" "digit_value CHR ''0'' = 0"
      by (simp_all add: digit_in_def digit_value_def char_code_def)
    have "strtoul0 (CHR ''0'' # r) = scan_in 8 (CHR ''0'' # r)"
      using assms by (auto simp: strtoul0_def split: list.splits)
    moreover have "scan_in 8 (CHR ''0'' # r) = (0, r)"
      using assms d by (cases r) (auto simp: scan_in_def value_in_def)
    ultimately show ?thesis using z True by simp
  next
    case False
    with assms have n0: "0 < n" by simp
    obtain c t where ct: "to_string n = c # t" using assms to_string_head by blast
    with hd_to_string_zero [OF n0] have "c \<noteq> CHR ''0''" by simp
    then have "strtoul0 (to_string n @ r) = scan_in 10 (to_string n @ r)"
      by (auto simp: strtoul0_def ct split: list.splits)
    then show ?thesis using scan_in_to_string [OF _ r10] assms by simp
  qed
qed

section \<open>Addresses: printing and reading back\<close>

lemma inet_parts_dot:
  assumes "0 \<le> v" "v \<le> 255"
  shows "inet_parts (Suc k) acc (to_string v @ CHR ''.'' # r) = inet_parts k (acc @ [v]) r"
proof -
  obtain c t where ct: "to_string v = c # t" "is_digit c" using assms to_string_head by blast
  have "strtoul0 (to_string v @ CHR ''.'' # r) = (v, CHR ''.'' # r)"
    using strtoul0_to_string [of v "CHR ''.'' # r"] assms by simp
  then show ?thesis
    using assms ct by (subst inet_parts.simps) simp
qed

lemma inet_parts_last:
  assumes "0 \<le> v" "v \<le> 255"
  shows "inet_parts k acc (to_string v) = Some (acc, v, [])"
proof -
  obtain c t where ct: "to_string v = c # t" "is_digit c" using assms to_string_head by blast
  have "strtoul0 (to_string v) = (v, [])"
    using strtoul0_to_string [of v "[]"] assms by simp
  then show ?thesis
    using assms ct by (subst inet_parts.simps) simp
qed

lemma c_str_id: "CHR 0x00 \<notin> set s \<Longrightarrow> c_str s = s"
  by (simp add: c_str_def)

lemma zero_not_in_to_string: "0 \<le> n \<Longrightarrow> CHR 0x00 \<notin> set (to_string n)"
  using to_string_digits [of n "CHR 0x00"] by (auto simp: is_digit_def char_code_def)

lemma uint_u8 [simp]: "0 \<le> uint (b :: u8)" "uint (b :: u8) \<le> 255"
  using uint_lt2p [of b] by auto

lemma byte_of_sum:
  fixes p q r s :: int
  assumes "0 \<le> p" "p < 256" "0 \<le> q" "q < 256" "0 \<le> r" "r < 256" "0 \<le> s" "s < 256"
  shows "(p * 16777216 + q * 65536 + r * 256 + s) div 16777216 mod 256 = p"
    and "(p * 16777216 + q * 65536 + r * 256 + s) div 65536 mod 256 = q"
    and "(p * 16777216 + q * 65536 + r * 256 + s) div 256 mod 256 = r"
    and "(p * 16777216 + q * 65536 + r * 256 + s) mod 256 = s"
proof -
  let ?n = "p * 16777216 + q * 65536 + r * 256 + s"
  have "?n div 16777216 = p"
    by (rule int_div_pos_eq [where r = "q * 65536 + r * 256 + s"]) (use assms in auto)
  moreover have "?n div 65536 = p * 256 + q"
    by (rule int_div_pos_eq [where r = "r * 256 + s"]) (use assms in auto)
  moreover have "?n div 256 = (p * 256 + q) * 256 + r"
    by (rule int_div_pos_eq [where r = s]) (use assms in auto)
  moreover have "((p * 256 + q) * 256 + r) mod 256 = r"
    using assms by (metis mod_mult_self3 mod_pos_pos_trivial)
  moreover have "(p * 256 + q) mod 256 = q"
    using assms by (metis mod_mult_self3 mod_pos_pos_trivial)
  ultimately show "?n div 16777216 mod 256 = p" "?n div 65536 mod 256 = q"
    "?n div 256 mod 256 = r"
    using assms by (simp_all only: mod_pos_pos_trivial)
  have "?n = s + 256 * ((p * 256 + q) * 256 + r)" by simp
  then show "?n mod 256 = s" using assms by (metis mod_mult_self2 mod_pos_pos_trivial)
qed

lemma parts_value_word:
  "htonl (of_int (uint p * 0x1000000 + uint q * 0x10000 + uint r * 0x100 + uint s))
     = u32_of_mem [p, q, r, s]" for p q r s :: u8
proof -
  define n where "n = uint p * 0x1000000 + uint q * 0x10000 + uint r * 0x100 + uint s"
  define w where "w = (of_int n :: u32)"
  have b: "uint p < 256" "uint q < 256" "uint r < 256" "uint s < 256"
    using uint_lt2p [of p] uint_lt2p [of q] uint_lt2p [of r] uint_lt2p [of s] by auto
  then have "0 \<le> n" "n < 2 ^ 32" by (auto simp: n_def)
  then have w: "uint w = n"
    by (simp add: w_def uint_word_of_int take_bit_eq_mod)
  have "ucast (drop_bit 24 w) = p" "ucast (drop_bit 16 w) = q"
    "ucast (drop_bit 8 w) = r" "ucast w = s"
    using b by (simp_all add: word_uint_eq_iff unsigned_drop_bit_eq unsigned_ucast_eq w n_def
        drop_bit_eq_div take_bit_eq_mod uint_div byte_of_sum)
  then have "mem_of_u32 (htonl w) = [p, q, r, s]"
    by (simp add: mem_of_htonl)
  then have "u32_of_mem (mem_of_u32 (htonl w)) = u32_of_mem [p, q, r, s]" by simp
  then show ?thesis by (simp only: u32_of_mem_mem w_def n_def)
qed

lemma inet_aton_ntoa: "inet_aton (inet_ntoa a) = Some a"
proof -
  obtain p q r s where m: "mem_of_u32 a = [p, q, r, s]"
    by (simp add: mem_of_u32_def)
  let ?t = "to_string (uint p) @ CHR ''.'' # to_string (uint q) @ CHR ''.'' #
     to_string (uint r) @ CHR ''.'' # to_string (uint s)"
  have t: "inet_ntoa a = ?t" by (simp add: inet_ntoa_def m)
  have z: "c_str ?t = ?t"
    by (rule c_str_id) (simp add: zero_not_in_to_string)
  have "inet_parts 3 [] ?t = Some ([uint p, uint q, uint r], uint s, [])"
    using inet_parts_dot inet_parts_last by (simp add: numeral_3_eq_3 inet_parts_dot inet_parts_last)
  moreover have "u32_of_mem [p, q, r, s] = a"
    using m u32_of_mem_mem [of a] by simp
  moreover have "\<not> 255 < uint s" using uint_u8 [of s] by linarith
  ultimately show ?thesis
    unfolding inet_aton_def t z
    using parts_value_word [of p q r s] by (simp add: part_max_def parts_value_def)
qed

lemma inet_ntoa_inj: "inet_ntoa a = inet_ntoa b \<longleftrightarrow> a = b"
  by (metis inet_aton_ntoa option.inject)

end
