(* ===== verification/Tokens.thy ===== *)
theory Tokens
  imports C_Lib
begin

text \<open>
  Reading lines and words. Three places of the source split a line the same way: the constructor
  \<^verbatim>\<open>cmd_t::cmd_t\<close> (\<^verbatim>\<open>tproxy/Command.cpp\<close>), \<^verbatim>\<open>get_tokens\<close> (\<^verbatim>\<open>mysyscall/config.cpp\<close>) and the loop of
  \<^verbatim>\<open>ConfigFile::load\<close> (\<^verbatim>\<open>tproxy/ConfigFile.cpp\<close>); two places put words together again:
  \<^verbatim>\<open>cmd_t::get_args_from\<close> and \<^verbatim>\<open>tokens_to_string\<close> (\<^verbatim>\<open>mysyscall/router.cpp\<close>). Splitting what was
  joined gives the same words back, which is why a command that the router forwards is read by
  the client as the operator typed it.
\<close>

section \<open>\<^verbatim>\<open>std::getline\<close>\<close>

text \<open>All the pieces that \<^verbatim>\<open>while (getline(ss, token, d))\<close> yields: a stream that ends right behind
  a delimiter yields no empty last piece.\<close>

function getline_all :: "char \<Rightarrow> string \<Rightarrow> string list" where
  "getline_all d s =
     (if s = [] then []
      else takeWhile (\<lambda>c. c \<noteq> d) s #
        (case dropWhile (\<lambda>c. c \<noteq> d) s of [] \<Rightarrow> [] | _ # r \<Rightarrow> getline_all d r))"
  by pat_completeness auto
termination
proof (relation "measure (\<lambda>(d, s). length s)")
  fix d :: char and s x r
  assume "dropWhile (\<lambda>c. c \<noteq> d) s = x # r"
  then have "length (x # r) \<le> length s" by (metis length_dropWhile_le)
  then show "((d, r), d, s) \<in> measure (\<lambda>(d, s). length s)" by simp
qed simp

declare getline_all.simps [simp del]

text \<open>\<^verbatim>\<open>getline(ss, a, d); getline(ss, b, d)\<close> with \<^verbatim>\<open>a\<close> and \<^verbatim>\<open>b\<close> empty before: a missing piece stays
  empty.\<close>

definition getline_nth :: "nat \<Rightarrow> char \<Rightarrow> string \<Rightarrow> string" where
  "getline_nth n d s = (let ps = getline_all d s in if n < length ps then ps ! n else [])"

section \<open>Words of a line\<close>

fun take_tokens :: "string list \<Rightarrow> string list" where
  "take_tokens [] = []"
| "take_tokens (t # ts) =
     (if t = [] then take_tokens ts
      else if hd t = CHR ''#'' then []
      else t # take_tokens ts)"

definition tokenize :: "string \<Rightarrow> string list" where
  "tokenize line = take_tokens (getline_all CHR '' '' line)"

text \<open>\<^verbatim>\<open>get_tokens(line, &tokens)\<close> appends to the vector it is given and reads \<^verbatim>\<open>line\<close> as a C
  string.\<close>

definition get_tokens :: "string \<Rightarrow> string list \<Rightarrow> bool \<times> string list" where
  "get_tokens line tokens = (let ts = tokens @ tokenize (c_str line) in (ts \<noteq> [], ts))"

section \<open>Joining words\<close>

definition join_from :: "nat \<Rightarrow> string list \<Rightarrow> string" where
  "join_from start tokens =
     foldl (\<lambda>s t. s @ '' '' @ t) (tokens ! start) (drop (Suc start) tokens)"

definition get_args_from :: "string list \<Rightarrow> nat \<Rightarrow> string result" where
  "get_args_from tokens start =
     (if start < length tokens then Inr (join_from start tokens) else Inl Assert_Failed)"

definition tokens_to_string :: "string list \<Rightarrow> string result" where
  "tokens_to_string tokens =
     (if tokens = [] then Inl (Undefined Out_Of_Bounds) else Inr (join_from 0 tokens))"

section \<open>Lemmas\<close>

definition token_ok :: "string \<Rightarrow> bool" where
  "token_ok t \<longleftrightarrow> t \<noteq> [] \<and> CHR '' '' \<notin> set t \<and> hd t \<noteq> CHR ''#''"

lemma getline_all_Nil [simp]: "getline_all d [] = []"
  by (simp add: getline_all.simps)

lemma getline_all_last [simp]: "d \<notin> set s \<Longrightarrow> s \<noteq> [] \<Longrightarrow> getline_all d s = [s]"
  by (subst getline_all.simps) simp

lemma getline_all_Cons [simp]:
  "d \<notin> set s \<Longrightarrow> getline_all d (s @ d # r) = s # getline_all d r"
  by (subst getline_all.simps) simp

lemma getline_all_cases:
  assumes "t \<in> set (getline_all d s)"
  obtains "t = takeWhile (\<lambda>c. c \<noteq> d) s"
  | x r where "dropWhile (\<lambda>c. c \<noteq> d) s = x # r" "t \<in> set (getline_all d r)"
  using assms getline_all.simps [of d s] by (auto split: if_splits list.splits)

lemma getline_all_no_delim: "t \<in> set (getline_all d s) \<Longrightarrow> d \<notin> set t"
proof (induction "length s" arbitrary: s rule: less_induct)
  case less
  from less.prems show ?case
  proof (cases rule: getline_all_cases)
    case 1
    then show ?thesis by (auto dest: set_takeWhileD)
  next
    case (2 x r)
    then have "length r < length s" by (metis Suc_le_lessD length_Cons length_dropWhile_le)
    with less.hyps 2 show ?thesis by blast
  qed
qed

lemma getline_all_chars: "t \<in> set (getline_all d s) \<Longrightarrow> set t \<subseteq> set s"
proof (induction "length s" arbitrary: s rule: less_induct)
  case less
  from less.prems show ?case
  proof (cases rule: getline_all_cases)
    case 1
    then show ?thesis by (auto dest: set_takeWhileD)
  next
    case (2 x r)
    then have "length r < length s" by (metis Suc_le_lessD length_Cons length_dropWhile_le)
    with less.hyps 2 have "set t \<subseteq> set r" by blast
    moreover have "set r \<subseteq> set s" using 2 by (metis list.set_intros(2) set_dropWhileD subsetI)
    ultimately show ?thesis by blast
  qed
qed

lemma getline_nth_0: "d \<notin> set s \<Longrightarrow> getline_nth 0 d (s @ d # r) = s"
  by (simp add: getline_nth_def)

lemma getline_nth_1:
  "d \<notin> set s \<Longrightarrow> d \<notin> set r \<Longrightarrow> getline_nth 1 d (s @ d # r) = r"
  by (cases "r = []") (simp_all add: getline_nth_def Let_def)

lemma getline_nth_0_whole: "d \<notin> set s \<Longrightarrow> getline_nth 0 d s = s"
  by (cases "s = []") (simp_all add: getline_nth_def)

lemma getline_nth_1_missing: "d \<notin> set s \<Longrightarrow> getline_nth 1 d s = []"
  by (cases "s = []") (simp_all add: getline_nth_def)

lemma take_tokens_subset: "t \<in> set (take_tokens ps) \<Longrightarrow> t \<in> set ps \<and> t \<noteq> [] \<and> hd t \<noteq> CHR ''#''"
  by (induction ps) (auto split: if_splits)

lemma tokenize_token_ok: "t \<in> set (tokenize s) \<Longrightarrow> token_ok t"
  by (auto simp: tokenize_def token_ok_def dest!: take_tokens_subset getline_all_no_delim)

lemma tokenize_chars: "t \<in> set (tokenize s) \<Longrightarrow> set t \<subseteq> set s"
  by (auto simp: tokenize_def dest!: take_tokens_subset getline_all_chars)

lemma tokenize_Nil [simp]: "tokenize [] = []"
  by (simp add: tokenize_def)

lemma take_tokens_ok: "list_all token_ok ts \<Longrightarrow> take_tokens ts = ts"
  by (induction ts) (auto simp: token_ok_def)

lemma foldl_join: "foldl (\<lambda>s t. s @ '' '' @ t) (a @ b) ts = a @ foldl (\<lambda>s t. s @ '' '' @ t) b ts"
  by (induction ts arbitrary: b) simp_all

lemma join_from_Cons:
  "join_from 0 (t # u # ts) = t @ CHR '' '' # join_from 0 (u # ts)"
  using foldl_join [of "t @ '' ''" u ts] by (simp add: join_from_def)

lemma join_from_single [simp]: "join_from 0 [t] = t"
  by (simp add: join_from_def)

lemma join_from_drop:
  "start < length ts \<Longrightarrow> join_from start ts = join_from 0 (drop start ts)"
  by (simp add: join_from_def)

lemma getline_all_join:
  "ts \<noteq> [] \<Longrightarrow> list_all token_ok ts \<Longrightarrow> getline_all CHR '' '' (join_from 0 ts) = ts"
proof (induction ts)
  case (Cons t ts)
  then show ?case
    by (cases ts) (simp_all add: token_ok_def join_from_Cons)
qed simp

lemma tokenize_join:
  "ts \<noteq> [] \<Longrightarrow> list_all token_ok ts \<Longrightarrow> tokenize (join_from 0 ts) = ts"
  by (simp add: tokenize_def getline_all_join take_tokens_ok)

lemma tokenize_all_ok: "list_all token_ok (tokenize s)"
  by (simp add: list_all_iff tokenize_token_ok)

lemma join_from_chars:
  "ts \<noteq> [] \<Longrightarrow> set (join_from 0 ts) \<subseteq> insert CHR '' '' (\<Union> (set ` set ts))"
proof (induction ts)
  case (Cons t ts)
  then show ?case by (cases ts) (auto simp: join_from_Cons)
qed simp

end
