(* ===== verification/Address.thy ===== *)
theory Address
  imports Tokens
begin

text \<open>
  \<^verbatim>\<open>struct sockaddr_in\<close> and what both programs do with it: the comparison functors of
  \<^verbatim>\<open>tproxy/ConfigFile.h\<close> (and \<^verbatim>\<open>cmp_addr\<close> of \<^verbatim>\<open>mysyscall/config.cpp\<close>, which is the same), the hash,
  the two \<^verbatim>\<open>convert_addr\<close> parsers and the printing macros of \<^verbatim>\<open>tproxy/common.h\<close>. Addresses and
  ports of an \<^verbatim>\<open>ADDR\<close> are kept in network order as the code keeps them; the prefix length of a
  \<^verbatim>\<open>CIDR\<close> sits in the port field in host order.

  The key order of the C++ maps is made an instance of \<^verbatim>\<open>linorder\<close>, so that the ordered maps of
  \<^verbatim>\<open>Ordered_Map\<close> apply to it; \<open>cmp_addr_less_key\<close> says that the functor is exactly this order.
\<close>

record sockaddr_in =
  sin_family :: u16
  sin_port :: u16
  s_addr :: u32

definition AF_INET :: u16 where "AF_INET = 2"
definition AF_INET6 :: u16 where "AF_INET6 = 10"

definition zero_addr :: sockaddr_in where
  "zero_addr = \<lparr>sin_family = 0, sin_port = 0, s_addr = 0\<rparr>"

text \<open>\<^verbatim>\<open>(in_port_t)-1\<close>, the mark of a failed lookup.\<close>

definition bad_port :: u16 where "bad_port = - 1"

section \<open>Comparison and hash\<close>

definition cmp_addr_less :: "sockaddr_in \<Rightarrow> sockaddr_in \<Rightarrow> bool" where
  "cmp_addr_less a b =
     (if s_addr a = s_addr b then sin_port a < sin_port b else s_addr a < s_addr b)"

definition cmp_addr_equal :: "sockaddr_in \<Rightarrow> sockaddr_in \<Rightarrow> bool" where
  "cmp_addr_equal a b \<longleftrightarrow> s_addr a = s_addr b \<and> sin_port a = sin_port b"

text \<open>\<^verbatim>\<open>cmp_addr\<close> of the library is the same order.\<close>

definition cmp_addr :: "sockaddr_in \<Rightarrow> sockaddr_in \<Rightarrow> bool" where
  "cmp_addr a b =
     (if s_addr a = s_addr b then sin_port a < sin_port b else s_addr a < s_addr b)"

definition hash_addr :: "sockaddr_in \<Rightarrow> u64" where
  "hash_addr a = ucast (s_addr a) + ucast (sin_port a)"

datatype addr_key = Addr_Key (key_ip: u32) (key_port: u16)

definition key_of :: "sockaddr_in \<Rightarrow> addr_key" where
  "key_of a = Addr_Key (s_addr a) (sin_port a)"

instantiation addr_key :: linorder
begin

definition less_addr_key :: "addr_key \<Rightarrow> addr_key \<Rightarrow> bool" where
  "less_addr_key a b \<longleftrightarrow>
     (if key_ip a = key_ip b then key_port a < key_port b else key_ip a < key_ip b)"

definition less_eq_addr_key :: "addr_key \<Rightarrow> addr_key \<Rightarrow> bool" where
  "less_eq_addr_key a b \<longleftrightarrow> a < b \<or> a = b"

instance
proof
  fix x y z :: addr_key
  show "x < y \<longleftrightarrow> x \<le> y \<and> \<not> y \<le> x"
    by (auto simp: less_addr_key_def less_eq_addr_key_def)
  show "x \<le> x" by (simp add: less_eq_addr_key_def)
  show "x \<le> y \<Longrightarrow> y \<le> z \<Longrightarrow> x \<le> z"
    by (auto simp: less_addr_key_def less_eq_addr_key_def split: if_splits)
  show "x \<le> y \<Longrightarrow> y \<le> x \<Longrightarrow> x = y"
    by (auto simp: less_addr_key_def less_eq_addr_key_def split: if_splits)
  show "x \<le> y \<or> y \<le> x"
    by (cases x; cases y) (auto simp: less_addr_key_def less_eq_addr_key_def)
qed

end

text \<open>The functors agree with the order and the equality of the keys.\<close>

lemma cmp_addr_less_key: "cmp_addr_less a b \<longleftrightarrow> key_of a < key_of b"
  by (simp add: cmp_addr_less_def key_of_def less_addr_key_def)

lemma cmp_addr_key: "cmp_addr a b \<longleftrightarrow> key_of a < key_of b"
  by (simp add: cmp_addr_def key_of_def less_addr_key_def)

lemma cmp_addr_equal_key: "cmp_addr_equal a b \<longleftrightarrow> key_of a = key_of b"
  by (simp add: cmp_addr_equal_def key_of_def)

lemma hash_addr_cong: "cmp_addr_equal a b \<Longrightarrow> hash_addr a = hash_addr b"
  by (simp add: cmp_addr_equal_def hash_addr_def)

section \<open>Masks\<close>

text \<open>\<^verbatim>\<open>unsigned(-1) << n\<close>; a count outside \<open>0..31\<close> is undefined.\<close>

definition shl_all_ones :: "int \<Rightarrow> u32 result" where
  "shl_all_ones n =
     (if 0 \<le> n \<and> n < 32 then Inr (push_bit (nat n) (- 1)) else Inl (Undefined Shift_Count))"

definition prefix_mask :: "u16 \<Rightarrow> u32 result" where
  "prefix_mask p = shl_all_ones (32 - uint p)"

definition net_mask :: "nat \<Rightarrow> u32" where
  "net_mask p = push_bit (32 - p) (- 1)"

lemma prefix_mask_eq:
  "prefix_mask p =
     (if 0 < unat p \<and> unat p \<le> 32 then Inr (net_mask (unat p)) else Inl (Undefined Shift_Count))"
proof -
  define n where "n = unat p"
  have u: "uint p = int n" by (simp add: n_def)
  have "nat (32 - int n) = 32 - n" by linarith
  then show ?thesis
    unfolding prefix_mask_def shl_all_ones_def net_mask_def u n_def [symmetric] by auto
qed

lemma bit_net_mask: "bit (net_mask p) n \<longleftrightarrow> 32 - p \<le> n \<and> n < 32"
  by (auto simp: net_mask_def bit_simps)

section \<open>\<^verbatim>\<open>convert_addr\<close>\<close>

definition aton_or_zero :: "string \<Rightarrow> u32" where
  "aton_or_zero s = (case inet_aton s of None \<Rightarrow> 0 | Some a \<Rightarrow> a)"

definition port_of_int :: "int \<Rightarrow> u16" where
  "port_of_int n = of_int n"

text \<open>\<^verbatim>\<open>ConfigFile::convert_addr\<close> of the router.\<close>

definition convert_addr :: "string \<Rightarrow> char \<Rightarrow> sockaddr_in result" where
  "convert_addr addr delim =
     (let ip = getline_nth 0 delim addr;
          port = getline_nth 1 delim addr;
          res = \<lparr>sin_family = AF_INET, sin_port = 0, s_addr = aton_or_zero ip\<rparr>
      in if delim = CHR '':''
         then and_then (stoi port) (\<lambda>n. Inr (res\<lparr>sin_port := htons (port_of_int n)\<rparr>))
         else if delim = CHR ''/''
         then and_then (stoi port) (\<lambda>n. Inr (res\<lparr>sin_port := port_of_int n\<rparr>))
         else Inr res)"

text \<open>\<^verbatim>\<open>convert_addr\<close> of the preloaded library: no family, and a CIDR's address is masked.\<close>

definition convert_addr_lib :: "string \<Rightarrow> char \<Rightarrow> sockaddr_in result" where
  "convert_addr_lib addr delim =
     (let ip = getline_nth 0 delim addr;
          port = getline_nth 1 delim addr;
          res = zero_addr\<lparr>s_addr := aton_or_zero ip\<rparr>
      in if delim = CHR '':''
         then and_then (stoi port) (\<lambda>n. Inr (res\<lparr>sin_port := htons (port_of_int n)\<rparr>))
         else and_then (stoi port) (\<lambda>n.
           and_then (prefix_mask (port_of_int n)) (\<lambda>mask.
             Inr (res\<lparr>sin_port := port_of_int n,
                      s_addr := htonl (ntohl (s_addr res) AND mask)\<rparr>))))"

section \<open>Printing\<close>

text \<open>\<^verbatim>\<open>addr_to_string\<close>: the port, in host order, only when it is not 0.\<close>

definition addr_to_string :: "sockaddr_in \<Rightarrow> string" where
  "addr_to_string a =
     inet_ntoa (s_addr a) @
       (if sin_port a \<noteq> 0 then '':'' @ to_string (uint (ntohs (sin_port a))) else [])"

definition cidr_to_string :: "sockaddr_in \<Rightarrow> string" where
  "cidr_to_string a =
     inet_ntoa (s_addr a) @
       (if sin_port a \<noteq> 0 then ''/'' @ to_string (uint (sin_port a)) else [])"

section \<open>Lemmas\<close>

lemmas getline_second [simp] = getline_nth_1 [unfolded One_nat_def]
lemmas getline_second_missing [simp] = getline_nth_1_missing [unfolded One_nat_def]

lemma convert_addr_plain: "convert_addr s CHR '' '' =
    Inr \<lparr>sin_family = AF_INET, sin_port = 0, s_addr = aton_or_zero (getline_nth 0 CHR '' '' s)\<rparr>"
  by (simp add: convert_addr_def Let_def)

text \<open>A token without the delimiter makes \<^verbatim>\<open>stoi("")\<close> throw.\<close>

lemma stoi_empty: "stoi [] = Inl (Uncaught Invalid_Argument)"
  by (simp add: stoi_def)

lemma convert_addr_no_port:
  "delim \<notin> set s \<Longrightarrow> delim = CHR '':'' \<or> delim = CHR ''/'' \<Longrightarrow>
     convert_addr s delim = Inl (Uncaught Invalid_Argument)"
  by (auto simp: convert_addr_def Let_def getline_nth_1_missing stoi_empty)

lemma inet_ntoa_chars: "c \<in> set (inet_ntoa a) \<Longrightarrow> is_digit c \<or> c = CHR ''.''"
proof -
  obtain p q r s where m: "mem_of_u32 a = [p, q, r, s]" by (simp add: mem_of_u32_def)
  show "c \<in> set (inet_ntoa a) \<Longrightarrow> is_digit c \<or> c = CHR ''.''"
    by (auto simp: inet_ntoa_def m intro: to_string_digits)
qed

lemma inet_ntoa_no_delim: "c = CHR '':'' \<or> c = CHR ''/'' \<Longrightarrow> c \<notin> set (inet_ntoa a)"
  using inet_ntoa_chars [of c a] by (auto simp: is_digit_def char_code_def)

lemma to_string_no_delim:
  "0 \<le> n \<Longrightarrow> c = CHR '':'' \<or> c = CHR ''/'' \<Longrightarrow> c \<notin> set (to_string n)"
  using to_string_digits [of n c] by (auto simp: is_digit_def char_code_def)

lemma uint_u16_bounds: "0 \<le> uint (p :: u16)" "uint p \<le> int_max"
  using uint_lt2p [of p] by (auto simp: int_max_def)

lemma port_of_int_uint [simp]: "port_of_int (uint p) = p"
  by (simp add: port_of_int_def)

text \<open>What the program prints it also reads.\<close>

lemma convert_addr_to_string:
  assumes "sin_port a \<noteq> 0"
  shows "convert_addr (addr_to_string a) CHR '':'' = Inr (a\<lparr>sin_family := AF_INET\<rparr>)"
proof -
  have d: "CHR '':'' \<notin> set (inet_ntoa (s_addr a))"
    "CHR '':'' \<notin> set (to_string (uint (ntohs (sin_port a))))"
    by (simp_all add: inet_ntoa_no_delim to_string_no_delim)
  show ?thesis
    using assms d
    by (simp add: convert_addr_def Let_def addr_to_string_def getline_nth_0 getline_nth_1
        stoi_to_string uint_u16_bounds aton_or_zero_def inet_aton_ntoa)
qed

lemma convert_cidr_to_string:
  assumes "sin_port a \<noteq> 0"
  shows "convert_addr (cidr_to_string a) CHR ''/'' = Inr (a\<lparr>sin_family := AF_INET\<rparr>)"
proof -
  have d: "CHR ''/'' \<notin> set (inet_ntoa (s_addr a))"
    "CHR ''/'' \<notin> set (to_string (uint (sin_port a)))"
    by (simp_all add: inet_ntoa_no_delim to_string_no_delim)
  show ?thesis
    using assms d
    by (simp add: convert_addr_def Let_def cidr_to_string_def getline_nth_0 getline_nth_1
        stoi_to_string uint_u16_bounds aton_or_zero_def inet_aton_ntoa)
qed

end
