(* ===== verification/Ordered_Map.thy ===== *)
theory Ordered_Map
  imports Prelude
begin

text \<open>
  \<^verbatim>\<open>std::map\<close> as an association list in ascending key order. The code iterates over its maps
  (\<^verbatim>\<open>cidr_map\<close> in \<^verbatim>\<open>ConfigFile.cpp\<close>, \<^verbatim>\<open>fd_to_channel_status\<close> in \<^verbatim>\<open>TcpNetwork.cpp\<close>), so the
  order of the entries is part of its behaviour and the map is a list, not a function. The
  interface the components rely on is the locale \<open>keyed_store\<close>; the interpretation at the end
  discharges it for the sorted list.
\<close>

type_synonym ('k, 'v) omap = "('k \<times> 'v) list"

definition om_ok :: "('k::linorder, 'v) omap \<Rightarrow> bool" where
  "om_ok m \<longleftrightarrow> sorted_wrt (<) (map fst m)"

definition om_find :: "('k, 'v) omap \<Rightarrow> 'k \<Rightarrow> 'v option" where
  "om_find m = map_of m"

fun om_put :: "('k::linorder, 'v) omap \<Rightarrow> 'k \<Rightarrow> 'v \<Rightarrow> ('k, 'v) omap" where
  "om_put [] k v = [(k, v)]"
| "om_put ((a, b) # m) k v =
     (if k < a then (k, v) # (a, b) # m
      else if k = a then (k, v) # m
      else (a, b) # om_put m k v)"

definition om_erase :: "('k, 'v) omap \<Rightarrow> 'k \<Rightarrow> ('k, 'v) omap" where
  "om_erase m k = filter (\<lambda>(a, b). a \<noteq> k) m"

definition om_keys :: "('k, 'v) omap \<Rightarrow> 'k list" where
  "om_keys m = map fst m"

text \<open>\<open>om_alter m k f\<close> rewrites the value at \<open>k\<close> in place, as \<^verbatim>\<open>it->second.x = \<dots>\<close> does.\<close>

definition om_alter :: "('k, 'v) omap \<Rightarrow> 'k \<Rightarrow> ('v \<Rightarrow> 'v) \<Rightarrow> ('k, 'v) omap" where
  "om_alter m k f = map (\<lambda>(a, b). (a, if a = k then f b else b)) m"

section \<open>The interface\<close>

locale keyed_store =
  fixes empty :: "'m"
    and find :: "'m \<Rightarrow> 'k \<Rightarrow> 'v option"
    and put :: "'m \<Rightarrow> 'k \<Rightarrow> 'v \<Rightarrow> 'm"
    and erase :: "'m \<Rightarrow> 'k \<Rightarrow> 'm"
    and ok :: "'m \<Rightarrow> bool"
  assumes ok_empty: "ok empty"
    and ok_put: "ok m \<Longrightarrow> ok (put m k v)"
    and ok_erase: "ok m \<Longrightarrow> ok (erase m k)"
    and find_empty: "find empty k = None"
    and find_put: "ok m \<Longrightarrow> find (put m k v) = (find m)(k \<mapsto> v)"
    and find_erase: "ok m \<Longrightarrow> find (erase m k) = (find m)(k := None)"
begin

lemma put_same: "ok m \<Longrightarrow> find (put m k v) k = Some v"
  by (simp add: find_put)

lemma put_other: "ok m \<Longrightarrow> k' \<noteq> k \<Longrightarrow> find (put m k v) k' = find m k'"
  by (simp add: find_put)

lemma erase_same: "ok m \<Longrightarrow> find (erase m k) k = None"
  by (simp add: find_erase)

lemma erase_other: "ok m \<Longrightarrow> k' \<noteq> k \<Longrightarrow> find (erase m k) k' = find m k'"
  by (simp add: find_erase)

lemma put_overwrites: "ok m \<Longrightarrow> find (put (put m k v) k w) = find (put m k w)"
  by (simp add: find_put ok_put)

lemma dom_put: "ok m \<Longrightarrow> dom (find (put m k v)) = insert k (dom (find m))"
  by (simp add: find_put)

lemma dom_erase: "ok m \<Longrightarrow> dom (find (erase m k)) = dom (find m) - {k}"
  by (simp add: find_erase)

text \<open>Two lookups into a store that one \<open>put\<close> made: what every \<open>which[origin] = masquerade\<close> needs.\<close>

lemma put_cases:
  assumes "ok m" and "find (put m k v) j = Some w"
  obtains "j = k" "w = v" | "j \<noteq> k" "find m j = Some w"
  using assms by (auto simp: find_put split: if_splits)

lemmas store_laws = ok_empty ok_put ok_erase find_empty find_put find_erase

end

section \<open>The sorted list provides it\<close>

lemma om_ok_Nil [simp]: "om_ok []"
  by (simp add: om_ok_def)

lemma om_ok_Cons [simp]: "om_ok ((a, b) # m) \<longleftrightarrow> (\<forall>k \<in> fst ` set m. a < k) \<and> om_ok m"
  by (auto simp: om_ok_def)

lemma fst_set_om_put: "fst ` set (om_put m k v) = insert k (fst ` set m)"
  by (induction m k v rule: om_put.induct) auto

lemma om_ok_put: "om_ok m \<Longrightarrow> om_ok (om_put m k v)"
  by (induction m k v rule: om_put.induct) (auto simp: fst_set_om_put)

lemma om_ok_erase: "om_ok m \<Longrightarrow> om_ok (om_erase m k)"
  by (induction m) (auto simp: om_erase_def)

lemma om_find_put: "om_ok m \<Longrightarrow> om_find (om_put m k v) = (om_find m)(k \<mapsto> v)"
  by (induction m k v rule: om_put.induct) (auto simp: om_find_def fun_eq_iff)

lemma om_find_erase: "om_find (om_erase m k) = (om_find m)(k := None)"
  by (induction m) (auto simp: om_find_def om_erase_def fun_eq_iff)

lemma om_find_Nil [simp]: "om_find [] k = None"
  by (simp add: om_find_def)

interpretation om: keyed_store "[]" om_find om_put om_erase om_ok
  by unfold_locales (simp_all add: om_ok_put om_ok_erase om_find_put om_find_erase)

lemma om_find_set: "om_ok m \<Longrightarrow> om_find m k = Some v \<longleftrightarrow> (k, v) \<in> set m"
proof (induction m)
  case Nil
  then show ?case by simp
next
  case (Cons p m)
  then show ?case by (cases p) (force simp: om_find_def)
qed

lemma om_find_in_set: "om_find m k = Some v \<Longrightarrow> (k, v) \<in> set m"
  by (auto simp: om_find_def dest: map_of_SomeD)

lemma om_find_None_iff: "om_find m k = None \<longleftrightarrow> k \<notin> fst ` set m"
  by (simp add: om_find_def map_of_eq_None_iff)

lemma om_alter_keys [simp]: "map fst (om_alter m k f) = map fst m"
  by (induction m) (auto simp: om_alter_def)

lemma om_ok_alter [simp]: "om_ok (om_alter m k f) = om_ok m"
  by (simp add: om_ok_def)

lemma om_find_alter:
  "om_find (om_alter m k f) j = (if j = k then map_option f (om_find m j) else om_find m j)"
  by (induction m) (auto simp: om_find_def om_alter_def)

end
