(* ===== verification/Concern.thy ===== *)
theory Concern
  imports Address Ordered_Map
begin

text \<open>
  Which peers and which descriptors the preloaded library cares about: the three containers of
  \<^verbatim>\<open>mysyscall/config.cpp\<close> and their operations. A \<^verbatim>\<open>struct sockaddr\<close> is kept as the bytes that the
  code looks at: family, port, the four bytes that are the address of an \<^verbatim>\<open>AF_INET\<close> and the flow
  label of an \<^verbatim>\<open>AF_INET6\<close> structure, and the four 32 bit words of the \<^verbatim>\<open>in6_addr\<close>.

  What the two containers of addresses mean is stated by \<open>represents\<close>: a set of exact addresses and a
  set of networks. \<open>check_addr_refines\<close> says when the code answers as that meaning does.
\<close>

section \<open>State\<close>

record sockaddr =
  sa_family :: u16
  sa_port :: u16
  sa_addr :: u32
  sa_word0 :: u32
  sa_word1 :: u32
  sa_word2 :: u32
  sa_word3 :: u32

definition view_in :: "sockaddr \<Rightarrow> sockaddr_in" where
  "view_in a = \<lparr>sin_family = sa_family a, sin_port = sa_port a, s_addr = sa_addr a\<rparr>"

record concern =
  fd_map :: "fd \<rightharpoonup> sockaddr_in"
  concern_addr_set :: "addr_key set"
  subnet_suffix :: "(u16, unit) omap"

definition concern_globals :: concern where
  "concern_globals = \<lparr>fd_map = Map.empty, concern_addr_set = {}, subnet_suffix = []\<rparr>"

section \<open>Addresses\<close>

text \<open>\<^verbatim>\<open>::ffff:a.b.c.d\<close>: words 0 and 1 are zero, the halves of word 2 are \<^verbatim>\<open>0\<close> and \<^verbatim>\<open>0xffff\<close> in memory
  order.\<close>

definition convert_mapped_ipv6_to_ipv4 :: "sockaddr \<Rightarrow> sockaddr_in" where
  "convert_mapped_ipv6_to_ipv4 a =
     (let ret = zero_addr\<lparr>sin_port := sa_port a\<rparr> in
      if sa_word0 a = 0 \<and> sa_word1 a = 0 \<and>
         (ucast (sa_word2 a) :: u16) = 0 \<and> (ucast (drop_bit 16 (sa_word2 a)) :: u16) = 0xffff
      then ret\<lparr>s_addr := sa_word3 a\<rparr> else ret)"

text \<open>The loop over \<^verbatim>\<open>subnet_suffix\<close>, in ascending order, with its early return.\<close>

fun suffix_scan :: "addr_key set \<Rightarrow> u16 list \<Rightarrow> u32 \<Rightarrow> bool result" where
  "suffix_scan S [] a = Inr False"
| "suffix_scan S (i # is) a =
     and_then (prefix_mask i) (\<lambda>mask.
       if Addr_Key (htonl (ntohl a AND mask)) i \<in> S then Inr True else suffix_scan S is a)"

definition check_addr_is_concerned :: "concern \<Rightarrow> sockaddr \<Rightarrow> bool result" where
  "check_addr_is_concerned c addr =
     (let to_search =
            (if sa_family addr = AF_INET
             then zero_addr\<lparr>s_addr := sa_addr addr, sin_port := sa_port addr\<rparr>
             else if sa_family addr = AF_INET6 then convert_mapped_ipv6_to_ipv4 addr
             else zero_addr);
          addr_s_addr =
            (if sa_family addr = AF_INET6 then s_addr (convert_mapped_ipv6_to_ipv4 addr)
             else sa_addr addr)
      in if key_of to_search \<in> concern_addr_set c then Inr True
         else suffix_scan (concern_addr_set c) (om_keys (subnet_suffix c)) addr_s_addr)"

text \<open>\<^verbatim>\<open>sizeof(struct sockaddr_in)\<close> is 16; a null pointer with such a length is dereferenced.\<close>

definition check_addr_is_concerned_with_len ::
  "concern \<Rightarrow> sockaddr option \<Rightarrow> nat \<Rightarrow> bool result" where
  "check_addr_is_concerned_with_len c addr addrlen =
     (if addrlen \<ge> 16
      then (case addr of None \<Rightarrow> Inl (Undefined Null_Deref) | Some a \<Rightarrow> check_addr_is_concerned c a)
      else Inr False)"

section \<open>Descriptors\<close>

definition add_concerned_fd :: "fd \<Rightarrow> sockaddr \<Rightarrow> concern \<Rightarrow> concern" where
  "add_concerned_fd fd addr c =
     (if sa_family addr = AF_INET then c\<lparr>fd_map := (fd_map c)(fd \<mapsto> view_in addr)\<rparr>
      else c\<lparr>fd_map := (fd_map c)(fd \<mapsto> convert_mapped_ipv6_to_ipv4 addr)\<rparr>)"

definition rm_concerned_fd :: "fd \<Rightarrow> concern \<Rightarrow> concern" where
  "rm_concerned_fd fd c = c\<lparr>fd_map := (fd_map c)(fd := None)\<rparr>"

definition check_fd_is_concerned_with_addr :: "concern \<Rightarrow> fd \<Rightarrow> sockaddr_in" where
  "check_fd_is_concerned_with_addr c fd =
     (case fd_map c fd of None \<Rightarrow> zero_addr | Some a \<Rightarrow> a)"

definition check_fd_is_concerned :: "concern \<Rightarrow> fd \<Rightarrow> bool" where
  "check_fd_is_concerned c fd \<longleftrightarrow> fd_map c fd \<noteq> None"

section \<open>Filling the containers\<close>

text \<open>What a \<^verbatim>\<open>map-addr\<close> or \<^verbatim>\<open>map-cidr\<close> line of the configuration does with its first address; the
  flag says that the line is accepted.\<close>

definition concern_map_line :: "concern \<Rightarrow> bool \<Rightarrow> string \<Rightarrow> (concern \<times> bool) result" where
  "concern_map_line c is_addr tok =
     and_then (convert_addr_lib tok (if is_addr then CHR '':'' else CHR ''/'')) (\<lambda>origin.
       if sin_port origin \<noteq> 0 then
         Inr (c\<lparr>subnet_suffix := (if is_addr then subnet_suffix c
                  else om_put (subnet_suffix c) (sin_port origin) ()),
                concern_addr_set := insert (key_of origin) (concern_addr_set c)\<rparr>, True)
       else Inr (c, False))"

section \<open>Meaning\<close>

definition in_network :: "addr_key \<Rightarrow> u32 \<Rightarrow> bool" where
  "in_network k a \<longleftrightarrow> ntohl a AND net_mask (unat (key_port k)) = ntohl (key_ip k)"

definition network_key :: "addr_key \<Rightarrow> bool" where
  "network_key k \<longleftrightarrow> 0 < unat (key_port k) \<and> unat (key_port k) \<le> 32 \<and>
     ntohl (key_ip k) AND net_mask (unat (key_port k)) = ntohl (key_ip k)"

text \<open>The containers hold these exact addresses and these networks.\<close>

definition represents :: "concern \<Rightarrow> addr_key set \<Rightarrow> addr_key set \<Rightarrow> bool" where
  "represents c addrs nets \<longleftrightarrow>
     concern_addr_set c = addrs \<union> nets \<and>
     om_ok (subnet_suffix c) \<and> set (om_keys (subnet_suffix c)) = key_port ` nets \<and>
     (\<forall>k \<in> nets. network_key k)"

text \<open>No exact address has, as raw 16 bit value, the prefix length of a network for its port.\<close>

definition no_alias :: "addr_key set \<Rightarrow> addr_key set \<Rightarrow> bool" where
  "no_alias addrs nets \<longleftrightarrow> key_port ` addrs \<inter> key_port ` nets = {}"

text \<open>The address and port that the code looks up.\<close>

definition looked_up :: "sockaddr \<Rightarrow> u32 \<times> u16" where
  "looked_up a =
     (if sa_family a = AF_INET6
      then (s_addr (convert_mapped_ipv6_to_ipv4 a), sa_port a) else (sa_addr a, sa_port a))"

section \<open>Lemmas\<close>

lemma represents_globals: "represents concern_globals {} {}"
  by (simp add: represents_def concern_globals_def om_keys_def)

lemma suffix_scan_ok:
  "\<forall>i \<in> set is. 0 < unat i \<and> unat i \<le> 32 \<Longrightarrow>
     suffix_scan S is a =
       Inr (\<exists>i \<in> set is. Addr_Key (htonl (ntohl a AND net_mask (unat i))) i \<in> S)"
  by (induction S "is" a rule: suffix_scan.induct) (auto simp: prefix_mask_eq)

lemma represents_suffix:
  "represents c addrs nets \<Longrightarrow> i \<in> set (om_keys (subnet_suffix c)) \<Longrightarrow> 0 < unat i \<and> unat i \<le> 32"
  by (auto simp: represents_def network_key_def)

lemma in_network_iff:
  "in_network k a \<longleftrightarrow> Addr_Key (htonl (ntohl a AND net_mask (unat (key_port k)))) (key_port k) = k"
proof -
  have "Addr_Key u v = k \<longleftrightarrow> u = key_ip k \<and> v = key_port k" for u v by (cases k) auto
  then show ?thesis by (auto simp: in_network_def) (metis bswap32_bswap32)
qed

lemma check_addr_eq:
  assumes "represents c addrs nets" and "sa_family a = AF_INET \<or> sa_family a = AF_INET6"
  shows "check_addr_is_concerned c a =
    Inr (Addr_Key (fst (looked_up a)) (snd (looked_up a)) \<in> addrs \<union> nets \<or>
      (\<exists>k \<in> addrs \<union> nets. key_port k \<in> key_port ` nets \<and> in_network k (fst (looked_up a))))"
proof -
  have f: "AF_INET \<noteq> AF_INET6" by (simp add: AF_INET_def AF_INET6_def)
  have s: "\<forall>i \<in> set (om_keys (subnet_suffix c)). 0 < unat i \<and> unat i \<le> 32"
    using represents_suffix [OF assms(1)] by blast
  have eq: "(\<exists>i \<in> key_port ` nets. Addr_Key (htonl (ntohl x AND net_mask (unat i))) i \<in> addrs \<union> nets)
      \<longleftrightarrow> (\<exists>k \<in> addrs \<union> nets. key_port k \<in> key_port ` nets \<and> in_network k x)" for x
  proof
    assume "\<exists>i \<in> key_port ` nets. Addr_Key (htonl (ntohl x AND net_mask (unat i))) i \<in> addrs \<union> nets"
    then obtain i where i: "i \<in> key_port ` nets"
      "Addr_Key (htonl (ntohl x AND net_mask (unat i))) i \<in> addrs \<union> nets" by blast
    let ?k = "Addr_Key (htonl (ntohl x AND net_mask (unat i))) i"
    have "in_network ?k x" by (simp add: in_network_def)
    then show "\<exists>k \<in> addrs \<union> nets. key_port k \<in> key_port ` nets \<and> in_network k x"
      using i by (intro bexI [of _ ?k]) simp_all
  next
    assume "\<exists>k \<in> addrs \<union> nets. key_port k \<in> key_port ` nets \<and> in_network k x"
    then show "\<exists>i \<in> key_port ` nets.
        Addr_Key (htonl (ntohl x AND net_mask (unat i))) i \<in> addrs \<union> nets"
      by (metis in_network_iff)
  qed
  show ?thesis
    using assms f eq
    by (auto simp: check_addr_is_concerned_def Let_def suffix_scan_ok [OF s] represents_def
        looked_up_def key_of_def zero_addr_def convert_mapped_ipv6_to_ipv4_def)
qed

lemma convert_addr_lib_net:
  assumes "convert_addr_lib t CHR ''/'' = Inr a"
  shows "network_key (key_of a)"
  using assms
  by (auto simp: convert_addr_lib_def Let_def result_simps prefix_mask_eq network_key_def key_of_def
      and.assoc split: if_splits)

lemma represents_put_net:
  "represents c addrs nets \<Longrightarrow> network_key k \<Longrightarrow>
     represents (c\<lparr>subnet_suffix := om_put (subnet_suffix c) (key_port k) (),
        concern_addr_set := insert k (concern_addr_set c)\<rparr>) addrs (insert k nets)"
  by (simp add: represents_def om_keys_def om_ok_put fst_set_om_put)

lemma represents_put_addr:
  "represents c addrs nets \<Longrightarrow>
     represents (c\<lparr>concern_addr_set := insert k (concern_addr_set c)\<rparr>) (insert k addrs) nets"
  by (simp add: represents_def)

lemma concern_map_line_cases:
  assumes "concern_map_line c b t = Inr (c', ok)"
  obtains "\<not> ok" "c' = c"
  | a where "ok" "convert_addr_lib t (if b then CHR '':'' else CHR ''/'') = Inr a" "b"
      "c' = c\<lparr>concern_addr_set := insert (key_of a) (concern_addr_set c)\<rparr>"
  | a where "ok" "convert_addr_lib t CHR ''/'' = Inr a" "\<not> b"
      "c' = c\<lparr>subnet_suffix := om_put (subnet_suffix c) (key_port (key_of a)) (),
        concern_addr_set := insert (key_of a) (concern_addr_set c)\<rparr>"
  using assms
  by (cases b) (auto simp: concern_map_line_def result_simps key_of_def split: if_splits)

lemma concern_map_line_represents:
  assumes "represents c addrs nets" and "concern_map_line c b t = Inr (c', ok)"
  shows "\<exists>k. represents c' (if ok \<and> b then insert k addrs else addrs)
    (if ok \<and> \<not> b then insert k nets else nets)"
  using assms(2)
proof (cases rule: concern_map_line_cases)
  case 1
  with assms(1) show ?thesis by simp
next
  case (2 a)
  with represents_put_addr [OF assms(1), of "key_of a"] show ?thesis by auto
next
  case (3 a)
  with represents_put_net [OF assms(1) convert_addr_lib_net [of t a]] show ?thesis by auto
qed

section \<open>Properties\<close>

text \<open>C21: In containers that represent exact addresses and networks, and where no exact address has a
  network's prefix length as raw port value, \<^verbatim>\<open>check_addr_is_concerned\<close> of an IPv4 or IPv6 address
  returns, without any undefined shift, and says yes exactly for the listed address and port pairs
  and for the addresses that lie in one of the networks.\<close>

theorem check_addr_refines:
  assumes "represents c addrs nets" and "no_alias addrs nets"
    and "sa_family a = AF_INET \<or> sa_family a = AF_INET6"
  shows "check_addr_is_concerned c a =
    Inr (Addr_Key (fst (looked_up a)) (snd (looked_up a)) \<in> addrs \<or>
      (\<exists>k \<in> nets. in_network k (fst (looked_up a))))"
proof -
  have net: "in_network k (key_ip k)" if "k \<in> nets" for k
    using that assms(1) by (auto simp: represents_def in_network_def network_key_def)
  then have "Addr_Key x p \<in> nets \<Longrightarrow> \<exists>k \<in> nets. in_network k x" for x p by force
  then show ?thesis
    using assms(2) unfolding check_addr_eq [OF assms(1,3)] no_alias_def by auto
qed

lemma example_networks:
  "network_key (Addr_Key 0x0000A8C0 24)" "in_network (Addr_Key 0x0000A8C0 24) 0x0700A8C0"
  "\<not> in_network (Addr_Key 0x0000A8C0 24) 0x6301010A" "in_network (Addr_Key 0x0001010A 24) 0x6301010A"
  by code_simp+

definition example_concern :: concern where
  "example_concern = concern_globals\<lparr>concern_addr_set := {Addr_Key 0x0001010A 0x5000, Addr_Key 0x0000A8C0 24},
     subnet_suffix := [(24, ())]\<rparr>"

lemma example_concern_represents:
  "represents example_concern {Addr_Key 0x0001010A 0x5000} {Addr_Key 0x0000A8C0 24}"
  by (auto simp: represents_def example_concern_def concern_globals_def om_keys_def example_networks)

definition example_sa :: "u32 \<Rightarrow> u16 \<Rightarrow> sockaddr" where
  "example_sa ip port = \<lparr>sa_family = AF_INET, sa_port = port, sa_addr = ip, sa_word0 = 0,
     sa_word1 = 0, sa_word2 = 0, sa_word3 = 0\<rparr>"

theorem check_addr_refines_witness:
  "check_addr_is_concerned example_concern (example_sa 0x0700A8C0 80) = Inr True"
  using check_addr_refines [OF example_concern_represents, of "example_sa 0x0700A8C0 80"]
  by (simp add: no_alias_def example_sa_def looked_up_def AF_INET_def AF_INET6_def example_networks)

text \<open>Exact addresses and networks share one set, told apart only by the value in the port field,
  so they can be confused: with an exact address \<^verbatim>\<open>10.1.1.0:6144\<close> (whose port is 24 as a raw 16 bit
  value) and a network \<^verbatim>\<open>192.168.0.0/24\<close>, every address of \<^verbatim>\<open>10.1.1.0/24\<close> counts as concerned,
  whatever its port, although no line of the configuration names that network.\<close>

theorem concern_alias:
  "\<exists>c. concern_map_line concern_globals True ''10.1.1.0:6144'' = Inr (c, True) \<and>
    (\<exists>c'. concern_map_line c False ''192.168.0.0/24'' = Inr (c', True) \<and>
      represents c' {Addr_Key 0x0001010A 24} {Addr_Key 0x0000A8C0 24} \<and>
      check_addr_is_concerned c' (example_sa 0x6301010A 80) = Inr True \<and>
      \<not> in_network (Addr_Key 0x0000A8C0 24) 0x6301010A)"
proof -
  let ?c = "concern_globals\<lparr>concern_addr_set := {Addr_Key 0x0001010A 24}\<rparr>"
  let ?c' = "concern_globals\<lparr>concern_addr_set := {Addr_Key 0x0000A8C0 24, Addr_Key 0x0001010A 24},
    subnet_suffix := [(24, ())]\<rparr>"
  have a: "convert_addr_lib ''10.1.1.0:6144'' CHR '':'' =
      Inr \<lparr>sin_family = 0, sin_port = 24, s_addr = 0x0001010A\<rparr>"
    and b: "convert_addr_lib ''192.168.0.0/24'' CHR ''/'' =
      Inr \<lparr>sin_family = 0, sin_port = 24, s_addr = 0x0000A8C0\<rparr>"
    by code_simp+
  have "concern_map_line concern_globals True ''10.1.1.0:6144'' = Inr (?c, True)"
    by (simp add: concern_map_line_def a key_of_def concern_globals_def)
  moreover have "concern_map_line ?c False ''192.168.0.0/24'' = Inr (?c', True)"
    by (simp add: concern_map_line_def b key_of_def concern_globals_def)
  moreover have r: "represents ?c' {Addr_Key 0x0001010A 24} {Addr_Key 0x0000A8C0 24}"
    by (auto simp: represents_def concern_globals_def om_keys_def example_networks)
  moreover have "check_addr_is_concerned ?c' (example_sa 0x6301010A 80) = Inr True"
    using check_addr_eq [OF r, of "example_sa 0x6301010A 80"]
    by (simp add: example_sa_def looked_up_def AF_INET_def AF_INET6_def example_networks)
  ultimately show ?thesis using example_networks(3) by blast
qed

end
