(* ===== verification/Wire.thy ===== *)
theory Wire
  imports Byte_Order Tokens
begin

text \<open>
  The frames on the wire. Both sides share one format: an eight byte header (\<^verbatim>\<open>MsgHeader\<close> of
  \<^verbatim>\<open>tproxy/TcpNetwork.h\<close>, \<^verbatim>\<open>hacked_sendto_header\<close> of \<^verbatim>\<open>mysyscall/mysendto.h\<close>) with a magic number and the
  length of the body, both in network order, and then the body. This theory holds the two
  structures, what the senders write (\<^verbatim>\<open>hack\<close> of \<^verbatim>\<open>mysendto.c\<close>, \<^verbatim>\<open>TcpNetwork::send_cmd\<close>) and
  \<^verbatim>\<open>packet_validation\<close>, the receiver's check.
\<close>

record msg_header =
  validation :: u32
  size :: u32

definition VALIDATION_DATA :: u32 where "VALIDATION_DATA = 0xdeadbeef"

definition header_size :: nat where "header_size = 8"

text \<open>The packed structure in memory, and back; a buffer that is too short leaves the missing
  fields as they are in \<open>old\<close>, as a short \<^verbatim>\<open>recv\<close> into the structure does.\<close>

definition header_mem :: "msg_header \<Rightarrow> u8 list" where
  "header_mem h = mem_of_u32 (validation h) @ mem_of_u32 (size h)"

definition mem_header :: "u8 list \<Rightarrow> msg_header" where
  "mem_header bs = \<lparr>validation = u32_of_mem (take 4 bs), size = u32_of_mem (take 4 (drop 4 bs))\<rparr>"

definition overwrite :: "u8 list \<Rightarrow> u8 list \<Rightarrow> u8 list" where
  "overwrite bs old = bs @ drop (length bs) old"

definition recv_header :: "u8 list \<Rightarrow> msg_header \<Rightarrow> msg_header" where
  "recv_header bs old = mem_header (overwrite bs (header_mem old))"

definition zero_header :: msg_header where
  "zero_header = \<lparr>validation = 0, size = 0\<rparr>"

section \<open>The senders\<close>

text \<open>\<^verbatim>\<open>hack\<close>: the header the library sends before a body of \<open>len\<close> bytes; \<^verbatim>\<open>htonl(len)\<close> keeps the low
  32 bits of the \<^verbatim>\<open>size_t\<close>.\<close>

definition hack_header :: "u64 \<Rightarrow> msg_header" where
  "hack_header len = \<lparr>validation = htonl VALIDATION_DATA, size = htonl (ucast len)\<rparr>"

definition hack_bytes :: "u64 \<Rightarrow> u8 list" where
  "hack_bytes len = header_mem (hack_header len)"

definition frame :: "u8 list \<Rightarrow> u8 list" where
  "frame body = hack_bytes (of_nat (length body)) @ body"

definition bytes_of_string :: "string \<Rightarrow> u8 list" where
  "bytes_of_string s = map of_char s"

definition string_of_bytes :: "u8 list \<Rightarrow> string" where
  "string_of_bytes bs = map (\<lambda>b. char_of (unat b)) bs"

text \<open>\<^verbatim>\<open>send_cmd\<close>: the header and the command in one string.\<close>

definition cmd_frame :: "string \<Rightarrow> u8 list" where
  "cmd_frame cmd = header_mem \<lparr>validation = htonl VALIDATION_DATA,
      size = htonl (of_nat (length cmd))\<rparr> @ bytes_of_string cmd"

section \<open>The receiver's check\<close>

text \<open>\<^verbatim>\<open>packet_validation(header, size)\<close>; it is called with a size between 1 and 8.\<close>

definition packet_validation :: "msg_header \<Rightarrow> nat \<Rightarrow> bool" where
  "packet_validation h n =
     (let m = (if n < 4 then drop_bit ((4 - n) * 8) (- 1) else - 1 :: u32)
      in ntohl (validation h) AND m = VALIDATION_DATA AND m)"

section \<open>Lemmas\<close>

lemma length_header_mem [simp]: "length (header_mem h) = 8"
  by (simp add: header_mem_def)

lemma mem_header_mem [simp]: "mem_header (header_mem h @ xs) = h"
  by (simp add: mem_header_def header_mem_def)

lemma mem_header_mem_only [simp]: "mem_header (header_mem h) = h"
  using mem_header_mem [of h "[]"] by simp

lemma header_mem_mem: "length bs = 8 \<Longrightarrow> header_mem (mem_header bs) = bs"
proof -
  assume len: "length bs = 8"
  then have "length (take 4 bs) = 4" "length (drop 4 bs) = 4" by simp_all
  then obtain v s where "take 4 bs = mem_of_u32 v" "drop 4 bs = mem_of_u32 s"
    using mem_of_u32_ex by blast
  then show ?thesis
    using append_take_drop_id [of 4 bs] by (simp add: header_mem_def mem_header_def)
qed

lemma recv_header_full [simp]: "length bs = 8 \<Longrightarrow> recv_header bs old = mem_header bs"
  by (simp add: recv_header_def overwrite_def)

lemma length_hack_bytes [simp]: "length (hack_bytes len) = 8"
  by (simp add: hack_bytes_def)

lemma length_frame [simp]: "length (frame body) = 8 + length body"
  by (simp add: frame_def)

lemma packet_validation_full:
  "4 \<le> n \<Longrightarrow> packet_validation h n \<longleftrightarrow> validation h = htonl VALIDATION_DATA"
  by (auto simp: packet_validation_def Let_def) (metis bswap32_bswap32)

lemma packet_validation_hack [simp]: "4 \<le> n \<Longrightarrow> packet_validation (hack_header len) n"
  by (simp add: packet_validation_full hack_header_def)

lemma size_hack_header [simp]: "ntohl (size (hack_header len)) = ucast len"
  by (simp add: hack_header_def)

lemma string_of_bytes_of_string [simp]: "string_of_bytes (bytes_of_string s) = s"
proof -
  have "char_of (unat (of_char c :: u8)) = c" for c
  proof -
    have "unat (of_nat (of_char c) :: u8) = (of_char c :: nat) mod 256"
      by (simp add: unat_of_nat take_bit_eq_mod)
    then show ?thesis by (simp add: of_nat_of_char)
  qed
  then show ?thesis by (simp add: string_of_bytes_def bytes_of_string_def comp_def map_idI)
qed

lemma length_bytes_of_string [simp]: "length (bytes_of_string s) = length s"
  by (simp add: bytes_of_string_def)

end
