(* ===== verification/Router_Client.thy ===== *)
theory Router_Client
  imports Address Wire Timing Ordered_Map
begin

text \<open>
  The library's connection to the router, \<^verbatim>\<open>mysyscall/router.cpp\<close>: \<^verbatim>\<open>connect_router\<close> and the loop of
  the thread it starts, \<^verbatim>\<open>do_router_cmd\<close>. The answers of the system calls are arguments: the
  outcome of a connection attempt is a \<open>conn_attempt\<close>, the bytes that ever arrive are a list, with a
  flag for how the stream ends. \<^verbatim>\<open>recvfrom\<close> is called with \<^verbatim>\<open>MSG_WAITALL\<close>, so it returns fewer bytes than
  asked only at the end of the stream.
\<close>

section \<open>The connection\<close>

definition ROUTER_FD :: fd where "ROUTER_FD = 1022"

text \<open>\<^verbatim>\<open>at_sock\<close> is the answer of \<^verbatim>\<open>socket\<close> (\<open>-1\<close> for a failure).\<close>

record conn_attempt =
  at_sock :: fd
  at_connect_ok :: bool
  at_dup2_ok :: bool

text \<open>The static variables, and the descriptors that the library itself holds open.\<close>

record router_conn =
  is_connected :: bool
  router_sockfd :: fd
  lib_fds :: "fd set"

definition router_conn_globals :: router_conn where
  "router_conn_globals = \<lparr>is_connected = False, router_sockfd = - 1, lib_fds = {}\<rparr>"

definition connect_router ::
  "conn_attempt \<Rightarrow> string \<Rightarrow> router_conn \<Rightarrow> (router_conn \<times> bool) result" where
  "connect_router at addr r =
     (if is_connected r then Inr (r, False)
      else and_then (convert_addr_lib addr CHR '':'') (\<lambda>router.
        if sin_port router = 0 then Inr (r, False)
        else
          let r1 = r\<lparr>router_sockfd := at_sock at\<rparr> in
          if at_sock at = - 1 then Inr (r1, False)
          else
            let r2 = r1\<lparr>lib_fds := insert (at_sock at) (lib_fds r1)\<rparr> in
            if \<not> at_connect_ok at then Inr (r2, False)
            else
              let r3 = (if at_dup2_ok at
                        then r2\<lparr>lib_fds := insert ROUTER_FD (lib_fds r2) - {at_sock at},
                                router_sockfd := ROUTER_FD\<rparr>
                        else r2)
              in Inr (r3\<lparr>is_connected := True\<rparr>, True)))"

section \<open>The commands\<close>

datatype client_note =
    Few_Args        \<comment> \<open>\<^verbatim>\<open>command requires %d args\<close>\<close>
  | No_Such_Command
  | Time_Warning    \<comment> \<open>the warning of \<^verbatim>\<open>set_time_increment\<close>\<close>

definition check_warn_args :: "nat \<Rightarrow> string list \<Rightarrow> bool \<times> client_note list" where
  "check_warn_args required tokens =
     (if length tokens < required then (False, [Few_Args]) else (True, []))"

text \<open>\<^verbatim>\<open>inc_time_ns\<close>: the argument goes through \<^verbatim>\<open>stoi\<close>, an \<^verbatim>\<open>int\<close>, although the variable is a \<^verbatim>\<open>long\<close>.\<close>

definition inc_time_ns :: "string list \<Rightarrow> timing \<Rightarrow> (timing \<times> client_note list) result" where
  "inc_time_ns tokens t =
     (case check_warn_args 2 tokens of
        (False, w) \<Rightarrow> Inr (t, w)
      | (True, w) \<Rightarrow> and_then (stoi (tokens ! 1)) (\<lambda>ns.
          let (t', warn) = set_time_increment ns t
          in Inr (t', w @ (if warn then [Time_Warning] else []))))"

text \<open>One received command, from the buffer as a C string: \<^verbatim>\<open>get_tokens\<close>, then the lookup in \<^verbatim>\<open>cmd_map\<close>.\<close>

definition client_cmd :: "string \<Rightarrow> timing \<Rightarrow> (timing \<times> client_note list) result" where
  "client_cmd line t =
     (case get_tokens line [] of
        (False, _) \<Rightarrow> Inr (t, [])
      | (True, tokens) \<Rightarrow> and_then (tokens_to_string tokens) (\<lambda>_.
          if tokens ! 0 = ''inc_time_ns'' then inc_time_ns tokens t
          else Inr (t, [No_Such_Command])))"

section \<open>The loop\<close>

text \<open>\<^verbatim>\<open>cmd_buffer\<close>; \<open>moved\<close> says that a \<^verbatim>\<open>resize\<close> past the capacity has given the string new memory,
  so that the pointer \<^verbatim>\<open>header\<close>, taken before the loop, no longer points into it. The first
  \<^verbatim>\<open>resize(1024)\<close> makes a capacity of 1024, so that every later growth past the size moves it.\<close>

record cmd_buf =
  cb_mem :: "u8 list"
  cb_moved :: bool

definition cmd_buffer_init :: cmd_buf where
  "cmd_buffer_init = \<lparr>cb_mem = replicate 1024 0, cb_moved = False\<rparr>"

definition cb_resize :: "nat \<Rightarrow> cmd_buf \<Rightarrow> cmd_buf" where
  "cb_resize n b =
     (if n > length (cb_mem b)
      then \<lparr>cb_mem = cb_mem b @ replicate (n - length (cb_mem b)) 0, cb_moved = True\<rparr>
      else b\<lparr>cb_mem := take n (cb_mem b)\<rparr>)"

text \<open>\<^verbatim>\<open>recvfrom(\<dots>, n, MSG_WAITALL, \<dots>)\<close> on what is still to arrive: the return value, the bytes written
  and the rest.\<close>

definition recv_waitall :: "bool \<Rightarrow> nat \<Rightarrow> u8 list \<Rightarrow> int \<times> u8 list \<times> u8 list" where
  "recv_waitall err n bs =
     (if n > 0 \<and> bs = [] then (if err then - 1 else 0, [], [])
      else (int (length (take n bs)), take n bs, drop n bs))"

text \<open>\<open>closed\<close> is the last message: \<^verbatim>\<open>Router socket is closed\<close> or \<^verbatim>\<open>recv failed\<close>. In both cases the socket
  is closed.\<close>

record client_end =
  ce_timing :: timing
  ce_notes :: "client_note list"
  ce_closed :: bool
  ce_unread :: "u8 list"

definition client_stop :: "int \<Rightarrow> timing \<Rightarrow> client_note list \<Rightarrow> u8 list \<Rightarrow> client_end" where
  "client_stop sz t ns rest =
     \<lparr>ce_timing = t, ce_notes = ns, ce_closed = (sz = 0), ce_unread = rest\<rparr>"

lemma recv_waitall_shorter:
  "recv_waitall err n bs = (sz, got, rest) \<Longrightarrow> length rest \<le> length bs \<and>
     (0 < sz \<longrightarrow> length rest < length bs)"
  by (auto simp: recv_waitall_def split: if_splits)

function do_router_cmd ::
  "bool \<Rightarrow> u8 list \<Rightarrow> cmd_buf \<Rightarrow> timing \<Rightarrow> client_note list \<Rightarrow> client_end result" where
  "do_router_cmd err bs b t ns =
     (let (sz, hd_bytes, bs1) = recv_waitall err header_size bs in
      if sz \<le> 0 then Inr (client_stop sz t ns bs1)
      else
        let b1 = b\<lparr>cb_mem := overwrite hd_bytes (cb_mem b)\<rparr> in
        if cb_moved b1 then Inl (Undefined Dangling)
        else
          let header = mem_header (cb_mem b1) in
          if ntohl (validation header) \<noteq> VALIDATION_DATA then Inl Assert_Failed
          else
            let len = unat (ntohl (size header));
                b2 = (if len \<ge> length (cb_mem b1) then cb_resize (len + 1) b1 else b1);
                (sz2, body, bs2) = recv_waitall err len bs1
            in if sz2 \<le> 0 then Inr (client_stop sz2 t ns bs2)
               else
                 let b3 = b2\<lparr>cb_mem := (overwrite body (cb_mem b2))[length body := 0]\<rparr>
                 in and_then (client_cmd (string_of_bytes (cb_mem b3)) t)
                      (\<lambda>(t', w). do_router_cmd err bs2 b3 t' (ns @ w)))"
  by pat_completeness auto
termination
  by (relation "measure (\<lambda>(err, bs, b, t, ns). length bs)")
    (auto dest!: recv_waitall_shorter [OF sym])

declare do_router_cmd.simps [simp del]

section \<open>Lemmas\<close>

definition client_step ::
  "timing \<times> client_note list \<Rightarrow> string \<Rightarrow> (timing \<times> client_note list) result" where
  "client_step tn c = and_then (client_cmd c (fst tn)) (\<lambda>(t', w). Inr (t', snd tn @ w))"

definition small_buf :: "cmd_buf \<Rightarrow> bool" where
  "small_buf b \<longleftrightarrow> length (cb_mem b) = 1024 \<and> \<not> cb_moved b"

lemma small_buf_init [simp]: "small_buf cmd_buffer_init"
  by (simp add: small_buf_def cmd_buffer_init_def)

text \<open>All a command can do to the clock.\<close>

lemma inc_time_ns_cases:
  assumes "inc_time_ns tokens t = Inr (t', w)"
  obtains "t' = t" | n where "t' = fst (set_time_increment n t)"
proof (cases "length tokens < 2")
  case True
  then show ?thesis using assms that(1) by (simp add: inc_time_ns_def check_warn_args_def)
next
  case False
  then show ?thesis using assms that(2)
    by (auto simp: inc_time_ns_def check_warn_args_def result_simps case_prod_beta Let_def)
qed

lemma client_cmd_cases:
  assumes "client_cmd c t = Inr (t', w)"
  obtains "t' = t" | n where "t' = fst (set_time_increment n t)"
proof (cases "get_tokens c []")
  case (Pair b ts)
  consider "\<not> b" | "b" "ts ! 0 \<noteq> ''inc_time_ns''" | "b" "ts ! 0 = ''inc_time_ns''" by blast
  then show ?thesis
  proof cases
    case 3
    then have "inc_time_ns ts t = Inr (t', w)"
      using assms Pair by (auto simp: client_cmd_def result_simps)
    then show ?thesis using that by (rule inc_time_ns_cases)
  qed (use assms Pair that(1) in \<open>auto simp: client_cmd_def result_simps\<close>)
qed

lemma client_cmd_timing_ok:
  "timing_ok t \<Longrightarrow> client_cmd c t = Inr (t', w) \<Longrightarrow> timing_ok t'"
  by (erule client_cmd_cases) (simp_all add: set_time_increment_ok)

interpretation client: safe_machine client_step "\<lambda>tn. timing_ok (fst tn)"
  by unfold_locales (auto simp: client_step_def result_simps dest: client_cmd_timing_ok)

lemma c_str_stops [simp]: "c_str (s @ CHR 0x00 # r) = c_str s"
proof (cases "CHR 0x00 \<in> set s")
  case True
  then show ?thesis by (simp add: c_str_def)
next
  case False
  then show ?thesis by (simp add: c_str_def)
qed

lemma client_cmd_terminated [simp]: "client_cmd (s @ CHR 0x00 # r) t = client_cmd s t"
  by (simp add: client_cmd_def get_tokens_def)

lemma recv_waitall_enough:
  "n = length xs \<Longrightarrow> 0 < n \<Longrightarrow> recv_waitall err n (xs @ ys) = (int n, xs, ys)"
  by (simp add: recv_waitall_def)

lemma recv_waitall_none: "recv_waitall err 0 bs = (0, [], bs)"
  by (simp add: recv_waitall_def)

lemma recv_waitall_end: "0 < n \<Longrightarrow> recv_waitall err n [] = (if err then - 1 else 0, [], [])"
  by (simp add: recv_waitall_def)

lemma terminated_body:
  assumes "length body < length mem"
  shows "(overwrite body mem)[length body := 0] = body @ 0 # drop (Suc (length body)) mem"
proof -
  from assms have "drop (length body) mem = mem ! length body # drop (Suc (length body)) mem"
    by (simp add: Cons_nth_drop_Suc)
  then show ?thesis by (simp add: overwrite_def list_update_append)
qed

lemma overwrite_header [simp]: "mem_header (overwrite (header_mem h) mem) = h"
  by (simp add: overwrite_def)

lemma unat_of_nat_small: "n < 2 ^ 32 \<Longrightarrow> unat (of_nat n :: u32) = n"
  by (simp add: unat_of_nat take_bit_nat_eq_self)

lemma do_router_frame:
  assumes "\<not> cb_moved b" and "length (cb_mem b) = 1024" and "c \<noteq> []" and "length c < 2 ^ 32"
  shows "\<exists>b'. cb_moved b' = (1024 \<le> length c) \<and> (length c < 1024 \<longrightarrow> length (cb_mem b') = 1024) \<and>
    do_router_cmd err (cmd_frame c @ bs) b t ns =
      and_then (client_cmd c t) (\<lambda>(t', w). do_router_cmd err bs b' t' (ns @ w))"
proof -
  define h where "h = \<lparr>validation = htonl VALIDATION_DATA, size = htonl (of_nat (length c))\<rparr>"
  define body where "body = bytes_of_string c"
  define mem1 where "mem1 = overwrite (header_mem h) (cb_mem b)"
  define b2 where "b2 = (if 1024 \<le> length c then cb_resize (length c + 1) (b\<lparr>cb_mem := mem1\<rparr>)
    else b\<lparr>cb_mem := mem1\<rparr>)"
  define b3 where "b3 = b2\<lparr>cb_mem := (overwrite body (cb_mem b2))[length body := 0]\<rparr>"
  have lenb: "length body = length c" "0 < length c" using assms(3) by (simp_all add: body_def)
  have len1: "length mem1 = 1024" using assms(2) by (simp add: mem1_def overwrite_def)
  have len2: "length c < length (cb_mem b2)" using len1 by (auto simp: b2_def cb_resize_def)
  have sb: "string_of_bytes (cb_mem b3) =
      c @ CHR 0x00 # string_of_bytes (drop (Suc (length c)) (cb_mem b2))"
  proof -
    have "cb_mem b3 = body @ 0 # drop (Suc (length c)) (cb_mem b2)"
      using terminated_body [of body "cb_mem b2"] len2 lenb by (simp add: b3_def)
    then show ?thesis
      using string_of_bytes_of_string [of c]
      by (simp add: string_of_bytes_def body_def char_of_def)
  qed
  have hv: "recv_waitall err header_size (cmd_frame c @ bs) = (8, header_mem h, body @ bs)"
    using recv_waitall_enough [of 8 "header_mem h" err "body @ bs"]
    by (simp add: header_size_def cmd_frame_def h_def body_def)
  have bv: "recv_waitall err (length c) (body @ bs) = (int (length c), body, bs)"
    using recv_waitall_enough [of "length c" body err bs] lenb by simp
  have hf: "mem_header mem1 = h" "ntohl (validation h) = VALIDATION_DATA"
    "unat (ntohl (size h)) = length c"
    using assms(4) unat_of_nat_small [of "length c"] by (simp_all add: mem1_def h_def)
  have "do_router_cmd err (cmd_frame c @ bs) b t ns =
      and_then (client_cmd (string_of_bytes (cb_mem b3)) t)
        (\<lambda>(t', w). do_router_cmd err bs b3 t' (ns @ w))"
    by (subst do_router_cmd.simps)
      (use hv bv assms lenb len1 hf in \<open>simp add: mem1_def [symmetric] b2_def b3_def Let_def\<close>)
  moreover have "cb_moved b3 = (1024 \<le> length c)"
    using assms(1) len1 by (simp add: b3_def b2_def cb_resize_def)
  moreover have "length c < 1024 \<longrightarrow> length (cb_mem b3) = 1024"
    using len1 lenb by (simp add: b3_def b2_def overwrite_def)
  ultimately show ?thesis using sb by (intro exI [of _ b3]) simp
qed

lemma do_router_end:
  "do_router_cmd err [] b t ns = Inr (client_stop (if err then - 1 else 0) t ns [])"
  by (subst do_router_cmd.simps) (simp add: recv_waitall_end header_size_def)

lemma do_router_moved:
  "cb_moved b \<Longrightarrow> bs \<noteq> [] \<Longrightarrow> do_router_cmd err bs b t ns = Inl (Undefined Dangling)"
  by (subst do_router_cmd.simps) (auto simp: recv_waitall_def header_size_def Let_def)

section \<open>Properties\<close>

lemma client_loop:
  "small_buf b \<Longrightarrow> \<forall>c \<in> set cmds. 0 < length c \<and> length c < 1024 \<Longrightarrow>
    do_router_cmd err (concat (map cmd_frame cmds)) b t ns =
      and_then (run client_step (t, ns) cmds)
        (\<lambda>(t', w). Inr (client_stop (if err then - 1 else 0) t' w []))"
proof (induction cmds arbitrary: b t ns)
  case Nil
  then show ?case by (simp add: do_router_end)
next
  case (Cons c cmds)
  then obtain b' where b': "small_buf b'"
    "do_router_cmd err (cmd_frame c @ concat (map cmd_frame cmds)) b t ns =
      and_then (client_cmd c t)
        (\<lambda>(t', w). do_router_cmd err (concat (map cmd_frame cmds)) b' t' (ns @ w))"
    using do_router_frame [of b c err "concat (map cmd_frame cmds)" t ns]
    by (auto simp: small_buf_def)
  show ?case
  proof (cases "client_cmd c t")
    case (Inr p)
    then show ?thesis using b' Cons.IH [OF b'(1)] Cons.prems
      by (cases p) (simp add: client_step_def)
  qed (use b' in \<open>simp add: client_step_def\<close>)
qed

text \<open>C18: The thread of the library that listens to the router, given any sequence of commands of 1 to
  1023 characters framed by the router's \<^verbatim>\<open>send_cmd\<close>, runs exactly these commands in order, each on
  the clock that the one before left, whatever the bytes between the frames are left in the buffer
  from before; it ends when the connection ends, with nothing unread, unless a command throws.\<close>

theorem client_runs_commands:
  assumes "\<forall>c \<in> set cmds. 0 < length c \<and> length c < 1024"
  shows "do_router_cmd err (concat (map cmd_frame cmds)) cmd_buffer_init t [] =
    and_then (run client_step (t, []) cmds)
      (\<lambda>(t', w). Inr \<lparr>ce_timing = t', ce_notes = w, ce_closed = (\<not> err), ce_unread = []\<rparr>)"
  using client_loop [OF small_buf_init assms] by (auto simp: client_stop_def)

theorem client_runs_commands_witness:
  "do_router_cmd False (cmd_frame ''inc_time_ns 5000'' @ cmd_frame ''foo'') cmd_buffer_init
      timing_globals [] =
    Inr \<lparr>ce_timing = timing_globals\<lparr>curr_monotonic := \<lparr>tv_sec = 10, tv_nsec = 5000\<rparr>\<rparr>,
      ce_notes = [No_Such_Command], ce_closed = True, ce_unread = []\<rparr>"
proof -
  have "run client_step (timing_globals, []) [''inc_time_ns 5000'', ''foo''] =
      Inr (timing_globals\<lparr>curr_monotonic := \<lparr>tv_sec = 10, tv_nsec = 5000\<rparr>\<rparr>, [No_Such_Command])"
    by code_simp
  then show ?thesis
    using client_runs_commands [of "[''inc_time_ns 5000'', ''foo'']" False timing_globals] by simp
qed

text \<open>C40: A command of 1024 characters or more makes the buffer grow; the pointer to the header, taken
  before the loop, is not renewed, so that the next byte that arrives makes the thread read a header
  through a dangling pointer.\<close>

theorem long_command_dangles:
  assumes "1024 \<le> length c" and "length c < 2 ^ 32" and "later \<noteq> []" and "client_cmd c t = Inr (t', w)"
  shows "do_router_cmd err (cmd_frame c @ later) cmd_buffer_init t ns = Inl (Undefined Dangling)"
proof -
  from assms(1) have "c \<noteq> []" by auto
  then obtain b' where "cb_moved b'" "do_router_cmd err (cmd_frame c @ later) cmd_buffer_init t ns =
      and_then (client_cmd c t) (\<lambda>(t', w). do_router_cmd err later b' t' (ns @ w))"
    using do_router_frame [of cmd_buffer_init c err later t ns] assms
      small_buf_init [unfolded small_buf_def] by auto
  then show ?thesis using assms(3,4) by (simp add: do_router_moved)
qed

theorem long_command_dangles_witness:
  "do_router_cmd False (cmd_frame (replicate 1024 CHR ''#'') @ [0]) cmd_buffer_init timing_globals [] =
    Inl (Undefined Dangling)"
proof -
  have "tokenize (replicate 1024 CHR ''#'') = []"
    by (simp add: tokenize_def getline_all_last)
  then have "client_cmd (replicate 1024 CHR ''#'') timing_globals = Inr (timing_globals, [])"
    by (simp add: client_cmd_def get_tokens_def c_str_id)
  then show ?thesis by (intro long_command_dangles) simp_all
qed

lemma inc_time_line:
  assumes "0 \<le> n"
  shows "client_cmd (''inc_time_ns '' @ to_string n) t =
    (if n \<le> int_max
     then Inr (fst (set_time_increment n t),
       if snd (set_time_increment n t) then [Time_Warning] else [])
     else Inl (Uncaught Out_Of_Range))"
proof -
  let ?ts = "[''inc_time_ns'', to_string n]"
  have ok: "token_ok (to_string n)"
  proof -
    have "is_digit (hd (to_string n))" using to_string_digits [OF assms] by simp
    moreover have "CHR '' '' \<notin> set (to_string n)"
      using to_string_digits [OF assms, of "CHR '' ''"] by (auto simp: is_digit_def char_code_def)
    ultimately show ?thesis by (auto simp: token_ok_def is_digit_def char_code_def)
  qed
  have "''inc_time_ns '' @ to_string n = join_from 0 ?ts"
    by (simp add: join_from_def)
  then have "tokenize (''inc_time_ns '' @ to_string n) = ?ts"
    using tokenize_join [of ?ts] ok by (simp add: token_ok_def)
  moreover have "CHR 0x00 \<notin> set (''inc_time_ns '' @ to_string n)"
    using zero_not_in_to_string [OF assms] by simp
  ultimately have "get_tokens (''inc_time_ns '' @ to_string n) [] = (True, ?ts)"
    by (simp add: get_tokens_def c_str_id)
  moreover have "stoi (to_string n) = (if n \<le> int_max then Inr n else Inl (Uncaught Out_Of_Range))"
    by (rule stoi_to_string_all [OF assms])
  ultimately show ?thesis
    by (cases "set_time_increment n t")
      (simp add: client_cmd_def inc_time_ns_def check_warn_args_def tokens_to_string_def)
qed

text \<open>C31: \<^verbatim>\<open>inc_time_ns\<close> moves the clock by whole commands: for a count that fits an \<^verbatim>\<open>int\<close> the command
  line \<^verbatim>\<open>inc_time_ns <n>\<close>, as the router joins it, does what \<^verbatim>\<open>set_time_increment(n)\<close> does; a larger count,
  from about 2.15 seconds on, kills the process with an uncaught \<^verbatim>\<open>std::out_of_range\<close>.\<close>

theorem inc_time_command:
  assumes "0 \<le> n"
  shows "client_cmd (''inc_time_ns '' @ to_string n) t =
    (if n \<le> int_max
     then Inr (fst (set_time_increment n t),
       if snd (set_time_increment n t) then [Time_Warning] else [])
     else Inl (Uncaught Out_Of_Range))"
  by (rule inc_time_line [OF assms])

theorem inc_time_command_witness:
  "client_cmd (''inc_time_ns '' @ to_string 3000000000) timing_globals = Inl (Uncaught Out_Of_Range)"
  using inc_time_command [of 3000000000 timing_globals] by (simp add: int_max_def)

text \<open>A frame without a body looks like the end of the connection: the client closes the socket and never reads what follows.\<close>

theorem empty_command_disconnects:
  "do_router_cmd err (cmd_frame [] @ later) cmd_buffer_init t ns =
    Inr \<lparr>ce_timing = t, ce_notes = ns, ce_closed = True, ce_unread = later\<rparr>"
proof -
  have "recv_waitall err header_size (cmd_frame [] @ later) = (8, cmd_frame [], later)"
    using recv_waitall_enough [of 8 "cmd_frame []" err later]
    by (simp add: header_size_def cmd_frame_def bytes_of_string_def)
  then show ?thesis
    by (subst do_router_cmd.simps)
      (simp add: cmd_frame_def bytes_of_string_def cmd_buffer_init_def recv_waitall_none
        client_stop_def Let_def)
qed

text \<open>\<^verbatim>\<open>connect_router\<close> on an address it can parse: it succeeds exactly when no connection exists, the
  port is not zero and the three calls work; then the connection is on descriptor 1022, or on the
  socket itself when \<^verbatim>\<open>dup2\<close> fails, and it is the only new descriptor. When \<^verbatim>\<open>connect\<close> fails, the socket stays
  open although the connection is not established.\<close>

theorem connect_router_outcome:
  assumes "convert_addr_lib addr CHR '':'' = Inr a" and "connect_router at addr r = Inr (r', ok)"
    and "at_sock at \<noteq> ROUTER_FD" and "at_sock at \<notin> lib_fds r"
  shows "ok = (\<not> is_connected r \<and> sin_port a \<noteq> 0 \<and> at_sock at \<noteq> - 1 \<and> at_connect_ok at) \<and>
    is_connected r' = (is_connected r \<or> ok) \<and>
    (if ok then router_sockfd r' = (if at_dup2_ok at then ROUTER_FD else at_sock at) \<and>
        lib_fds r' = insert (router_sockfd r') (lib_fds r)
     else lib_fds r' = (if \<not> is_connected r \<and> sin_port a \<noteq> 0 \<and> at_sock at \<noteq> - 1
        then insert (at_sock at) (lib_fds r) else lib_fds r))"
  using assms by (auto simp: connect_router_def Let_def ROUTER_FD_def split: if_splits)

theorem connect_router_outcome_witness:
  "\<exists>r'. connect_router \<lparr>at_sock = 3, at_connect_ok = False, at_dup2_ok = True\<rparr> ''127.0.0.1:80''
      router_conn_globals = Inr (r', False) \<and> \<not> is_connected r' \<and> lib_fds r' = {3}"
proof -
  let ?at = "\<lparr>at_sock = 3, at_connect_ok = False, at_dup2_ok = True\<rparr>"
  let ?r = "router_conn_globals\<lparr>router_sockfd := 3, lib_fds := {3}\<rparr>"
  have a: "convert_addr_lib ''127.0.0.1:80'' CHR '':'' =
      Inr \<lparr>sin_family = 0, sin_port = 0x5000, s_addr = 0x0100007F\<rparr>"
    by code_simp
  then have "connect_router ?at ''127.0.0.1:80'' router_conn_globals = Inr (?r, False)"
    by (simp add: connect_router_def router_conn_globals_def)
  with connect_router_outcome [OF a this] show ?thesis
    by (simp add: ROUTER_FD_def router_conn_globals_def)
qed

end
