(* ===== verification/Config_File.thy ===== *)
theory Config_File
  imports Address Ordered_Map
begin

text \<open>
  The router's configuration, \<^verbatim>\<open>tproxy/ConfigFile.h\<close> and \<^verbatim>\<open>tproxy/ConfigFile.cpp\<close>: the state of the
  class \<^verbatim>\<open>ConfigFile\<close>, \<^verbatim>\<open>load\<close> line by line with every way it can end the process, the
  masquerading of destination addresses and the node name lookups. \<^verbatim>\<open>addr_map\<close> and \<^verbatim>\<open>cidr_map\<close> are
  ordered maps (the code iterates over the second in key order); the two unordered maps are never
  iterated and are plain maps.
\<close>

section \<open>State\<close>

datatype strategy = Strategy_Not_Set | Strategy_Direct | Strategy_Cmd | Strategy_File

record config =
  addr_map :: "(addr_key, sockaddr_in) omap"
  cidr_map :: "(addr_key, sockaddr_in) omap"
  addr_to_node :: "addr_key \<rightharpoonup> string"
  node_to_addr :: "string \<rightharpoonup> sockaddr_in"
  strategy :: strategy
  cmd_file :: string
  router_addr :: sockaddr_in

definition allowed_strategies :: "string \<rightharpoonup> strategy" where
  "allowed_strategies =
     [''direct'' \<mapsto> Strategy_Direct, ''cmd'' \<mapsto> Strategy_Cmd, ''file'' \<mapsto> Strategy_File]"

definition default_strategy :: strategy where
  "default_strategy = Strategy_Not_Set"

text \<open>The object that \<^verbatim>\<open>ConfigFile configFile;\<close> constructs: \<^verbatim>\<open>load("")\<close> returns at once.\<close>

definition init_config :: config where
  "init_config = \<lparr>addr_map = [], cidr_map = [], addr_to_node = Map.empty,
     node_to_addr = Map.empty, strategy = Strategy_Not_Set, cmd_file = [],
     router_addr = zero_addr\<rparr>"

section \<open>\<^verbatim>\<open>load\<close>\<close>

datatype line_status =
    Line_Empty       \<comment> \<open>no tokens: \<^verbatim>\<open>continue\<close>\<close>
  | Line_Ok          \<comment> \<open>\<^verbatim>\<open>ok\<close> is true at the end of the body\<close>
  | Line_Invalid     \<comment> \<open>the warning \<^verbatim>\<open>invalid cmd\<close>\<close>
  | Line_Twice       \<comment> \<open>the warning \<^verbatim>\<open>strategy should not appear twice\<close>\<close>

definition load_map :: "config \<Rightarrow> bool \<Rightarrow> string \<Rightarrow> string \<Rightarrow> (config \<times> line_status) result" where
  "load_map c is_addr from_tok to_tok =
     (let delim = (if is_addr then CHR '':'' else CHR ''/'') in
      and_then (convert_addr from_tok delim) (\<lambda>origin.
      and_then (convert_addr to_tok delim) (\<lambda>masquerade.
        if sin_port origin \<noteq> 0 \<and> sin_port masquerade \<noteq> 0 then
          Inr (if is_addr
               then c\<lparr>addr_map := om_put (addr_map c) (key_of origin) masquerade\<rparr>
               else c\<lparr>cidr_map := om_put (cidr_map c) (key_of origin) masquerade\<rparr>, Line_Ok)
        else Inr (c, Line_Invalid))))"

definition load_node :: "config \<Rightarrow> string \<Rightarrow> string \<Rightarrow> (config \<times> line_status) result" where
  "load_node c node ip =
     and_then (convert_addr ip CHR '' '') (\<lambda>addr.
       if s_addr addr \<noteq> 0 then
         Inr (c\<lparr>addr_to_node := (addr_to_node c)(key_of addr \<mapsto> node),
                node_to_addr := (node_to_addr c)(node \<mapsto> addr)\<rparr>, Line_Ok)
       else Inr (c, Line_Invalid))"

definition load_strategy :: "config \<Rightarrow> string list \<Rightarrow> (config \<times> line_status) result" where
  "load_strategy c tokens =
     (if strategy c \<noteq> Strategy_Not_Set then Inr (c, Line_Twice)
      else case allowed_strategies (tokens ! 1) of
        None \<Rightarrow> Inr (c, Line_Invalid)
      | Some st \<Rightarrow>
          if length tokens > 2 \<and> st \<noteq> Strategy_File then Inr (c, Line_Invalid)
          else if st = Strategy_File then
            (if length tokens > 2
             then Inr (c\<lparr>strategy := st, cmd_file := tokens ! 2\<rparr>, Line_Ok)
             else Inl (Undefined Out_Of_Bounds))
          else Inr (c\<lparr>strategy := st\<rparr>, Line_Ok))"

definition load_router :: "config \<Rightarrow> string \<Rightarrow> (config \<times> line_status) result" where
  "load_router c tok =
     and_then (convert_addr tok CHR '':'') (\<lambda>router.
       if sin_port router \<noteq> 0 then
         (let r0 = router\<lparr>sin_port := 0\<rparr> in
          Inr (c\<lparr>router_addr := router,
                 addr_to_node := (addr_to_node c)(key_of r0 \<mapsto> ''router''),
                 node_to_addr := (node_to_addr c)(''router'' \<mapsto> r0)\<rparr>, Line_Ok))
       else Inr (c, Line_Invalid))"

definition load_line :: "config \<Rightarrow> string \<Rightarrow> (config \<times> line_status) result" where
  "load_line c line =
     (let tokens = tokenize line; n = length tokens in
      if tokens = [] then Inr (c, Line_Empty)
      else if n = 3 \<and> (tokens ! 0 = ''map-addr'' \<or> tokens ! 0 = ''map-cidr'')
      then load_map c (tokens ! 0 = ''map-addr'') (tokens ! 1) (tokens ! 2)
      else if n = 3 \<and> tokens ! 0 = ''node'' then load_node c (tokens ! 1) (tokens ! 2)
      else if n \<ge> 2 \<and> tokens ! 0 = ''strategy'' then load_strategy c tokens
      else if n \<ge> 2 \<and> tokens ! 0 = ''router'' then load_router c (tokens ! 1)
      else Inr (c, Line_Invalid))"

definition load_step :: "config \<Rightarrow> string \<Rightarrow> config result" where
  "load_step c line = and_then (load_line c line) (\<lambda>(c', _). Inr c')"

text \<open>\<^verbatim>\<open>load(file)\<close>; \<open>content\<close> is what the file holds, \<open>None\<close> when it cannot be opened.\<close>

definition load :: "config \<Rightarrow> string \<Rightarrow> string option \<Rightarrow> config result" where
  "load c file content =
     (if file = [] then Inr c
      else case content of
        None \<Rightarrow> Inl (Uncaught Open_Failure)
      | Some text \<Rightarrow>
          and_then (run load_step c (getline_all CHR 0x0A text)) (\<lambda>c'.
            Inr (if strategy c' = Strategy_Not_Set then c'\<lparr>strategy := default_strategy\<rparr> else c')))"

section \<open>Masquerading\<close>

definition addr_mask :: "u32 \<Rightarrow> u32 \<Rightarrow> u32" where
  "addr_mask a m = ntohl a AND m"

fun cidr_scan :: "(addr_key, sockaddr_in) omap \<Rightarrow> sockaddr_in \<Rightarrow> sockaddr_in result" where
  "cidr_scan [] origin = Inr origin"
| "cidr_scan ((k, v) # m) origin =
     and_then (prefix_mask (key_port k)) (\<lambda>mask.
       if addr_mask (key_ip k) mask = addr_mask (s_addr origin) mask
       then and_then (prefix_mask (sin_port v)) (\<lambda>mask'.
         Inr (origin\<lparr>s_addr :=
           htonl (addr_mask (s_addr v) mask' OR addr_mask (s_addr origin) (NOT mask'))\<rparr>))
       else cidr_scan m origin)"

definition get_masquerade_addr :: "config \<Rightarrow> sockaddr_in \<Rightarrow> sockaddr_in result" where
  "get_masquerade_addr c origin =
     (case om_find (addr_map c) (key_of origin) of
        Some a \<Rightarrow> Inr a
      | None \<Rightarrow> cidr_scan (cidr_map c) origin)"

section \<open>Node names\<close>

definition get_node_name :: "config \<Rightarrow> sockaddr_in \<Rightarrow> bool \<Rightarrow> string" where
  "get_node_name c addr to_string_if_null =
     (case addr_to_node c (key_of (addr\<lparr>sin_port := 0\<rparr>)) of
        Some n \<Rightarrow> n
      | None \<Rightarrow> if to_string_if_null then addr_to_string addr else [])"

definition get_node_addr :: "config \<Rightarrow> string \<Rightarrow> sockaddr_in" where
  "get_node_addr c name =
     (case node_to_addr c name of
        Some a \<Rightarrow> a
      | None \<Rightarrow>
          (case inet_aton name of
             Some a \<Rightarrow> zero_addr\<lparr>s_addr := a\<rparr>
           | None \<Rightarrow> zero_addr\<lparr>sin_port := bad_port\<rparr>))"

definition get_node_name_with_addr :: "config \<Rightarrow> sockaddr_in \<Rightarrow> string" where
  "get_node_name_with_addr c addr =
     (let n = get_node_name c addr False in
      if n = [] then addr_to_string addr else n @ '' ('' @ addr_to_string addr @ '')'')"

definition is_router_addr :: "config \<Rightarrow> sockaddr_in \<Rightarrow> bool" where
  "is_router_addr c addr = cmp_addr_equal addr (router_addr c)"

section \<open>The invariant of a loaded configuration\<close>

text \<open>
  What \<^verbatim>\<open>load\<close> keeps: both ordered maps are sorted, a mapping never has a zero port or prefix on
  either side, node addresses carry no port, and every named node is known under its address too.
\<close>

definition config_ok :: "config \<Rightarrow> bool" where
  "config_ok c \<longleftrightarrow>
     om_ok (addr_map c) \<and> om_ok (cidr_map c) \<and>
     (\<forall>(k, v) \<in> set (addr_map c). key_port k \<noteq> 0 \<and> sin_port v \<noteq> 0) \<and>
     (\<forall>(k, v) \<in> set (cidr_map c). key_port k \<noteq> 0 \<and> sin_port v \<noteq> 0) \<and>
     (\<forall>k \<in> dom (addr_to_node c). key_port k = 0) \<and>
     (\<forall>a \<in> ran (node_to_addr c). sin_port a = 0 \<and> sin_family a = AF_INET \<and>
        key_of a \<in> dom (addr_to_node c))"

lemma config_ok_init: "config_ok init_config"
  by (simp add: config_ok_def init_config_def)

lemma om_put_set: "(a, b) \<in> set (om_put m k v) \<Longrightarrow> (a, b) = (k, v) \<or> (a, b) \<in> set m"
  by (induction m k v rule: om_put.induct) (auto split: if_splits)

lemma convert_addr_family: "convert_addr s d = Inr a \<Longrightarrow> sin_family a = AF_INET"
  by (auto simp: convert_addr_def Let_def result_simps split: if_splits)

lemma convert_addr_space:
  "convert_addr s CHR '' '' = Inr a \<Longrightarrow> sin_family a = AF_INET \<and> sin_port a = 0"
  by (auto simp: convert_addr_def Let_def)

lemma config_ok_strategy [simp]: "config_ok (c\<lparr>strategy := st\<rparr>) = config_ok c"
  by (simp add: config_ok_def)

lemma key_port_key_of [simp]: "key_port (key_of a) = sin_port a" "key_ip (key_of a) = s_addr a"
  by (simp_all add: key_of_def)

lemma load_map_ok: "config_ok c \<Longrightarrow> load_map c b x y = Inr (c', st) \<Longrightarrow> config_ok c'"
  by (auto simp: load_map_def result_simps Let_def config_ok_def om_ok_put
      dest!: om_put_set split: if_splits)

lemma ran_upd: "a \<in> ran (m(k \<mapsto> v)) \<Longrightarrow> a = v \<or> a \<in> ran m"
  by (auto simp: ran_def split: if_splits)

lemma load_node_ok: "config_ok c \<Longrightarrow> load_node c x y = Inr (c', st) \<Longrightarrow> config_ok c'"
  by (auto simp: load_node_def result_simps config_ok_def
      dest!: ran_upd convert_addr_space split: if_splits)

lemma load_router_ok: "config_ok c \<Longrightarrow> load_router c x = Inr (c', st) \<Longrightarrow> config_ok c'"
  by (auto simp: load_router_def result_simps config_ok_def Let_def
      dest!: ran_upd convert_addr_family split: if_splits)

lemma load_strategy_ok: "config_ok c \<Longrightarrow> load_strategy c ts = Inr (c', st) \<Longrightarrow> config_ok c'"
  by (auto simp: load_strategy_def config_ok_def split: if_splits option.splits)

lemma load_line_ok: "config_ok c \<Longrightarrow> load_line c l = Inr (c', st) \<Longrightarrow> config_ok c'"
  by (auto simp: load_line_def Let_def split: if_splits
      intro: load_map_ok load_node_ok load_strategy_ok load_router_ok)

interpretation cfg: safe_machine load_step config_ok
  by unfold_locales (auto simp: load_step_def result_simps intro: load_line_ok)

section \<open>Masquerading: lemmas\<close>

definition prefix_ok :: "u16 \<Rightarrow> bool" where
  "prefix_ok p \<longleftrightarrow> 0 < unat p \<and> unat p \<le> 32"

definition prefixes_ok :: "config \<Rightarrow> bool" where
  "prefixes_ok c = list_all (\<lambda>(k, v). prefix_ok (key_port k) \<and> prefix_ok (sin_port v)) (cidr_map c)"

definition rule_matches :: "addr_key \<Rightarrow> sockaddr_in \<Rightarrow> bool" where
  "rule_matches k a \<longleftrightarrow>
     addr_mask (key_ip k) (net_mask (unat (key_port k))) =
     addr_mask (s_addr a) (net_mask (unat (key_port k)))"

text \<open>The rule that decides: the first one, in key order, whose network holds the address.\<close>

definition cidr_rule :: "config \<Rightarrow> sockaddr_in \<Rightarrow> (addr_key \<times> sockaddr_in) option" where
  "cidr_rule c a = List.find (\<lambda>(k, v). rule_matches k a) (cidr_map c)"

definition rewrite_net :: "sockaddr_in \<Rightarrow> sockaddr_in \<Rightarrow> sockaddr_in" where
  "rewrite_net v a =
     (let m = net_mask (unat (sin_port v)) in
      a\<lparr>s_addr := htonl (addr_mask (s_addr v) m OR addr_mask (s_addr a) (NOT m))\<rparr>)"

lemma prefix_mask_ok [simp]: "prefix_ok p \<Longrightarrow> prefix_mask p = Inr (net_mask (unat p))"
  by (simp add: prefix_mask_eq prefix_ok_def)

lemma cidr_scan_find:
  "list_all (\<lambda>(k, v). prefix_ok (key_port k) \<and> prefix_ok (sin_port v)) m \<Longrightarrow>
   cidr_scan m a =
     Inr (case List.find (\<lambda>(k, v). rule_matches k a) m of None \<Rightarrow> a | Some (k, v) \<Rightarrow> rewrite_net v a)"
  by (induction m a rule: cidr_scan.induct)
    (auto simp: rule_matches_def rewrite_net_def Let_def)

lemma masquerade_cases:
  assumes "prefixes_ok c"
  shows "get_masquerade_addr c a =
     Inr (case om_find (addr_map c) (key_of a) of Some b \<Rightarrow> b
       | None \<Rightarrow> (case cidr_rule c a of None \<Rightarrow> a | Some (k, v) \<Rightarrow> rewrite_net v a))"
  using assms
  by (simp add: get_masquerade_addr_def prefixes_ok_def cidr_rule_def cidr_scan_find
      split: option.splits)

lemma rewrite_net_frame [simp]:
  "sin_port (rewrite_net v a) = sin_port a" "sin_family (rewrite_net v a) = sin_family a"
  by (simp_all add: rewrite_net_def Let_def)

lemma rewrite_net_bit:
  "bit (ntohl (s_addr (rewrite_net v a))) n \<longleftrightarrow> n < 32 \<and>
     (if 32 - unat (sin_port v) \<le> n then bit (ntohl (s_addr v)) n else bit (ntohl (s_addr a)) n)"
  by (auto simp: rewrite_net_def Let_def addr_mask_def bit_simps bit_net_mask)

lemma rule_matches_bits:
  "rule_matches k a \<longleftrightarrow>
     (\<forall>n < 32. 32 - unat (key_port k) \<le> n \<longrightarrow>
        bit (ntohl (key_ip k)) n = bit (ntohl (s_addr a)) n)"
  by (auto simp: rule_matches_def addr_mask_def bit_eq_iff bit_simps bit_net_mask)

lemma cidr_ruleD: "cidr_rule c a = Some (k, v) \<Longrightarrow> rule_matches k a \<and> (k, v) \<in> set (cidr_map c)"
  by (auto simp: cidr_rule_def find_Some_iff) (metis nth_mem)

lemma sockaddr_eqI:
  assumes "sin_family a = sin_family b" "sin_port a = sin_port b"
    and "\<And>n. n < 32 \<Longrightarrow> bit (ntohl (s_addr a)) n = bit (ntohl (s_addr b)) n"
  shows "a = (b :: sockaddr_in)"
proof -
  have "ntohl (s_addr a) = ntohl (s_addr b)"
    by (rule bit_word_eqI) (use assms(3) in simp)
  then show ?thesis using assms(1,2) by simp
qed

lemma load_line_frame:
  "load_line c l = Inr (c', st) \<Longrightarrow> st \<noteq> Line_Ok \<Longrightarrow> c' = c"
  by (auto simp: load_line_def load_map_def load_node_def load_strategy_def load_router_def
      Let_def result_simps split: if_splits option.splits)

lemma load_line_node:
  "tokenize line = [''node'', n, ip] \<Longrightarrow> load_line c line = load_node c n ip"
  by (simp add: load_line_def Let_def)

lemma getline_nth_token: "token_ok t \<Longrightarrow> getline_nth 0 CHR '' '' t = t"
  by (rule getline_nth_0_whole) (simp add: token_ok_def)

section \<open>Properties\<close>

text \<open>C23: Every configuration that \<^verbatim>\<open>load\<close> returns satisfies \<open>config_ok\<close>, whatever the file
  holds: both ordered maps are sorted, no mapping has a zero port or prefix, every node address is
  an \<^verbatim>\<open>AF_INET\<close> address without a port and is known under its address as well.\<close>

theorem load_config_ok:
  "load init_config file content = Inr c \<Longrightarrow> config_ok c"
  by (auto simp: load_def result_simps config_ok_init split: if_splits option.splits
      intro: cfg.run_inv [OF config_ok_init])

theorem load_config_ok_witness:
  "\<exists>c. load init_config ''tproxy.conf''
       (Some (''node n1 10.1.1.1'' @ [CHR 0x0A] @ ''map-cidr 10.1.1.0/24 10.2.0.0/24'')) = Inr c \<and>
     config_ok c"
proof -
  have "\<not> isl (load init_config ''tproxy.conf''
       (Some (''node n1 10.1.1.1'' @ [CHR 0x0A] @ ''map-cidr 10.1.1.0/24 10.2.0.0/24'')))"
    by code_simp
  then obtain c where "load init_config ''tproxy.conf''
       (Some (''node n1 10.1.1.1'' @ [CHR 0x0A] @ ''map-cidr 10.1.1.0/24 10.2.0.0/24'')) = Inr c"
    by (metis sum.collapse(2))
  then show ?thesis using load_config_ok by blast
qed

text \<open>With prefix lengths between 1 and 32, \<^verbatim>\<open>get_masquerade_addr\<close> of an address that has no
  exact mapping returns, keeps port and family, and, where a CIDR rule matches, takes the network
  bits of the first matching rule's target and the host bits of the original address; where none
  matches the address comes back unchanged.\<close>

theorem masquerade_bits:
  assumes "prefixes_ok c" and "om_find (addr_map c) (key_of a) = None"
  shows "\<exists>b. get_masquerade_addr c a = Inr b \<and>
     sin_port b = sin_port a \<and> sin_family b = sin_family a \<and>
     (case cidr_rule c a of
        None \<Rightarrow> b = a
      | Some (k, v) \<Rightarrow>
          (\<forall>n < 32. bit (ntohl (s_addr b)) n \<longleftrightarrow>
             (if 32 - unat (sin_port v) \<le> n then bit (ntohl (s_addr v)) n
              else bit (ntohl (s_addr a)) n)))"
  using assms by (auto simp: masquerade_cases rewrite_net_bit split: option.splits)

definition example_rules :: config where
  "example_rules = init_config\<lparr>cidr_map :=
     [(Addr_Key 0x0001010A 24, \<lparr>sin_family = 2, sin_port = 24, s_addr = 0x0000020A\<rparr>),
      (Addr_Key 0x0000020A 24, \<lparr>sin_family = 2, sin_port = 24, s_addr = 0x0001010A\<rparr>)]\<rparr>"

definition example_addr :: sockaddr_in where
  "example_addr = \<lparr>sin_family = 2, sin_port = 80, s_addr = 0x0501010A\<rparr>"

definition example_masq :: sockaddr_in where
  "example_masq = \<lparr>sin_family = 2, sin_port = 80, s_addr = 0x0500020A\<rparr>"

lemma example_rules_facts:
  "prefixes_ok example_rules"
  "om_find (addr_map example_rules) k = None"
  by (simp_all add: prefixes_ok_def prefix_ok_def example_rules_def init_config_def)

theorem masquerade_bits_witness:
  "\<exists>b. get_masquerade_addr example_rules example_addr = Inr b \<and>
     sin_port b = 80 \<and> sin_family b = 2"
  using masquerade_bits [OF example_rules_facts(1), of example_addr] example_rules_facts(2)
  by (auto simp: example_addr_def)

text \<open>A CIDR rule never merges two addresses: two addresses that the same rule rewrites, with
  equal ports, have the same image only if they are equal, provided the rule's target is not a
  longer prefix than its source.\<close>

theorem masquerade_injective:
  assumes "prefixes_ok c"
    and "om_find (addr_map c) (key_of a) = None" "om_find (addr_map c) (key_of b) = None"
    and "cidr_rule c a = Some (k, v)" "cidr_rule c b = Some (k, v)"
    and "unat (sin_port v) \<le> unat (key_port k)"
    and "get_masquerade_addr c a = Inr r" "get_masquerade_addr c b = Inr r"
  shows "a = b"
proof (rule sockaddr_eqI)
  have r: "r = rewrite_net v a" "r = rewrite_net v b"
    using assms by (simp_all add: masquerade_cases)
  then show "sin_family a = sin_family b" "sin_port a = sin_port b"
    by (metis rewrite_net_frame)+
  fix n :: nat
  assume n: "n < 32"
  have "rule_matches k a" "rule_matches k b" using assms cidr_ruleD by blast+
  then have "32 - unat (sin_port v) \<le> n \<Longrightarrow> bit (ntohl (s_addr a)) n = bit (ntohl (s_addr b)) n"
    using n assms(6) by (auto simp: rule_matches_bits)
  moreover have "n < 32 - unat (sin_port v) \<Longrightarrow> bit (ntohl (s_addr a)) n = bit (ntohl (s_addr b)) n"
    using n r rewrite_net_bit [of v a n] rewrite_net_bit [of v b n] by auto
  ultimately show "bit (ntohl (s_addr a)) n = bit (ntohl (s_addr b)) n"
    by linarith
qed

lemma example_rule_1:
  "cidr_rule example_rules example_addr =
     Some (Addr_Key 0x0001010A 24, \<lparr>sin_family = 2, sin_port = 24, s_addr = 0x0000020A\<rparr>)"
  by code_simp

lemma example_rule_2:
  "cidr_rule example_rules example_masq =
     Some (Addr_Key 0x0000020A 24, \<lparr>sin_family = 2, sin_port = 24, s_addr = 0x0001010A\<rparr>)"
  by code_simp

lemma example_get: "get_masquerade_addr example_rules example_addr = Inr example_masq"
  by code_simp

theorem masquerade_injective_witness:
  "get_masquerade_addr example_rules example_addr = Inr example_masq \<and>
   example_addr = \<lparr>sin_family = 2, sin_port = 80, s_addr = 0x0501010A\<rparr>"
proof -
  let ?b = "\<lparr>sin_family = 2, sin_port = 80, s_addr = 0x0501010A\<rparr> :: sockaddr_in"
  have b: "cidr_rule example_rules ?b = cidr_rule example_rules example_addr"
    "get_masquerade_addr example_rules ?b = Inr example_masq"
    by code_simp+
  show ?thesis
    using masquerade_injective [OF example_rules_facts(1) example_rules_facts(2)
        example_rules_facts(2) example_rule_1 b(1) [unfolded example_rule_1] _ example_get b(2)]
      example_get by simp
qed

text \<open>C22: Masquerading is undone by the opposite rule: when the address a rule produced is matched
  by a rule back into the first rule's network, with the same prefix length throughout, the second
  \<^verbatim>\<open>get_masquerade_addr\<close> returns the original address. A pair of nodes that see each other through
  virtual addresses therefore reach each other's real ones.\<close>

theorem masquerade_roundtrip:
  assumes "prefixes_ok c"
    and "om_find (addr_map c) (key_of a) = None" "om_find (addr_map c) (key_of b) = None"
    and "cidr_rule c a = Some (k, v)" and "get_masquerade_addr c a = Inr b"
    and "cidr_rule c b = Some (k', v')"
    and "sin_port v = key_port k" "sin_port v' = key_port k"
    and "rule_matches k v'"
  shows "get_masquerade_addr c b = Inr a"
proof -
  have b: "b = rewrite_net v a" and g: "get_masquerade_addr c b = Inr (rewrite_net v' b)"
    using assms by (simp_all add: masquerade_cases)
  have "rule_matches k a" using assms cidr_ruleD by blast
  then have "rewrite_net v' b = a"
    using assms(7-9) by (intro sockaddr_eqI) (auto simp: rewrite_net_bit b rule_matches_bits)
  with g show ?thesis by simp
qed

theorem masquerade_roundtrip_witness:
  "get_masquerade_addr example_rules example_masq = Inr example_addr"
  by (rule masquerade_roundtrip [OF example_rules_facts(1) example_rules_facts(2)
        example_rules_facts(2) example_rule_1 example_get example_rule_2]) (simp, simp, code_simp)

text \<open>A prefix length above 32 is accepted by \<^verbatim>\<open>load\<close> and makes the first masquerade of any
  address undefined: the shift count \<^verbatim>\<open>32 - sin_port\<close> is negative.\<close>

theorem oversize_prefix_accepted:
  "\<exists>c. load init_config ''tproxy.conf'' (Some ''map-cidr 10.1.1.0/33 10.2.0.0/33'') = Inr c \<and>
     (\<forall>a. get_masquerade_addr c a = Inl (Undefined Shift_Count))"
proof -
  let ?v = "\<lparr>sin_family = 2, sin_port = 33, s_addr = 0x0000020A\<rparr> :: sockaddr_in"
  let ?t = "tokenize ''map-cidr 10.1.1.0/33 10.2.0.0/33''"
  have t: "?t = [''map-cidr'', ''10.1.1.0/33'', ''10.2.0.0/33'']" by code_simp
  have a: "convert_addr ''10.1.1.0/33'' CHR ''/'' =
      Inr \<lparr>sin_family = 2, sin_port = 33, s_addr = 0x0001010A\<rparr>"
    and b: "convert_addr ''10.2.0.0/33'' CHR ''/'' = Inr ?v"
    by code_simp+
  have l: "getline_all CHR 0x0A ''map-cidr 10.1.1.0/33 10.2.0.0/33'' =
      [''map-cidr 10.1.1.0/33 10.2.0.0/33'']" by (rule getline_all_last) simp_all
  let ?c = "init_config\<lparr>cidr_map := [(Addr_Key 0x0001010A 33, ?v)]\<rparr>"
  have "load_step init_config ''map-cidr 10.1.1.0/33 10.2.0.0/33'' = Inr ?c"
    by (simp add: load_step_def load_line_def Let_def t load_map_def a b key_of_def
        init_config_def)
  then have "load init_config ''tproxy.conf'' (Some ''map-cidr 10.1.1.0/33 10.2.0.0/33'') = Inr ?c"
    by (simp add: load_def l default_strategy_def init_config_def)
  moreover have "get_masquerade_addr ?c a = Inl (Undefined Shift_Count)" for a
    by (simp add: get_masquerade_addr_def init_config_def prefix_mask_eq)
  ultimately show ?thesis by blast
qed

text \<open>Lines that the parser means to reject with a warning end the process instead: a mapping
  or a router whose address has no port makes \<^verbatim>\<open>stoi("")\<close> throw out of \<^verbatim>\<open>load\<close>, and
  \<^verbatim>\<open>strategy file\<close> without a file name reads past the end of the token vector.\<close>

theorem load_line_crashes:
  assumes "token_ok t" "CHR '':'' \<notin> set t" "token_ok u" "strategy c = Strategy_Not_Set"
  shows "load_line c (join_from 0 [''map-addr'', t, u]) = Inl (Uncaught Invalid_Argument) \<and>
    load_line c (join_from 0 [''router'', t]) = Inl (Uncaught Invalid_Argument) \<and>
    load_line c (join_from 0 [''strategy'', ''file'']) = Inl (Undefined Out_Of_Bounds)"
proof -
  have *: "token_ok ''map-addr''" "token_ok ''router''" "token_ok ''strategy''" "token_ok ''file''"
    by (simp_all add: token_ok_def)
  have "load_line c (join_from 0 [''map-addr'', t, u]) = Inl (Uncaught Invalid_Argument)"
    using assms * by (simp add: load_line_def tokenize_join load_map_def convert_addr_no_port)
  moreover have "load_line c (join_from 0 [''router'', t]) = Inl (Uncaught Invalid_Argument)"
    using assms * by (simp add: load_line_def tokenize_join load_router_def convert_addr_no_port)
  moreover have "load_line c (join_from 0 [''strategy'', ''file'']) =
      Inl (Undefined Out_Of_Bounds)"
    using assms *
    by (simp add: load_line_def tokenize_join load_strategy_def allowed_strategies_def)
  ultimately show ?thesis by blast
qed

theorem load_line_crashes_witness:
  "load_line init_config (join_from 0 [''map-addr'', ''10.0.0.1'', ''10.0.0.2:80'']) =
     Inl (Uncaught Invalid_Argument)"
  using load_line_crashes [of "''10.0.0.1''" "''10.0.0.2:80''" init_config]
  by (simp add: token_ok_def init_config_def)

text \<open>A \<^verbatim>\<open>node\<close> line that is accepted makes the node's name and address translate into each
  other: \<^verbatim>\<open>get_node_addr\<close> gives the address with no port, and \<^verbatim>\<open>get_node_name\<close> of that address
  gives the name whatever the port. A line that is not accepted changes nothing.\<close>

theorem load_node_lookup:
  assumes "load_line c line = Inr (c', st)" and "tokenize line = [''node'', n, ip]"
  shows "if st = Line_Ok
    then (\<exists>a. inet_aton ip = Some a \<and>
            get_node_addr c' n = \<lparr>sin_family = AF_INET, sin_port = 0, s_addr = a\<rparr> \<and>
            (\<forall>p f b. get_node_name c' \<lparr>sin_family = f, sin_port = p, s_addr = a\<rparr> b = n))
    else c' = c"
proof -
  have "ip \<in> set (tokenize line)" by (simp add: assms(2))
  then have "token_ok ip" by (rule tokenize_token_ok)
  then show ?thesis
    using assms load_line_frame [OF assms(1)]
    by (auto simp: load_line_node load_node_def convert_addr_plain getline_nth_token
        aton_or_zero_def get_node_addr_def get_node_name_def key_of_def
        split: if_splits option.splits)
qed

theorem load_node_lookup_witness:
  "\<exists>c'. load_line init_config ''node n1 10.1.1.1'' = Inr (c', Line_Ok) \<and>
     s_addr (get_node_addr c' ''n1'') = 0x0101010A"
proof -
  have t: "tokenize ''node n1 10.1.1.1'' = [''node'', ''n1'', ''10.1.1.1'']" by code_simp
  have i: "inet_aton ''10.1.1.1'' = Some 0x0101010A" by code_simp
  have "getline_nth 0 CHR '' '' ''10.1.1.1'' = ''10.1.1.1''" by (rule getline_nth_0_whole) simp
  then obtain c' where c': "load_line init_config ''node n1 10.1.1.1'' = Inr (c', Line_Ok)"
    by (simp add: load_line_node [OF t] load_node_def convert_addr_plain aton_or_zero_def i)
  show ?thesis using load_node_lookup [OF c' t] c' i by auto
qed

text \<open>The failure mark \<^verbatim>\<open>(in_port_t)-1\<close> is exact: in a loaded configuration
  \<^verbatim>\<open>get_node_addr\<close> returns a port of 0 for every known name and every dotted address, and the mark
  for everything else, so \<^verbatim>\<open>channel_t::ok\<close> and the checks of \<^verbatim>\<open>partition\<close> and \<^verbatim>\<open>send_cmd\<close> tell the
  two apart.\<close>

theorem get_node_addr_mark:
  assumes "config_ok c"
  shows "sin_port (get_node_addr c name) =
    (if node_to_addr c name = None \<and> inet_aton name = None then bad_port else 0)"
  using assms
  by (auto simp: get_node_addr_def config_ok_def zero_addr_def ran_def split: option.splits)

theorem get_node_addr_mark_witness:
  "sin_port (get_node_addr init_config ''nobody'') = bad_port"
proof -
  have "inet_aton ''nobody'' = None" by code_simp
  then show ?thesis
    using get_node_addr_mark [OF config_ok_init, of "''nobody''"] by (simp add: init_config_def)
qed

end
