(* ===== verification/Lib_Config.thy ===== *)
theory Lib_Config
  imports Concern Registry Router_Client Config_File
begin

text \<open>
  Start-up of the library: \<^verbatim>\<open>init_config_file\<close> of \<^verbatim>\<open>mysyscall/config.cpp\<close>, which reads the same file as
  the router does and fills the containers of theory \<open>Concern\<close>, and \<^verbatim>\<open>init_common\<close> of \<^verbatim>\<open>common.c\<close>, which
  runs it once. The last section relates the two readers of the file.
\<close>

section \<open>State\<close>

text \<open>\<^verbatim>\<open>is_inited\<close> is the static flag of \<^verbatim>\<open>init_config_file\<close>, \<open>warned\<close> collects the line numbers of the
  warnings.\<close>

record lib_state =
  lib_concern :: concern
  lib_router :: router_conn
  file_read :: bool
  warned :: "nat list"

definition lib_globals :: lib_state where
  "lib_globals = \<lparr>lib_concern = concern_globals, lib_router = router_conn_globals,
     file_read = False, warned = []\<rparr>"

section \<open>Reading the file\<close>

definition ignore_cmd :: "string set" where
  "ignore_cmd = {''node'', ''strategy''}"

text \<open>The effect of one line with its tokens, and whether it is accepted; \<open>at\<close> is the outcome of the
  connection attempt, should the line make one.\<close>

definition lib_line_cmd :: "conn_attempt \<Rightarrow> string list \<Rightarrow> lib_state \<Rightarrow> (lib_state \<times> bool) result" where
  "lib_line_cmd at tokens st =
     (if length tokens \<ge> 2 \<and> (tokens ! 0 = ''map-addr'' \<or> tokens ! 0 = ''map-cidr'')
      then and_then (concern_map_line (lib_concern st) (tokens ! 0 = ''map-addr'') (tokens ! 1))
        (\<lambda>(c, ok). Inr (st\<lparr>lib_concern := c\<rparr>, ok))
      else if length tokens \<ge> 2 \<and> tokens ! 0 = ''router''
      then and_then (connect_router at (tokens ! 1) (lib_router st))
        (\<lambda>(r, ok). Inr (st\<lparr>lib_router := r\<rparr>, ok))
      else Inr (st, False))"

definition lib_line :: "(nat \<Rightarrow> conn_attempt) \<Rightarrow> lib_state \<Rightarrow> nat \<times> string \<Rightarrow> lib_state result" where
  "lib_line attempts st nl =
     (case nl of (line_no, line) \<Rightarrow>
      case get_tokens line [] of (some, tokens) \<Rightarrow>
      if \<not> some \<or> tokens ! 0 \<in> ignore_cmd then Inr st
      else and_then (lib_line_cmd (attempts line_no) tokens st) (\<lambda>(st', ok).
        Inr (if ok then st' else st'\<lparr>warned := warned st' @ [line_no]\<rparr>)))"

definition numbered_lines :: "string \<Rightarrow> (nat \<times> string) list" where
  "numbered_lines text = (let ls = getline_all CHR 0x0A text in zip [1..<length ls + 1] ls)"

text \<open>\<open>env\<close> is \<^verbatim>\<open>getenv(CONFIG_FILE_ENV)\<close>, \<open>content\<close> what the file holds, \<open>None\<close> when it cannot be opened.\<close>

definition init_config_file ::
  "(nat \<Rightarrow> conn_attempt) \<Rightarrow> string option \<Rightarrow> string option \<Rightarrow> lib_state \<Rightarrow> lib_state result" where
  "init_config_file attempts env content st =
     (if file_read st \<or> env = None \<or> env = Some [] then Inr st
      else let st1 = st\<lparr>file_read := True\<rparr> in
        case content of
          None \<Rightarrow> Inr st1
        | Some text \<Rightarrow> run (lib_line attempts) st1 (numbered_lines text))"

text \<open>\<^verbatim>\<open>init_common\<close>: once, it copies the standard error to 1023 (\<open>dup2_ok\<close> says whether that succeeds, which the code
  does not look at), reads the file and names the summary entry of the table.\<close>

definition MY_STDERR_FILENO :: fd where "MY_STDERR_FILENO = 1023"

definition init_common ::
  "(nat \<Rightarrow> conn_attempt) \<Rightarrow> string option \<Rightarrow> string option \<Rightarrow> bool \<Rightarrow> bool \<times> registry \<times> lib_state \<Rightarrow>
     (bool \<times> registry \<times> lib_state) result" where
  "init_common attempts env content dup2_ok s =
     (case s of (inited, r, st) \<Rightarrow>
      if inited then Inr s
      else
        let st0 = (if dup2_ok then st\<lparr>lib_router := (lib_router st)\<lparr>lib_fds := insert MY_STDERR_FILENO (lib_fds (lib_router st))\<rparr>\<rparr>
                   else st)
        in and_then (init_config_file attempts env content st0) (\<lambda>st'.
          Inr (True, upd_func (NR_REG_FUNC_DICT - 1) (\<lambda>e. e\<lparr>rf_name := ''FUNCS''\<rparr>) r, st')))"

section \<open>What the lines of a file list\<close>

text \<open>The first address of every accepted \<^verbatim>\<open>map-addr\<close> (or \<^verbatim>\<open>map-cidr\<close>) line, as the library reads it.\<close>

definition listed :: "bool \<Rightarrow> string \<Rightarrow> addr_key set" where
  "listed is_addr line =
     (let ts = tokenize (c_str line) in
      if length ts \<ge> 2 \<and> ts ! 0 = (if is_addr then ''map-addr'' else ''map-cidr'') then
        (case convert_addr_lib (ts ! 1) (if is_addr then CHR '':'' else CHR ''/'') of
           Inr a \<Rightarrow> if sin_port a \<noteq> 0 then {key_of a} else {}
         | Inl _ \<Rightarrow> {})
      else {})"

lemma concern_map_line_listed:
  assumes "represents c A N" and "concern_map_line c b t = Inr (c', ok)"
    and "convert_addr_lib t (if b then CHR '':'' else CHR ''/'') = Inr a"
  shows "represents c'
    (A \<union> (if b \<and> sin_port a \<noteq> 0 then {key_of a} else {}))
    (N \<union> (if \<not> b \<and> sin_port a \<noteq> 0 then {key_of a} else {}))"
proof (cases "sin_port a = 0")
  case True
  then have "c' = c" using assms(2,3) by (simp add: concern_map_line_def)
  then show ?thesis using assms(1) True by simp
next
  case False
  show ?thesis
  proof (cases b)
    case True
    then have "c' = c\<lparr>concern_addr_set := insert (key_of a) (concern_addr_set c)\<rparr>"
      using assms(2,3) False by (simp add: concern_map_line_def)
    then show ?thesis using represents_put_addr [OF assms(1)] True False by simp
  next
    case b: False
    then have "c' = c\<lparr>subnet_suffix := om_put (subnet_suffix c) (key_port (key_of a)) (),
        concern_addr_set := insert (key_of a) (concern_addr_set c)\<rparr>"
      using assms(2,3) False by (simp add: concern_map_line_def)
    then show ?thesis
      using represents_put_net [OF assms(1) convert_addr_lib_net [of t a]] assms(3) b False by simp
  qed
qed

lemma lib_line_represents:
  assumes "represents (lib_concern st) A N" and "lib_line attempts st (n, line) = Inr st'"
  shows "represents (lib_concern st') (A \<union> listed True line) (N \<union> listed False line)"
proof -
  define ts where "ts = tokenize (c_str line)"
  have g: "get_tokens line [] = (ts \<noteq> [], ts)" by (simp add: get_tokens_def ts_def Let_def)
  have ne: "''map-addr'' \<notin> ignore_cmd" "''map-cidr'' \<notin> ignore_cmd" by (simp_all add: ignore_cmd_def)
  show ?thesis
  proof (cases "length ts \<ge> 2 \<and> (ts ! 0 = ''map-addr'' \<or> ts ! 0 = ''map-cidr'')")
    case False
    then have "listed True line = {}" "listed False line = {}"
      by (auto simp: listed_def ts_def [symmetric] Let_def)
    moreover have "lib_concern st' = lib_concern st"
    proof -
      have "lib_concern st2 = lib_concern st" if "lib_line_cmd at ts st = Inr (st2, ok)" for at st2 ok
        using that False by (auto simp: lib_line_cmd_def result_simps split: if_splits)
      then show ?thesis
        using assms(2) g by (fastforce simp: lib_line_def result_simps split: if_splits)
    qed
    ultimately show ?thesis using assms(1) by simp
  next
    case True
    then have "ts \<noteq> []" "ts ! 0 \<notin> ignore_cmd" using ne by auto
    then obtain c ok where c: "concern_map_line (lib_concern st) (ts ! 0 = ''map-addr'') (ts ! 1) = Inr (c, ok)"
      "lib_concern st' = c"
      using assms(2) g True by (auto simp: lib_line_def lib_line_cmd_def result_simps split: if_splits)
    then obtain a where a: "convert_addr_lib (ts ! 1) (if ts ! 0 = ''map-addr'' then CHR '':'' else CHR ''/'') = Inr a"
      by (auto simp: concern_map_line_def result_simps)
    have "listed True line = (if ts ! 0 = ''map-addr'' \<and> sin_port a \<noteq> 0 then {key_of a} else {})"
      "listed False line = (if ts ! 0 \<noteq> ''map-addr'' \<and> sin_port a \<noteq> 0 then {key_of a} else {})"
      using True a by (auto simp: listed_def ts_def [symmetric] Let_def)
    then show ?thesis using concern_map_line_listed [OF assms(1) c(1) a] c(2) by simp
  qed
qed

lemma lib_lines_represent:
  assumes "represents (lib_concern st) A N" and "run (lib_line attempts) st nls = Inr st'"
  shows "represents (lib_concern st') (A \<union> (\<Union>l \<in> snd ` set nls. listed True l))
    (N \<union> (\<Union>l \<in> snd ` set nls. listed False l))"
  using assms
proof (induction nls arbitrary: st A N)
  case Nil
  then show ?case by simp
next
  case (Cons nl nls)
  obtain n l where nl: "nl = (n, l)" by fastforce
  obtain s1 where s1: "lib_line attempts st (n, l) = Inr s1" "run (lib_line attempts) s1 nls = Inr st'"
    using Cons.prems(2) nl by (auto simp: result_simps)
  from Cons.IH [OF lib_line_represents [OF Cons.prems(1) s1(1)] s1(2)]
  show ?case by (simp add: nl Un_assoc)
qed

lemma snd_numbered_lines [simp]: "map snd (numbered_lines text) = getline_all CHR 0x0A text"
  by (simp add: numbered_lines_def Let_def map_snd_zip del: upt_Suc)

lemma lib_config_represents:
  assumes "init_config_file attempts (Some env) (Some text) lib_globals = Inr st" and "env \<noteq> []"
  shows "represents (lib_concern st) (\<Union>l \<in> set (getline_all CHR 0x0A text). listed True l)
    (\<Union>l \<in> set (getline_all CHR 0x0A text). listed False l)"
proof -
  have "snd ` set (numbered_lines text) = set (getline_all CHR 0x0A text)"
    by (metis set_map snd_numbered_lines)
  moreover have "run (lib_line attempts) (lib_globals\<lparr>file_read := True\<rparr>) (numbered_lines text) = Inr st"
    using assms by (simp add: init_config_file_def lib_globals_def)
  ultimately show ?thesis
    using lib_lines_represent [of "lib_globals\<lparr>file_read := True\<rparr>" "{}" "{}" attempts
        "numbered_lines text" st] represents_globals
    by (simp add: lib_globals_def)
qed

section \<open>The two readers of the file\<close>

lemma convert_addr_agree:
  "convert_addr t CHR '':'' = Inr a \<Longrightarrow> \<exists>b. convert_addr_lib t CHR '':'' = Inr b \<and> key_of b = key_of a"
  by (auto simp: convert_addr_def convert_addr_lib_def Let_def result_simps key_of_def)

lemma convert_cidr_agree:
  assumes "convert_addr t CHR ''/'' = Inr a" and "convert_addr_lib t CHR ''/'' = Inr b"
  shows "sin_port b = sin_port a \<and> (in_network (key_of b) (s_addr y) \<longleftrightarrow> rule_matches (key_of a) y)"
  using assms
  by (auto simp: convert_addr_def convert_addr_lib_def Let_def result_simps key_of_def in_network_def
      rule_matches_def addr_mask_def prefix_mask_eq and.assoc split: if_splits)

text \<open>Every rule of the router is covered by what the library has listed.\<close>

definition same_net :: "addr_key \<Rightarrow> addr_key \<Rightarrow> bool" where
  "same_net k' k \<longleftrightarrow> key_port k' = key_port k \<and> (\<forall>y. in_network k' (s_addr y) = rule_matches k y)"

definition covered :: "addr_key set \<Rightarrow> addr_key set \<Rightarrow> config \<Rightarrow> bool" where
  "covered A N c \<longleftrightarrow> fst ` set (addr_map c) \<subseteq> A \<and> (\<forall>k \<in> fst ` set (cidr_map c). \<exists>k' \<in> N. same_net k' k)"

lemma covered_mono: "covered A N c \<Longrightarrow> A \<subseteq> A' \<Longrightarrow> N \<subseteq> N' \<Longrightarrow> covered A' N' c"
  by (fastforce simp: covered_def)

lemma load_map_cases:
  assumes "load_map c b x y = Inr (c', s)"
  obtains "c' = c"
  | a v where "b" "convert_addr x CHR '':'' = Inr a" "sin_port a \<noteq> 0"
      "c' = c\<lparr>addr_map := om_put (addr_map c) (key_of a) v\<rparr>"
  | a v where "\<not> b" "convert_addr x CHR ''/'' = Inr a" "sin_port a \<noteq> 0"
      "c' = c\<lparr>cidr_map := om_put (cidr_map c) (key_of a) v\<rparr>"
  using assms by (cases b) (auto simp: load_map_def result_simps Let_def split: if_splits)

lemma load_line_maps:
  assumes "load_line c l = Inr (c', s)" and "addr_map c' \<noteq> addr_map c \<or> cidr_map c' \<noteq> cidr_map c"
  shows "length (tokenize l) = 3 \<and> (tokenize l ! 0 = ''map-addr'' \<or> tokenize l ! 0 = ''map-cidr'') \<and>
    load_map c (tokenize l ! 0 = ''map-addr'') (tokenize l ! 1) (tokenize l ! 2) = Inr (c', s)"
proof -
  have n: "addr_map c' = addr_map c \<and> cidr_map c' = cidr_map c"
    if "load_node c x y = Inr (c', s) \<or> load_strategy c ts = Inr (c', s) \<or> load_router c x = Inr (c', s)"
    for x y ts
    using that by (auto simp: load_node_def load_strategy_def load_router_def result_simps Let_def
        split: if_splits option.splits)
  show ?thesis
    using assms n unfolding load_line_def Let_def by (auto split: if_splits)
qed

lemma load_line_covered:
  assumes "covered A N c" and "load_line c l = Inr (c', s)" and "lib_line attempts st (n, l) = Inr st'"
    and "CHR 0x00 \<notin> set l"
  shows "covered (A \<union> listed True l) (N \<union> listed False l) c'"
proof (cases "addr_map c' = addr_map c \<and> cidr_map c' = cidr_map c")
  case True
  then have "covered A N c'" using assms(1) by (simp add: covered_def)
  then show ?thesis by (rule covered_mono) auto
next
  case False
  define ts where "ts = tokenize l"
  from load_line_maps [OF assms(2)] False have t: "length ts = 3"
    "ts ! 0 = ''map-addr'' \<or> ts ! 0 = ''map-cidr''"
    "load_map c (ts ! 0 = ''map-addr'') (ts ! 1) (ts ! 2) = Inr (c', s)"
    by (auto simp: ts_def)
  have cs: "c_str l = l" using assms(4) by (rule c_str_id)
  have g: "get_tokens l [] = (True, ts)" using t(1) by (auto simp: get_tokens_def cs ts_def Let_def)
  have ig: "ts ! 0 \<notin> ignore_cmd" using t(2) by (auto simp: ignore_cmd_def)
  obtain b where b: "convert_addr_lib (ts ! 1) (if ts ! 0 = ''map-addr'' then CHR '':'' else CHR ''/'') = Inr b"
    using assms(3) g ig t(1,2)
    by (auto simp: lib_line_def lib_line_cmd_def concern_map_line_def result_simps split: if_splits)
  from t(3) show ?thesis
  proof (cases rule: load_map_cases)
    case 1
    with False show ?thesis by simp
  next
    case (2 a v)
    then have "key_of b = key_of a" "sin_port b = sin_port a"
      using b convert_addr_agree by (fastforce simp: key_of_def)+
    then have "listed True l = {key_of a}"
      using 2 t(1) b by (simp add: listed_def cs ts_def [symmetric] Let_def)
    with 2 assms(1) show ?thesis by (auto simp: covered_def fst_set_om_put)
  next
    case (3 a v)
    then have ab: "sin_port b = sin_port a" "same_net (key_of b) (key_of a)"
      using b convert_cidr_agree [of "ts ! 1" a b] by (auto simp: same_net_def)
    then have "listed False l = {key_of b}"
      using 3 t(1,2) b by (auto simp: listed_def cs ts_def [symmetric] Let_def)
    with 3 assms(1) ab(2) show ?thesis by (auto simp: covered_def fst_set_om_put)
  qed
qed

lemma load_step_Inr: "load_step c l = Inr c1 \<longleftrightarrow> (\<exists>s. load_line c l = Inr (c1, s))"
  by (auto simp: load_step_def result_simps)

lemma run_covered:
  assumes "covered A N c" and "run load_step c (map snd nls) = Inr c'"
    and "run (lib_line attempts) st nls = Inr st'" and "\<forall>l \<in> snd ` set nls. CHR 0x00 \<notin> set l"
  shows "covered (A \<union> (\<Union>l \<in> snd ` set nls. listed True l)) (N \<union> (\<Union>l \<in> snd ` set nls. listed False l)) c'"
  using assms
proof (induction nls arbitrary: c A N st)
  case Nil
  then show ?case by simp
next
  case (Cons nl nls)
  obtain n l where nl: "nl = (n, l)" by fastforce
  obtain c1 s st1 where s: "load_line c l = Inr (c1, s)" "run load_step c1 (map snd nls) = Inr c'"
    "lib_line attempts st (n, l) = Inr st1" "run (lib_line attempts) st1 nls = Inr st'"
    using Cons.prems(2,3) nl by (auto simp: result_simps load_step_Inr)
  have "covered (A \<union> listed True l) (N \<union> listed False l) c1"
    using load_line_covered [OF Cons.prems(1) s(1,3)] Cons.prems(4) nl by simp
  from Cons.IH [OF this s(2,4)] Cons.prems(4) show ?case by (simp add: nl Un_assoc)
qed

lemma concerned_listed:
  assumes "represents c A N" and "sa_family a = AF_INET"
    and "Addr_Key (sa_addr a) (sa_port a) \<in> A \<or> (\<exists>k \<in> N. in_network k (sa_addr a))"
  shows "check_addr_is_concerned c a = Inr True"
proof -
  have "looked_up a = (sa_addr a, sa_port a)"
    using assms(2) by (simp add: looked_up_def AF_INET_def AF_INET6_def)
  then show ?thesis
    unfolding check_addr_eq [OF assms(1) disjI1 [OF assms(2)]] using assms(3) by auto
qed

section \<open>Properties\<close>

text \<open>After reading its configuration the library's containers hold exactly the addresses of the
  accepted \<^verbatim>\<open>map-addr\<close> lines and the networks of the accepted \<^verbatim>\<open>map-cidr\<close> lines, in any order and
  number, whatever other lines the file has.\<close>

theorem init_config_file_lists:
  assumes "init_config_file attempts (Some env) (Some text) lib_globals = Inr st" and "env \<noteq> []"
  shows "represents (lib_concern st) (\<Union>l \<in> set (getline_all CHR 0x0A text). listed True l)
    (\<Union>l \<in> set (getline_all CHR 0x0A text). listed False l)"
  by (rule lib_config_represents [OF assms])

definition no_attempt :: "nat \<Rightarrow> conn_attempt" where
  "no_attempt n = \<lparr>at_sock = - 1, at_connect_ok = False, at_dup2_ok = False\<rparr>"

definition example_text :: string where
  "example_text = ''map-addr 10.0.0.1:80 1.2.3.4:80'' @ CHR 0x0A # ''strategy cmd''"

lemma example_lines:
  "getline_all CHR 0x0A example_text = [''map-addr 10.0.0.1:80 1.2.3.4:80'', ''strategy cmd'']"
  by code_simp

lemma example_listed:
  "listed True ''map-addr 10.0.0.1:80 1.2.3.4:80'' = {Addr_Key 0x0100000A 0x5000}"
  "listed False ''map-addr 10.0.0.1:80 1.2.3.4:80'' = {}"
  "listed b ''strategy cmd'' = {}"
proof -
  have t: "tokenize (c_str ''map-addr 10.0.0.1:80 1.2.3.4:80'') =
      [''map-addr'', ''10.0.0.1:80'', ''1.2.3.4:80'']"
    "tokenize (c_str ''strategy cmd'') = [''strategy'', ''cmd'']"
    "convert_addr_lib ''10.0.0.1:80'' CHR '':'' = Inr \<lparr>sin_family = 0, sin_port = 0x5000, s_addr = 0x0100000A\<rparr>"
    by code_simp+
  then show "listed True ''map-addr 10.0.0.1:80 1.2.3.4:80'' = {Addr_Key 0x0100000A 0x5000}"
    "listed False ''map-addr 10.0.0.1:80 1.2.3.4:80'' = {}" "listed b ''strategy cmd'' = {}"
    by (simp_all add: listed_def key_of_def)
qed

lemma example_init: "\<exists>st. init_config_file no_attempt (Some ''f'') (Some example_text) lib_globals = Inr st"
proof -
  have g: "get_tokens ''map-addr 10.0.0.1:80 1.2.3.4:80'' [] =
      (True, [''map-addr'', ''10.0.0.1:80'', ''1.2.3.4:80''])"
    "get_tokens ''strategy cmd'' [] = (True, [''strategy'', ''cmd''])"
    "convert_addr_lib ''10.0.0.1:80'' CHR '':'' = Inr \<lparr>sin_family = 0, sin_port = 0x5000, s_addr = 0x0100000A\<rparr>"
    by code_simp+
  have "numbered_lines example_text = [(1, ''map-addr 10.0.0.1:80 1.2.3.4:80''), (2, ''strategy cmd'')]"
    by (simp add: numbered_lines_def example_lines upt_rec)
  then show ?thesis
    by (simp add: init_config_file_def lib_globals_def lib_line_def g ignore_cmd_def lib_line_cmd_def
        concern_map_line_def)
qed

theorem init_config_file_lists_witness:
  "\<exists>st. init_config_file no_attempt (Some ''f'') (Some example_text) lib_globals = Inr st \<and>
     represents (lib_concern st) {Addr_Key 0x0100000A 0x5000} {}"
proof -
  obtain st where st: "init_config_file no_attempt (Some ''f'') (Some example_text) lib_globals = Inr st"
    using example_init by blast
  from init_config_file_lists [OF st] st show ?thesis by (auto simp: example_lines example_listed)
qed

text \<open>C12: The router and the library read one file alike: when both get through it, every destination
  that the router would masquerade, by an exact rule or by the network rule that decides, is of concern
  for the library, so that the messages on such a connection carry the headers that the router expects.\<close>

theorem library_covers_router:
  assumes "load init_config env (Some text) = Inr c" and "env \<noteq> []" and "CHR 0x00 \<notin> set text"
    and "init_config_file attempts (Some env) (Some text) lib_globals = Inr st"
    and "om_find (addr_map c) (Addr_Key (sa_addr a) (sa_port a)) \<noteq> None \<or> cidr_rule c (view_in a) \<noteq> None"
    and "sa_family a = AF_INET"
  shows "check_addr_is_concerned (lib_concern st) a = Inr True"
proof -
  let ?ls = "getline_all CHR 0x0A text"
  let ?A = "\<Union>l \<in> set ?ls. listed True l" and ?N = "\<Union>l \<in> set ?ls. listed False l"
  have sn: "snd ` set (numbered_lines text) = set ?ls" by (metis set_map snd_numbered_lines)
  obtain c1 where c1: "run load_step init_config ?ls = Inr c1" "addr_map c = addr_map c1"
    "cidr_map c = cidr_map c1"
    using assms(1,2) by (auto simp: load_def result_simps split: if_splits)
  have "run (lib_line attempts) (lib_globals\<lparr>file_read := True\<rparr>) (numbered_lines text) = Inr st"
    using assms(2,4) by (simp add: init_config_file_def lib_globals_def)
  moreover have "\<forall>l \<in> snd ` set (numbered_lines text). CHR 0x00 \<notin> set l"
    using sn assms(3) getline_all_chars by blast
  moreover have "covered {} {} init_config" by (simp add: covered_def init_config_def)
  ultimately have cov: "covered ?A ?N c"
    using run_covered [of "{}" "{}" init_config "numbered_lines text" c1 attempts] c1 sn
    by (simp add: covered_def)
  note r = lib_config_represents [OF assms(4,2)]
  have net: "\<exists>k \<in> fst ` set (cidr_map c). rule_matches k (view_in a)"
    if rule: "cidr_rule c (view_in a) \<noteq> None"
  proof -
    obtain k v where "cidr_rule c (view_in a) = Some (k, v)" using rule by fastforce
    then have "(k, v) \<in> set (cidr_map c)" "rule_matches k (view_in a)"
      by (auto simp: cidr_rule_def find_Some_iff in_set_conv_nth)
    then show ?thesis by force
  qed
  have "Addr_Key (sa_addr a) (sa_port a) \<in> ?A \<or> (\<exists>k' \<in> ?N. in_network k' (sa_addr a))"
    using assms(5)
  proof
    assume "om_find (addr_map c) (Addr_Key (sa_addr a) (sa_port a)) \<noteq> None"
    then have "Addr_Key (sa_addr a) (sa_port a) \<in> fst ` set (addr_map c)"
      unfolding om_find_None_iff by (rule notnotD)
    then show ?thesis using cov unfolding covered_def by (blast dest: subsetD)
  next
    assume "cidr_rule c (view_in a) \<noteq> None"
    from net [OF this] obtain k k' where "rule_matches k (view_in a)" "k' \<in> ?N" "same_net k' k"
      using cov unfolding covered_def by blast
    moreover have "s_addr (view_in a) = sa_addr a" by (simp add: view_in_def)
    ultimately show ?thesis unfolding same_net_def by metis
  qed
  then show ?thesis by (rule concerned_listed [OF r assms(6)])
qed

theorem library_covers_router_witness:
  "\<exists>st. init_config_file no_attempt (Some ''f'') (Some example_text) lib_globals = Inr st \<and>
     check_addr_is_concerned (lib_concern st) (example_sa 0x0100000A 0x5000) = Inr True"
proof -
  obtain st where st: "init_config_file no_attempt (Some ''f'') (Some example_text) lib_globals = Inr st"
    using example_init by blast
  have "case load init_config ''f'' (Some example_text) of
      Inr c \<Rightarrow> om_find (addr_map c) (Addr_Key 0x0100000A 0x5000) \<noteq> None | Inl _ \<Rightarrow> False"
    by code_simp
  then obtain c where c: "load init_config ''f'' (Some example_text) = Inr c"
    "om_find (addr_map c) (Addr_Key 0x0100000A 0x5000) \<noteq> None"
    by (auto split: sum.splits)
  have "CHR 0x00 \<notin> set example_text" by (simp add: example_text_def)
  then show ?thesis
    using library_covers_router [OF c(1) _ _ st, of "example_sa 0x0100000A 0x5000"] c(2) st
    by (auto simp: example_sa_def)
qed

text \<open>The constructor runs once: a second call changes nothing, whatever the file says by then. The first one touches
  the summary entry of the table only.\<close>

lemma init_common_once:
  assumes "init_common attempts env content dup2_ok (False, r, st) = Inr s"
  shows "init_common attempts' env' content' dup2_ok' s = Inr s"
    "dict (fst (snd s)) nr = (if nr = NR_REG_FUNC_DICT - 1 then (dict r nr)\<lparr>rf_name := ''FUNCS''\<rparr> else dict r nr)"
  using assms by (auto simp: init_common_def Let_def result_simps upd_func_def)

end
