(* ===== verification/Early_Alloc.thy ===== *)
theory Early_Alloc
  imports Registry
begin

text \<open>
  \<^verbatim>\<open>mysyscall/mymallocfree.c\<close>: \<^verbatim>\<open>malloc\<close>, \<^verbatim>\<open>calloc\<close> and \<^verbatim>\<open>free\<close>. Until \<^verbatim>\<open>is_inited\<close> is set, memory comes from a
  static buffer of 81920 bytes that is never given back, because \<^verbatim>\<open>dlsym\<close> allocates while the real
  functions are not known yet. An early pointer is modelled as its offset into \<^verbatim>\<open>malloc_buffer\<close>; sizes
  are \<^verbatim>\<open>size_t\<close>, so that the rounding is the one of the code, with its wrap-around.
\<close>

definition MALLOC_SIZE :: u64 where "MALLOC_SIZE = 81920"

text \<open>\<^verbatim>\<open>malloc_ptr - malloc_buffer\<close>, the flag \<^verbatim>\<open>is_inited\<close>, the numbers from the registration, the table, and
  the pointers that the real \<^verbatim>\<open>free\<close> has been given.\<close>

record early =
  malloc_ptr :: u64
  is_inited :: bool
  lib_free :: nat
  lib_malloc :: nat
  lib_calloc :: nat
  ea_reg :: registry
  really_freed :: "u64 list"

text \<open>Where a pointer comes from: the buffer, at an offset, or the real allocator.\<close>

datatype memory = Early u64 | Real u64

definition early_bytes :: "u64 \<Rightarrow> u64" where
  "early_bytes n = (n AND NOT 0xf) + 0x10"

definition malloc :: "(u64 \<Rightarrow> u64) \<Rightarrow> u64 \<Rightarrow> early \<Rightarrow> early \<times> memory" where
  "malloc real_malloc n e =
     (if \<not> is_inited e then (e\<lparr>malloc_ptr := malloc_ptr e + early_bytes n\<rparr>, Early (malloc_ptr e))
      else (e\<lparr>ea_reg := snd (check_count_intercepted (lib_malloc e) (ea_reg e))\<rparr>, Real (real_malloc n)))"

definition calloc :: "(u64 \<Rightarrow> u64 \<Rightarrow> u64) \<Rightarrow> u64 \<Rightarrow> u64 \<Rightarrow> early \<Rightarrow> early \<times> memory" where
  "calloc real_calloc nmemb n e =
     (if \<not> is_inited e
      then (e\<lparr>malloc_ptr := malloc_ptr e + early_bytes (nmemb * n)\<rparr>, Early (malloc_ptr e))
      else (e\<lparr>ea_reg := snd (check_count_intercepted (lib_calloc e) (ea_reg e))\<rparr>,
            Real (real_calloc nmemb n)))"

text \<open>\<^verbatim>\<open>free(ptr)\<close>: pointers into the buffer are ignored; an early pointer past the end of the buffer is
  handed to the real \<^verbatim>\<open>free\<close>.\<close>

definition my_free :: "memory \<Rightarrow> early \<Rightarrow> early" where
  "my_free ptr e =
     (case ptr of
        Early off \<Rightarrow>
          if off < MALLOC_SIZE then e
          else e\<lparr>ea_reg := snd (check_count_intercepted (lib_free e) (ea_reg e)),
                 really_freed := really_freed e @ [off]\<rparr>
      | Real p \<Rightarrow> e\<lparr>ea_reg := snd (check_count_intercepted (lib_free e) (ea_reg e)),
                   really_freed := really_freed e @ [p]\<rparr>)"

text \<open>A history before the initialisation: allocations and frees.\<close>

datatype alloc_event = Malloc u64 | Calloc u64 u64 | Free memory

fun request_of :: "alloc_event \<Rightarrow> u64 option" where
  "request_of (Malloc n) = Some n"
| "request_of (Calloc m n) = Some (m * n)"
| "request_of (Free _) = None"

text \<open>The blocks handed out, as pairs of offset and requested size, oldest first.\<close>

fun early_run :: "early \<Rightarrow> alloc_event list \<Rightarrow> early \<times> (u64 \<times> u64) list" where
  "early_run e [] = (e, [])"
| "early_run e (Malloc n # es) =
     (let (e1, p) = malloc (\<lambda>_. 0) n e; (e2, bs) = early_run e1 es
      in (e2, (case p of Early off \<Rightarrow> [(off, n)] | Real _ \<Rightarrow> []) @ bs))"
| "early_run e (Calloc m n # es) =
     (let (e1, p) = calloc (\<lambda>_ _. 0) m n e; (e2, bs) = early_run e1 es
      in (e2, (case p of Early off \<Rightarrow> [(off, m * n)] | Real _ \<Rightarrow> []) @ bs))"
| "early_run e (Free p # es) = early_run (my_free p e) es"

section \<open>Lemmas\<close>

text \<open>The bytes that an allocation takes, as a number: at least the request, and a multiple of 16.\<close>

definition taken :: "alloc_event \<Rightarrow> nat" where
  "taken ev = (case request_of ev of None \<Rightarrow> 0 | Some n \<Rightarrow> unat n div 16 * 16 + 16)"

lemma unat_and_not_15: "unat (n AND NOT 0xf :: u64) = unat n div 16 * 16"
proof -
  have "n AND NOT 0xf = n AND NOT (mask 4)" by (simp add: mask_eq_exp_minus_1)
  also have "\<dots> = push_bit 4 (drop_bit 4 n)"
    by (rule bit_eqI) (auto simp: bit_simps)
  also have "unat \<dots> = unat n div 16 * 16"
  proof -
    have "unat n div 16 * 16 < 2 ^ 64" using unsigned_less [of n, where ?'a = nat] by simp
    then show ?thesis
      by (simp add: push_bit_eq_mult drop_bit_eq_div unat_mult_lem [THEN iffD1] unat_div unat_word_ariths)
  qed
  finally show ?thesis .
qed

lemma early_bytes_taken:
  assumes "request_of ev = Some n" and "unat p + taken ev < 2 ^ 64"
  shows "unat (p + early_bytes n) = unat p + taken ev"
proof -
  have t: "taken ev = unat n div 16 * 16 + 16" using assms(1) by (simp add: taken_def)
  have "unat (early_bytes n) = (unat (n AND NOT 0xf) + 16) mod 2 ^ 64"
    by (simp add: early_bytes_def unat_word_ariths)
  also have "\<dots> = taken ev" unfolding unat_and_not_15 using assms(2) t by simp
  finally have "unat (early_bytes n) = taken ev" .
  then show ?thesis using assms(2) by (simp add: unat_word_ariths)
qed

lemma taken_request: "request_of ev = Some n \<Longrightarrow> unat n < taken ev \<and> 16 dvd taken ev"
  by (simp add: taken_def)

definition disjoint_blocks :: "(u64 \<times> u64) list \<Rightarrow> bool" where
  "disjoint_blocks = sorted_wrt (\<lambda>(o1, n1) (o2, n2). unat o1 + unat n1 \<le> unat o2)"

definition blocks_within :: "nat \<Rightarrow> nat \<Rightarrow> (u64 \<times> u64) list \<Rightarrow> bool" where
  "blocks_within a b bs \<longleftrightarrow>
     (\<forall>(off, n) \<in> set bs. a \<le> unat off \<and> unat off + unat n \<le> b \<and> 16 dvd unat off)"

lemma early_run_blocks:
  assumes "early_run e evs = (e', bs)" and "\<not> is_inited e" and "16 dvd unat (malloc_ptr e)"
    and "unat (malloc_ptr e) + sum_list (map taken evs) \<le> unat MALLOC_SIZE"
  shows "unat (malloc_ptr e') = unat (malloc_ptr e) + sum_list (map taken evs) \<and> disjoint_blocks bs \<and>
    blocks_within (unat (malloc_ptr e)) (unat (malloc_ptr e')) bs \<and>
    map snd bs = map (the \<circ> request_of) (filter (\<lambda>ev. request_of ev \<noteq> None) evs)"
  using assms
proof (induction evs arbitrary: e e' bs)
  case Nil
  then show ?case by (simp add: disjoint_blocks_def blocks_within_def)
next
  case (Cons ev evs)
  show ?case
  proof (cases "request_of ev")
    case None
    then obtain p where p: "ev = Free p" by (cases ev) auto
    have "is_inited (my_free p e) = is_inited e" "malloc_ptr (my_free p e) = malloc_ptr e"
      by (simp_all add: my_free_def split: memory.splits)
    moreover have "early_run (my_free p e) evs = (e', bs)" "sum_list (map taken (ev # evs)) = sum_list (map taken evs)"
      using Cons.prems(1) p by (simp_all add: taken_def)
    ultimately show ?thesis using Cons.IH [of "my_free p e" e' bs] Cons.prems None by auto
  next
    case (Some n)
    define e1 where "e1 = e\<lparr>malloc_ptr := malloc_ptr e + early_bytes n\<rparr>"
    obtain bs1 where r: "early_run e1 evs = (e', bs1)" "bs = (malloc_ptr e, n) # bs1"
      using Cons.prems(1,2) Some
      by (cases ev) (auto simp: malloc_def calloc_def e1_def split: prod.splits)
    have p1: "unat (malloc_ptr e1) = unat (malloc_ptr e) + taken ev"
      using early_bytes_taken [OF Some] Cons.prems(4) by (simp add: e1_def MALLOC_SIZE_def)
    have "unat (malloc_ptr e') = unat (malloc_ptr e1) + sum_list (map taken evs) \<and> disjoint_blocks bs1 \<and>
        blocks_within (unat (malloc_ptr e1)) (unat (malloc_ptr e')) bs1 \<and>
        map snd bs1 = map (the \<circ> request_of) (filter (\<lambda>ev. request_of ev \<noteq> None) evs)"
      using Cons.prems p1 taken_request [OF Some] by (intro Cons.IH [OF r(1)]) (auto simp: e1_def)
    then show ?thesis
      using r(2) p1 taken_request [OF Some] Some Cons.prems(3)
      by (fastforce simp: disjoint_blocks_def blocks_within_def)
  qed
qed

section \<open>Properties\<close>

definition early_globals :: early where
  "early_globals = \<lparr>malloc_ptr = 0, is_inited = False, lib_free = 510, lib_malloc = 509,
     lib_calloc = 508, ea_reg = registry_globals, really_freed = []\<rparr>"

text \<open>C30: As long as the requests before the initialisation, each rounded up to the next multiple of 16
  that is larger, fit into the static buffer, every \<^verbatim>\<open>malloc\<close> and \<^verbatim>\<open>calloc\<close> gets a block of its own:
  inside the buffer, aligned to 16 bytes, of at least the requested size and disjoint from all others,
  however frees are interleaved; no byte is used twice.\<close>

theorem early_blocks_disjoint:
  assumes "early_run early_globals evs = (e', bs)" and "sum_list (map taken evs) \<le> unat MALLOC_SIZE"
  shows "disjoint_blocks bs \<and> blocks_within 0 (unat MALLOC_SIZE) bs \<and>
    map snd bs = map (the \<circ> request_of) (filter (\<lambda>ev. request_of ev \<noteq> None) evs)"
proof -
  have r: "unat (malloc_ptr e') = sum_list (map taken evs)" "disjoint_blocks bs"
      "blocks_within 0 (unat (malloc_ptr e')) bs"
      "map snd bs = map (the \<circ> request_of) (filter (\<lambda>ev. request_of ev \<noteq> None) evs)"
    using early_run_blocks [OF assms(1)] assms(2) by (auto simp: early_globals_def)
  have "blocks_within 0 (unat MALLOC_SIZE) bs"
    using r(3) assms(2) unfolding r(1) blocks_within_def by fastforce
  with r show ?thesis by blast
qed

theorem early_blocks_disjoint_witness:
  "\<exists>e'. early_run early_globals [Malloc 5, Free (Early 0), Calloc 4 8] = (e', [(0, 5), (16, 32)]) \<and>
     disjoint_blocks [(0, 5), (16, 32)]"
proof -
  have "snd (early_run early_globals [Malloc 5, Free (Early 0), Calloc 4 8]) = [(0, 5), (16, 32)]"
    by code_simp
  then obtain e' where r:
    "early_run early_globals [Malloc 5, Free (Early 0), Calloc 4 8] = (e', [(0, 5), (16, 32)])"
    by (metis prod.collapse)
  from early_blocks_disjoint [OF r] show ?thesis
    unfolding r by (simp add: taken_def MALLOC_SIZE_def)
qed

text \<open>The early allocator checks no bound and no overflow: a \<^verbatim>\<open>calloc\<close> whose product wraps gets a
  block of 16 bytes, and once 81920 bytes are used up it hands out memory behind the buffer, which
  \<^verbatim>\<open>free\<close> then passes to the real \<^verbatim>\<open>free\<close>.\<close>

theorem early_unchecked:
  "snd (early_run early_globals [Calloc 0x100000000 0x100000000, Malloc 81920, Malloc 8]) =
     [(0, 0), (16, 81920), (81952, 8)] \<and>
   really_freed (fst (early_run early_globals [Malloc 81920, Malloc 8, Free (Early 81936)])) = [81936]"
  by code_simp

end
