(* ===== verification/Printing.thy ===== *)
theory Printing
  imports C_Lib
begin

text \<open>
  The library's output, \<^verbatim>\<open>mysyscall/common.c\<close>: \<^verbatim>\<open>print_info_va\<close>, which formats into a buffer of 256
  bytes and writes with \<^verbatim>\<open>writev\<close>, and the two helpers for arguments in the builds that log,
  \<^verbatim>\<open>restrict_str_internal\<close> and \<^verbatim>\<open>binary_str_internal\<close>. What \<^verbatim>\<open>printf\<close> makes of a format and its arguments
  is the parameter \<open>text\<close>, the complete string.
\<close>

definition MAX_MSG_LEN :: nat where "MAX_MSG_LEN = 256"
definition MAX_STR_LEN :: nat where "MAX_STR_LEN = 64"

definition ESC :: char where "ESC = CHR 0x1B"

definition PRINT_PREFIX :: string where "PRINT_PREFIX = ''[MYSYSCALL] ''"
definition PRINT_PTRACER_PREFIX :: string where "PRINT_PTRACER_PREFIX = ''[ PTRACER ] ''"

record print_flags =
  no_prompt :: bool
  to_stderr :: bool
  ptracer :: bool

text \<open>\<^verbatim>\<open>vsnprintf(msg, sizeof(msg), ...)\<close>: the buffer holds what fits, with a terminator; the value is
  the length that the whole text would have.\<close>

definition vsnprintf :: "nat \<Rightarrow> string \<Rightarrow> string \<times> nat" where
  "vsnprintf n text = (take (n - 1) text @ [CHR 0x00], length text)"

text \<open>The first element of the vector. \<open>tty\<close> is \<^verbatim>\<open>isatty(STDERR_FILENO) == 1\<close>, remembered in a static
  variable.\<close>

definition prompt_of :: "print_flags \<Rightarrow> bool \<Rightarrow> string" where
  "prompt_of f tty =
     (let base = (if ptracer f then ESC # ''[1;32m'' @ PRINT_PTRACER_PREFIX @ ESC # ''[0m''
                  else ESC # ''[1;31m'' @ PRINT_PREFIX @ ESC # ''[0m'');
          len = (if ptracer f then 7 + length PRINT_PTRACER_PREFIX + 4 else 7 + length PRINT_PREFIX + 4)
      in if no_prompt f then []
         else if tty then take len base
         else take (len - 7 - 4) (drop 7 base))"

text \<open>\<^verbatim>\<open>print_info_va\<close>: the descriptor and the bytes written. The second element of the vector has the
  length that \<^verbatim>\<open>vsnprintf\<close> returned, whatever the buffer holds.\<close>

definition print_info_va :: "print_flags \<Rightarrow> bool \<Rightarrow> string \<Rightarrow> (int \<times> string) result" where
  "print_info_va f tty text =
     (case vsnprintf MAX_MSG_LEN text of (msg, n) \<Rightarrow>
        if n > MAX_MSG_LEN then Inl (Undefined Out_Of_Bounds)
        else Inr (if to_stderr f then 2 else 1023, prompt_of f tty @ take n msg))"

text \<open>\<^verbatim>\<open>strncpy(str_buf[which], buf, 64)\<close> into a zeroed buffer of 65 bytes.\<close>

definition restrict_str :: "string \<Rightarrow> string" where
  "restrict_str buf = take MAX_STR_LEN (c_str buf)"

text \<open>\<^verbatim>\<open>snprintf(\<dots>, 5, "\x%02X", ((const char * )buf)[i])\<close>: the \<^verbatim>\<open>char\<close> is signed and becomes an \<^verbatim>\<open>unsigned int\<close>
  for \<^verbatim>\<open>%X\<close>; at most four characters are kept.\<close>

definition hex_digit :: "int \<Rightarrow> char" where
  "hex_digit n = ''0123456789ABCDEF'' ! nat n"

fun hex_of :: "nat \<Rightarrow> int \<Rightarrow> string" where
  "hex_of 0 n = []"
| "hex_of (Suc k) n =
     (if n div 16 = 0 then [hex_digit n] else hex_of k (n div 16) @ [hex_digit (n mod 16)])"

definition hex_02 :: "int \<Rightarrow> string" where
  "hex_02 n = (let h = hex_of 8 n in if length h < 2 then CHR ''0'' # h else h)"

definition binary_byte :: "u8 \<Rightarrow> string" where
  "binary_byte b = take 4 (CHR 0x5C # CHR ''x'' # hex_02 (uint (scast b :: u32)))"

definition binary_str :: "u8 list \<Rightarrow> string" where
  "binary_str buf = concat (map binary_byte (take (MAX_STR_LEN div 4) buf))"

text \<open>\<^verbatim>\<open>my_entry\<close>, which runs when the library is started as a program: what it writes to which descriptor, and its exit
  status.\<close>

definition CONFIG_FILE_ENV :: string where "CONFIG_FILE_ENV = ''MYSYSCALL_CONFIG''"

definition my_entry :: "(int \<times> string) \<times> int" where
  "my_entry = ((2, ''Usage: env LD_PRELOAD=/path/to/libmysyscall.so ['' @ CONFIG_FILE_ENV @
     ''=CONFIG_FILE] COMMAND [ARGS]'' @ [CHR 0x0A]), 1)"

section \<open>Properties\<close>

text \<open>\<^verbatim>\<open>print_info_va\<close> writes the prompt and exactly the text for texts of at most 255 characters;
  a text of 256 characters loses its last one to the terminator, which is written instead; a longer
  text makes \<^verbatim>\<open>writev\<close> read beyond the buffer.\<close>

theorem print_info_bounds:
  "print_info_va f tty text =
     (if length text \<le> 255 then Inr (if to_stderr f then 2 else 1023, prompt_of f tty @ text)
      else if length text = 256
      then Inr (if to_stderr f then 2 else 1023, prompt_of f tty @ take 255 text @ [CHR 0x00])
      else Inl (Undefined Out_Of_Bounds))"
  by (auto simp: print_info_va_def vsnprintf_def MAX_MSG_LEN_def)

text \<open>Without a terminal the colour codes disappear and nothing else.\<close>

lemma prompt_of_plain:
  "prompt_of f False = (if no_prompt f then [] else if ptracer f then PRINT_PTRACER_PREFIX else PRINT_PREFIX)"
  by (simp add: prompt_of_def PRINT_PREFIX_def PRINT_PTRACER_PREFIX_def ESC_def Let_def)

lemma all_bytes:
  assumes "list_all (\<lambda>n. P (word_of_int n :: u8)) [lo..hi]" and "lo \<le> uint b" and "uint b \<le> hi"
  shows "P b"
proof -
  have "uint b \<in> set [lo..hi]" using assms(2,3) by simp
  then have "P (word_of_int (uint b))" using assms(1) unfolding list_all_iff by blast
  then show ?thesis by simp
qed

lemma binary_byte_ascii:
  "list_all (\<lambda>n. binary_byte (word_of_int n) =
     [CHR 0x5C, CHR ''x'', hex_digit (uint (word_of_int n :: u8) div 16),
      hex_digit (uint (word_of_int n :: u8) mod 16)]) [0..127]"
  by code_simp

lemma binary_byte_high:
  "list_all (\<lambda>n. binary_byte (word_of_int n) = [CHR 0x5C, CHR ''x'', CHR ''F'', CHR ''F'']) [128..255]"
  by code_simp

text \<open>The log's rendering of binary data is right for the bytes below 128 only: such a byte appears
  with its two hexadecimal digits, while every byte from 128 on appears as \<^verbatim>\<open>\xFF\<close>, because its
  sign is extended and the result cut.\<close>

theorem binary_str_bytes:
  "binary_str buf = concat (map (\<lambda>b. CHR 0x5C # CHR ''x'' #
      (if uint b \<le> 127 then [hex_digit (uint b div 16), hex_digit (uint b mod 16)] else ''FF''))
     (take 16 buf))"
proof -
  have "binary_byte b = CHR 0x5C # CHR ''x'' #
      (if uint b \<le> 127 then [hex_digit (uint b div 16), hex_digit (uint b mod 16)] else ''FF'')" for b
  proof (cases "uint b \<le> 127")
    case True
    then show ?thesis using all_bytes [OF binary_byte_ascii, of b] by simp
  next
    case False
    moreover have "uint b \<le> 255" using uint_lt2p [of b] by simp
    ultimately show ?thesis using all_bytes [OF binary_byte_high, of b] by simp
  qed
  then have "binary_byte = (\<lambda>b. CHR 0x5C # CHR ''x'' #
      (if uint b \<le> 127 then [hex_digit (uint b div 16), hex_digit (uint b mod 16)] else ''FF''))"
    by (rule ext)
  then show ?thesis by (simp add: binary_str_def MAX_STR_LEN_def)
qed

end
