(* ===== verification/Statistics.thy ===== *)
theory Statistics
  imports Registry Printing Address
begin

text \<open>
  What the library says about the calls it has seen: the texts of \<^verbatim>\<open>log_intercepted\<close> in the builds that
  log, \<^verbatim>\<open>print_statistics\<close>, which runs when the library is unloaded in the builds with
  \<^verbatim>\<open>PRINT_STATISTICS\<close>, and \<^verbatim>\<open>addr_to_str\<close> of \<^verbatim>\<open>config.cpp\<close>, which all these builds use for addresses. What
  \<^verbatim>\<open>printf\<close> makes of a caller's format and arguments is the parameter \<open>expand\<close>.
\<close>

section \<open>Numbers and columns of \<^verbatim>\<open>printf\<close>\<close>

definition show_int :: "int \<Rightarrow> string" where
  "show_int n = (if n < 0 then CHR ''-'' # to_string (- n) else to_string n)"

text \<open>\<^verbatim>\<open>%d\<close> and \<^verbatim>\<open>%ld\<close> of a \<^verbatim>\<open>uint64_t\<close>: the calling convention passes it in one register, of which \<^verbatim>\<open>%d\<close>
  reads the lower half.\<close>

definition fmt_d :: "nat \<Rightarrow> string" where
  "fmt_d n = show_int (sint (of_nat n :: u32))"

definition fmt_ld :: "nat \<Rightarrow> string" where
  "fmt_ld n = show_int (sint (of_nat n :: u64))"

text \<open>\<^verbatim>\<open>%*s\<close> and \<^verbatim>\<open>%-*s\<close> with a width.\<close>

definition pad_left :: "nat \<Rightarrow> string \<Rightarrow> string" where
  "pad_left w s = replicate (w - length s) CHR '' '' @ s"

definition pad_right :: "nat \<Rightarrow> string \<Rightarrow> string" where
  "pad_right w s = s @ replicate (w - length s) CHR '' ''"

section \<open>\<^verbatim>\<open>log_intercepted\<close> in the builds that log\<close>

text \<open>The format that \<^verbatim>\<open>print_info_va\<close> gets: the counters and the caller's format, cut to what fits into
  \<^verbatim>\<open>format_buf\<close>. The format \<open>None\<close> is \<^verbatim>\<open>NULL\<close>.\<close>

definition log_format :: "registry \<Rightarrow> nat \<Rightarrow> string option \<Rightarrow> string" where
  "log_format r nr fmt =
     (let body = (case fmt of None \<Rightarrow> rf_name (dict r nr) | Some f \<Rightarrow> c_str f);
          text = ''Call '' @ fmt_ld (concerned_count (dict r nr)) @ ''/'' @ fmt_ld (rf_count (dict r nr)) @
            '', '' @ body @ [CHR 0x0A]
      in c_str (fst (vsnprintf MAX_MSG_LEN text)))"

definition plain_flags :: print_flags where
  "plain_flags = \<lparr>no_prompt = False, to_stderr = False, ptracer = False\<rparr>"

text \<open>\<open>first\<close> says that the build has \<^verbatim>\<open>PRINT_FIRST_USAGE\<close> and not \<^verbatim>\<open>PRINT_EVERY_USAGE\<close>; the second component is
  what is written.\<close>

definition log_intercepted_printing ::
  "bool \<Rightarrow> (string \<Rightarrow> string) \<Rightarrow> bool \<Rightarrow> nat \<Rightarrow> string option \<Rightarrow> registry \<Rightarrow>
     (registry \<times> (int \<times> string) option) result" where
  "log_intercepted_printing first expand tty nr fmt r =
     (if \<not> check_intercept r nr then Inr (r, None)
      else let r1 = count_concerned nr r in
        if first \<and> rf_count (dict r1 nr) \<noteq> 1 then Inr (r1, None)
        else and_then (print_info_va plain_flags tty (expand (log_format r1 nr fmt)))
          (\<lambda>out. Inr (r1, Some out)))"

section \<open>\<^verbatim>\<open>print_statistics\<close>\<close>

definition stat_header :: "registry \<Rightarrow> string" where
  "stat_header r = ''    '' @ pad_left (max_func_name_len r) ''NAME'' @ ''  '' @
     pad_right 10 ''CONCERNED'' @ '' '' @ ''TOTAL'' @ [CHR 0x0A]"

definition stat_row :: "registry \<Rightarrow> nat \<Rightarrow> string" where
  "stat_row r i = ''  - '' @ pad_left (max_func_name_len r) (rf_name (dict r i)) @ ''  '' @
     pad_right 10 (fmt_d (concerned_count (dict r i))) @ '' '' @ fmt_d (rf_count (dict r i)) @ [CHR 0x0A]"

definition stat_shown :: "registry \<Rightarrow> nat \<Rightarrow> bool" where
  "stat_shown r i \<longleftrightarrow> rf_count (dict r i) \<noteq> 0 \<or> check_intercept r i"

fun stat_rows :: "registry \<Rightarrow> nat list \<Rightarrow> string list" where
  "stat_rows r [] = []"
| "stat_rows r (i # is) = (if stat_shown r i then stat_row r i # stat_rows r is else stat_rows r is)"

fun print_all :: "print_flags \<Rightarrow> bool \<Rightarrow> string list \<Rightarrow> string result" where
  "print_all f tty [] = Inr []"
| "print_all f tty (t # ts) =
     and_then (print_info_va f tty t) (\<lambda>(_, out). and_then (print_all f tty ts) (\<lambda>rest. Inr (out @ rest)))"

text \<open>What is written to the descriptor 1023.\<close>

definition print_statistics :: "bool \<Rightarrow> registry \<Rightarrow> string result" where
  "print_statistics tty r =
     and_then (print_info_va plain_flags tty (''STATISTICS'' @ [CHR 0x0A])) (\<lambda>(_, out).
       and_then (print_all (plain_flags\<lparr>no_prompt := True\<rparr>) tty
           (stat_header r # stat_rows r [0..<NR_REG_FUNC_DICT])) (\<lambda>rest.
         Inr (out @ rest)))"

section \<open>\<^verbatim>\<open>addr_to_str\<close>\<close>

text \<open>\<open>logging\<close> says whether the build logs, \<open>v6\<close> is what \<^verbatim>\<open>inet_ntop\<close> gives for an address of the family
  \<^verbatim>\<open>AF_INET6\<close>. Without logging \<^verbatim>\<open>restrict_str_internal\<close> returns its argument, here the local buffer.\<close>

definition addr_to_str :: "bool \<Rightarrow> string \<Rightarrow> sockaddr_in \<Rightarrow> string \<Rightarrow> string result" where
  "addr_to_str logging v6 a delim =
     (let ip = (if sin_family a = AF_INET6 then v6 else inet_ntoa (s_addr a));
          port = (if delim ! 0 = CHR '':'' then ntohs (sin_port a) else sin_port a);
          addr_buf = ip @ delim @ to_string (uint port)
      in if logging then Inr (restrict_str addr_buf) else Inl (Undefined Dangling))"

section \<open>Lemmas\<close>

lemma length_pad_left: "length s \<le> w \<Longrightarrow> length (pad_left w s) = w"
  by (simp add: pad_left_def)

lemma length_pad_right: "length s \<le> w \<Longrightarrow> length (pad_right w s) = w"
  by (simp add: pad_right_def)

lemma fmt_d_small: "n < 2 ^ 31 \<Longrightarrow> fmt_d n = to_string (int n)"
  by (simp add: fmt_d_def show_int_def sint_uint unsigned_of_nat signed_take_bit_int_eq_self
      take_bit_nat_eq_self)

lemma fmt_ld_small: "n < 2 ^ 63 \<Longrightarrow> fmt_ld n = to_string (int n)"
  by (simp add: fmt_ld_def show_int_def sint_uint unsigned_of_nat signed_take_bit_int_eq_self
      take_bit_nat_eq_self)

lemma length_fmt_d: "n < 2 ^ 31 \<Longrightarrow> length (fmt_d n) \<le> 10"
  using length_to_string [of "int n" 9] by (simp add: fmt_d_small)

lemma stat_rows_filter: "stat_rows r is = map (stat_row r) (filter (stat_shown r) is)"
  by (induction "is") simp_all

lemma print_all_fits:
  "\<forall>t \<in> set ts. length t \<le> 255 \<Longrightarrow> no_prompt f \<Longrightarrow> print_all f tty ts = Inr (concat ts)"
  by (induction ts) (simp_all add: print_info_va_def vsnprintf_def MAX_MSG_LEN_def prompt_of_def Let_def)

lemma restrict_str_id: "CHR 0x00 \<notin> set s \<Longrightarrow> length s \<le> 64 \<Longrightarrow> restrict_str s = s"
  by (simp add: restrict_str_def MAX_STR_LEN_def c_str_id)

lemma length_to_string_u8: "length (to_string (uint (b :: u8))) \<le> 3"
  using length_to_string [of "uint b" 2] uint_lt2p [of b] by simp

lemma length_to_string_u16: "length (to_string (uint (p :: u16))) \<le> 5"
  using length_to_string [of "uint p" 4] uint_lt2p [of p] by simp

lemma length_inet_ntoa: "length (inet_ntoa a) \<le> 15"
proof -
  obtain p q r s where m: "mem_of_u32 a = [p, q, r, s]" by (simp add: mem_of_u32_def)
  show ?thesis
    using length_to_string_u8 [of p] length_to_string_u8 [of q] length_to_string_u8 [of r]
      length_to_string_u8 [of s]
    by (simp add: inet_ntoa_def m)
qed

lemma inet_ntoa_no_zero: "CHR 0x00 \<notin> set (inet_ntoa a)"
  using inet_ntoa_chars [of "CHR 0x00" a] by (auto simp: is_digit_def char_code_def)

section \<open>Properties\<close>

text \<open>The builds that log change the table exactly as the default build does.\<close>

theorem logging_counts_alike:
  "log_intercepted_printing first expand tty nr fmt r = Inr (r', out) \<Longrightarrow> r' = log_intercepted nr r"
  by (auto simp: log_intercepted_printing_def log_intercepted_def Let_def result_simps split: if_splits)

text \<open>The columns of the statistics are aligned: as long as the counters fit into an \<^verbatim>\<open>int\<close> and the name is not
  longer than the longest registered one, a row's total starts exactly below the word \<^verbatim>\<open>TOTAL\<close> and is the
  counter.\<close>

theorem statistics_columns:
  assumes "4 \<le> max_func_name_len r" and "length (rf_name (dict r i)) \<le> max_func_name_len r"
    and "rf_count (dict r i) < 2 ^ 31" and "concerned_count (dict r i) < 2 ^ 31"
  shows "\<exists>a b. stat_header r = a @ ''TOTAL'' @ [CHR 0x0A] \<and>
     stat_row r i = b @ to_string (int (rf_count (dict r i))) @ [CHR 0x0A] \<and> length a = length b"
proof (intro exI conjI)
  show "stat_header r = (''    '' @ pad_left (max_func_name_len r) ''NAME'' @ ''  '' @
      pad_right 10 ''CONCERNED'' @ '' '') @ ''TOTAL'' @ [CHR 0x0A]"
    by (simp add: stat_header_def)
  show "stat_row r i = (''  - '' @ pad_left (max_func_name_len r) (rf_name (dict r i)) @ ''  '' @
      pad_right 10 (fmt_d (concerned_count (dict r i))) @ '' '') @
      to_string (int (rf_count (dict r i))) @ [CHR 0x0A]"
    by (simp add: stat_row_def fmt_d_small [OF assms(3)])
qed (use assms in \<open>simp add: length_pad_left length_pad_right length_fmt_d\<close>)

text \<open>A counter of 2147483648 calls is printed as a negative number.\<close>

lemma fmt_d_wraps: "fmt_d 2147483648 = ''-2147483648''"
  by (simp add: fmt_d_def show_int_def) code_simp

text \<open>With names of at most 31 characters and counters that fit, \<^verbatim>\<open>print_statistics\<close> writes the header and one row
  for each function that is intercepted or was called, in the order of the table, and never leaves its
  buffer.\<close>

theorem statistics_written:
  assumes "max_func_name_len r \<le> 200"
    and "\<forall>i < NR_REG_FUNC_DICT. length (rf_name (dict r i)) \<le> 31 \<and>
       rf_count (dict r i) < 2 ^ 31 \<and> concerned_count (dict r i) < 2 ^ 31"
  shows "print_statistics tty r = Inr (prompt_of plain_flags tty @ ''STATISTICS'' @ [CHR 0x0A] @ stat_header r @
     concat (map (stat_row r) (filter (stat_shown r) [0..<NR_REG_FUNC_DICT])))"
proof -
  have row: "length (stat_row r i) \<le> 255" if "i < NR_REG_FUNC_DICT" for i
  proof -
    have name: "length (rf_name (dict r i)) \<le> 31" using assms(2) that by blast
    have "length (pad_left (max_func_name_len r) (rf_name (dict r i))) \<le> 200"
      using assms(1) name by (simp add: pad_left_def)
    moreover have "length (fmt_d (rf_count (dict r i))) \<le> 10"
      "length (pad_right 10 (fmt_d (concerned_count (dict r i)))) = 10"
      using assms(2) that by (simp_all add: length_fmt_d length_pad_right)
    ultimately show ?thesis by (simp add: stat_row_def)
  qed
  have "length (stat_header r) \<le> 255" using assms(1) by (simp add: stat_header_def pad_left_def pad_right_def)
  then have "\<forall>t \<in> set (stat_header r # stat_rows r [0..<NR_REG_FUNC_DICT]). length t \<le> 255"
    using row by (auto simp: stat_rows_filter)
  then have "print_all (plain_flags\<lparr>no_prompt := True\<rparr>) tty (stat_header r # stat_rows r [0..<NR_REG_FUNC_DICT]) =
      Inr (concat (stat_header r # stat_rows r [0..<NR_REG_FUNC_DICT]))"
    by (rule print_all_fits) simp
  moreover have "print_info_va plain_flags tty (''STATISTICS'' @ [CHR 0x0A]) =
      Inr (1023, prompt_of plain_flags tty @ ''STATISTICS'' @ [CHR 0x0A])"
    by (simp add: print_info_va_def vsnprintf_def MAX_MSG_LEN_def plain_flags_def)
  ultimately show ?thesis by (simp add: print_statistics_def stat_rows_filter)
qed

text \<open>In a build that logs, an address is printed in full, and the library reads it back from a \<^verbatim>\<open>map-addr\<close> line as
  the same address; in the default build the result points to a buffer that no longer exists.\<close>

theorem addr_to_str_read_back:
  assumes "sin_family a \<noteq> AF_INET6"
  shows "addr_to_str True v6 a '':'' = Inr s \<Longrightarrow>
       \<exists>b. convert_addr_lib s CHR '':'' = Inr b \<and> key_of b = key_of a"
    and "addr_to_str False v6 a '':'' = Inl (Undefined Dangling)"
proof -
  let ?p = "to_string (uint (ntohs (sin_port a)))"
  have "restrict_str (inet_ntoa (s_addr a) @ '':'' @ ?p) = inet_ntoa (s_addr a) @ '':'' @ ?p"
    using length_inet_ntoa [of "s_addr a"] length_to_string_u16 [of "ntohs (sin_port a)"]
    by (intro restrict_str_id) (auto simp: inet_ntoa_no_zero zero_not_in_to_string)
  moreover assume "addr_to_str True v6 a '':'' = Inr s"
  ultimately have s: "s = inet_ntoa (s_addr a) @ CHR '':'' # ?p"
    using assms by (simp add: addr_to_str_def Let_def)
  have d: "CHR '':'' \<notin> set (inet_ntoa (s_addr a))" "CHR '':'' \<notin> set ?p"
    by (simp_all add: inet_ntoa_no_delim to_string_no_delim)
  show "\<exists>b. convert_addr_lib s CHR '':'' = Inr b \<and> key_of b = key_of a"
    using d by (simp add: s convert_addr_lib_def Let_def getline_nth_0 getline_nth_1 stoi_to_string
        uint_u16_bounds aton_or_zero_def inet_aton_ntoa key_of_def)
qed (simp add: addr_to_str_def Let_def)

end
