(* ===== verification/Ptracer.thy ===== *)
theory Ptracer
  imports Statistics
begin

text \<open>
  \<^verbatim>\<open>main\<close> of \<^verbatim>\<open>mysyscall/ptracer.c\<close>, the starter of a program under \<^verbatim>\<open>ptrace\<close>: it prepares the table (\<open>ptracer_init\<close>
  of theory \<open>Registry\<close>), forks, executes the program in the child and stops in the parent. What \<^verbatim>\<open>fork\<close> and
  \<^verbatim>\<open>execvp\<close> answer and the text of \<^verbatim>\<open>strerror\<close> are arguments.
\<close>

datatype forked = Fork_Error | In_Child | In_Parent

text \<open>How the process goes on: it ends with a code, it is aborted, or it becomes another program with its
  arguments, traced or not.\<close>

datatype ptracer_end = Exits int | Aborts | Becomes string "string list" bool

definition ptracer_flags :: print_flags where
  "ptracer_flags = \<lparr>no_prompt = False, to_stderr = False, ptracer = True\<rparr>"

text \<open>The texts of \<^verbatim>\<open>init\<close>, in the order of its loop.\<close>

definition unregister_text :: "string \<Rightarrow> string" where
  "unregister_text name =
     ''Unregister not supported library function '' @ [CHR 0x22] @ name @ [CHR 0x22, CHR 0x0A]"

fun ptracer_loop_texts :: "nat list \<Rightarrow> registry \<Rightarrow> string list" where
  "ptracer_loop_texts [] r = []"
| "ptracer_loop_texts (i # is) r =
     (if check_intercept r i then
        (if rf_state (dict r i) AND STATE_LIBRARY \<noteq> 0
         then unregister_text (rf_name (dict r i)) # ptracer_loop_texts is (unregister_intercepted i r)
         else ptracer_loop_texts is (upd_func i (\<lambda>e. e\<lparr>rf_state := rf_state e OR STATE_PTRACE\<rparr>) r))
      else ptracer_loop_texts is r)"

definition ptracer_init_texts :: "registry \<Rightarrow> string list" where
  "ptracer_init_texts r = ptracer_loop_texts [0..<NR_REG_FUNC_DICT] r @
     [''Registered '' @ fmt_d (snd (ptracer_init r)) @ '' syscall interceptions'' @ [CHR 0x0A]]"

text \<open>What the process prints and what becomes of it; \<open>traceable\<close> says whether \<^verbatim>\<open>PTRACE_TRACEME\<close> succeeds, which the
  code does not look at. The first argument is read without a test when there is none at all.\<close>

definition ptracer_run ::
  "string list \<Rightarrow> forked \<Rightarrow> bool \<Rightarrow> bool \<Rightarrow> string \<Rightarrow> registry \<Rightarrow>
     (string list \<times> ptracer_end \<times> registry) result" where
  "ptracer_run argv f traceable exec_ok err r =
     (if length argv \<le> 1 then
        (if argv = [] then Inl (Undefined Null_Deref)
         else Inr ([''Usage: '' @ argv ! 0 @ '' COMMAND [ARGS]'' @ [CHR 0x0A]], Exits 1, r))
      else
        (let texts = ptracer_init_texts r; r1 = fst (ptracer_init r) in
         case f of
           Fork_Error \<Rightarrow> Inr (texts @ [''Failed to fork: '' @ err @ [CHR 0x0A]], Exits 1, r1)
         | In_Child \<Rightarrow>
             (if exec_ok then Inr (texts, Becomes (argv ! 1) (drop 1 argv) traceable, r1)
              else Inr (texts @ [''Failed to execvp '' @ err @ [CHR 0x0A]], Exits 1, r1))
         | In_Parent \<Rightarrow> Inr (texts @ [''Ptracer is currently not implemented!'' @ [CHR 0x0A]], Aborts, r1)))"

text \<open>The whole program with its output.\<close>

definition ptracer_main ::
  "bool \<Rightarrow> string list \<Rightarrow> forked \<Rightarrow> bool \<Rightarrow> bool \<Rightarrow> string \<Rightarrow> registry \<Rightarrow>
     (string \<times> ptracer_end \<times> registry) result" where
  "ptracer_main tty argv f traceable exec_ok err r =
     and_then (ptracer_run argv f traceable exec_ok err r) (\<lambda>(texts, e, r1).
       and_then (print_all ptracer_flags tty texts) (\<lambda>out. Inr (out, e, r1)))"

section \<open>Lemmas\<close>

lemma ptracer_loop_texts_filter:
  "distinct is \<Longrightarrow> ptracer_loop_texts is r =
     map (\<lambda>i. unregister_text (rf_name (dict r i)))
       (filter (\<lambda>i. bit (rf_state (dict r i)) 0 \<and> bit (rf_state (dict r i)) 2) is)"
proof (induction "is" r rule: ptracer_loop_texts.induct)
  case (2 i "is" r)
  let ?T = "\<lambda>r. map (\<lambda>j. unregister_text (rf_name (dict r j)))
      (filter (\<lambda>j. bit (rf_state (dict r j)) 0 \<and> bit (rf_state (dict r j)) 2) is)"
  have f: "?T (upd_func i g r) = ?T r" for g
  proof -
    have "dict (upd_func i g r) j = dict r j" if "j \<in> set is" for j using "2.prems" that by auto
    then show ?thesis by (simp cong: filter_cong map_cong del: dict_upd_func)
  qed
  have "distinct is" "i \<notin> set is" using "2.prems" by simp_all
  then show ?case
    using "2.IH" by (simp add: check_intercept_bit unregister_intercepted_def f del: dict_upd_func)
qed simp

section \<open>Properties\<close>

text \<open>A library function that is intercepted is named in the output and is no longer intercepted in the program that
  the child executes; the parent aborts whatever the child does, so that nobody answers the stops of
  the child.\<close>

theorem ptracer_program:
  assumes "ptracer_run argv f traceable exec_ok err r = Inr (texts, e, r1)" and "1 < length argv"
  shows "(\<forall>i < NR_REG_FUNC_DICT. check_intercept r i \<and> bit (rf_state (dict r i)) 2 \<longrightarrow>
      unregister_text (rf_name (dict r i)) \<in> set texts \<and> \<not> check_intercept r1 i)"
    and "e = Becomes cmd args t \<longleftrightarrow> f = In_Child \<and> exec_ok \<and> cmd = argv ! 1 \<and> args = drop 1 argv \<and> t = traceable"
    and "f = In_Parent \<Longrightarrow> e = Aborts"
proof -
  obtain n where p: "ptracer_init r = (r1, n)"
    using assms by (cases "ptracer_init r") (auto simp: ptracer_run_def Let_def split: forked.splits if_splits)
  have "set (ptracer_init_texts r) \<subseteq> set texts"
    using assms by (auto simp: ptracer_run_def Let_def split: forked.splits if_splits)
  moreover have "unregister_text (rf_name (dict r i)) \<in> set (ptracer_init_texts r)"
    if "i < NR_REG_FUNC_DICT" "bit (rf_state (dict r i)) 0" "bit (rf_state (dict r i)) 2" for i
    using that by (auto simp: ptracer_init_texts_def ptracer_loop_texts_filter)
  moreover have "\<not> check_intercept r1 i" if "i < NR_REG_FUNC_DICT" "bit (rf_state (dict r i)) 2" for i
  proof -
    have "rf_state (dict r1 i) = ptracer_state (rf_state (dict r i))"
      using ptracer_loop_spec [OF _ p [unfolded ptracer_init_def]] that(1) by simp
    then show ?thesis using that(2) by (simp add: check_intercept_bit ptracer_state_def bit_simps)
  qed
  ultimately show "\<forall>i < NR_REG_FUNC_DICT. check_intercept r i \<and> bit (rf_state (dict r i)) 2 \<longrightarrow>
      unregister_text (rf_name (dict r i)) \<in> set texts \<and> \<not> check_intercept r1 i"
    by (auto simp: check_intercept_bit)
qed (use assms in \<open>auto simp: ptracer_run_def Let_def split: forked.splits if_splits\<close>)

text \<open>A call without a command says how to use the program and changes nothing; a name of the program that is too
  long for the buffer of \<^verbatim>\<open>print_info_va\<close> makes it write beyond the buffer's end.\<close>

theorem ptracer_usage:
  "ptracer_main tty [name] f traceable exec_ok err r =
     (if length name \<le> 232 then Inr (prompt_of ptracer_flags tty @ ''Usage: '' @ name @ '' COMMAND [ARGS]'' @ [CHR 0x0A],
        Exits 1, r)
      else if length name = 233
      then Inr (prompt_of ptracer_flags tty @ ''Usage: '' @ name @ '' COMMAND [ARGS]'' @ [CHR 0x00], Exits 1, r)
      else Inl (Undefined Out_Of_Bounds))"
  by (auto simp: ptracer_main_def ptracer_run_def print_info_va_def vsnprintf_def MAX_MSG_LEN_def ptracer_flags_def)

end
