(* ===== verification/Queue_Api.thy ===== *)
theory Queue_Api
  imports Prelude
begin

text \<open>
  The queue that the router uses for commands and for messages,
  \<^verbatim>\<open>moodycamel::BlockingReaderWriterQueue\<close>, comes from a header outside the repository. It is a
  parameter of the model: the four operations the code calls are the fields of \<open>queue_ops\<close>, and
  \<open>fifo\<close> states the documented behaviour that the theorems rely on, with an abstraction of a queue
  to the list of its elements, oldest first. A blocked call is seen once nobody else fills the queue:
  \<open>q_deq\<close> answers \<open>None\<close> for a queue that stays empty, which is a time-out for \<^verbatim>\<open>wait_dequeue_timed\<close>, a
  failure for \<^verbatim>\<open>pop\<close> and waiting for ever for \<^verbatim>\<open>wait_dequeue\<close>.
\<close>

record ('q, 'a) queue_ops =
  q_empty :: 'q
  q_enq :: "'q \<Rightarrow> 'a \<Rightarrow> 'q"              \<comment> \<open>\<^verbatim>\<open>enqueue\<close>\<close>
  q_deq :: "'q \<Rightarrow> ('a \<times> 'q) option"     \<comment> \<open>\<^verbatim>\<open>wait_dequeue_timed\<close>, \<^verbatim>\<open>wait_dequeue\<close>, \<^verbatim>\<open>pop\<close>\<close>
  q_size :: "'q \<Rightarrow> nat"                  \<comment> \<open>\<^verbatim>\<open>size_approx\<close>; \<^verbatim>\<open>peek\<close> is null for size 0\<close>

definition fifo :: "('q, 'a) queue_ops \<Rightarrow> ('q \<Rightarrow> 'a list) \<Rightarrow> bool" where
  "fifo Q cont \<longleftrightarrow>
     cont (q_empty Q) = [] \<and>
     (\<forall>q a. cont (q_enq Q q a) = cont q @ [a]) \<and>
     (\<forall>q. cont q = [] \<longrightarrow> q_deq Q q = None) \<and>
     (\<forall>q a as. cont q = a # as \<longrightarrow> (\<exists>q'. q_deq Q q = Some (a, q') \<and> cont q' = as)) \<and>
     (\<forall>q. q_size Q q = length (cont q))"

definition list_queue :: "('a list, 'a) queue_ops" where
  "list_queue = \<lparr>q_empty = [], q_enq = (\<lambda>q a. q @ [a]),
     q_deq = (\<lambda>q. case q of [] \<Rightarrow> None | a # as \<Rightarrow> Some (a, as)), q_size = length\<rparr>"

lemma fifo_list_queue: "fifo list_queue id"
  by (simp add: fifo_def list_queue_def)

named_theorems fifo_rules "consequences of the queue's contract"

lemma fifo_empty [fifo_rules]: "fifo Q cont \<Longrightarrow> cont (q_empty Q) = []"
  and fifo_enq [fifo_rules]: "fifo Q cont \<Longrightarrow> cont (q_enq Q q a) = cont q @ [a]"
  and fifo_size [fifo_rules]: "fifo Q cont \<Longrightarrow> q_size Q q = length (cont q)"
  by (simp_all add: fifo_def)

lemma fifo_deq_None: "fifo Q cont \<Longrightarrow> q_deq Q q = None \<longleftrightarrow> cont q = []"
  unfolding fifo_def by (cases "cont q") force+

lemma fifo_deq_Some: "fifo Q cont \<Longrightarrow> q_deq Q q = Some (a, q') \<Longrightarrow> cont q = a # cont q'"
  unfolding fifo_def by (cases "cont q") force+

lemma fifo_deq_Cons:
  "fifo Q cont \<Longrightarrow> cont q = a # as \<Longrightarrow> \<exists>q'. q_deq Q q = Some (a, q') \<and> cont q' = as"
  unfolding fifo_def by blast

end
