(* ===== verification/Net_State.thy ===== *)
theory Net_State
  imports Config_File Wire Queue_Api
begin

text \<open>
  The state of \<^verbatim>\<open>TcpNetwork\<close> (\<^verbatim>\<open>tproxy/TcpNetwork.h\<close>), the part of the kernel it works on, and the
  closing of connections. The \<^verbatim>\<open>shared_ptr<int>\<close> of a descriptor is modelled with its sharing: \<open>cells\<close>
  is the store of the integers, an entry of \<open>chan_status\<close> and a buffered message hold the number of a
  cell, and \<^verbatim>\<open>do_close\<close> writes \<open>-1\<close> through it.

  The invariant \<open>wf_net\<close> says what this sharing achieves: a cell either holds \<open>-1\<close> or the descriptor
  of the one entry that owns it. Descriptor numbers are reused by the kernel, cells are not.

  The kernel: \<open>rx\<close> holds the bytes that arrive while the handler runs, \<open>rx_end\<close> what follows them, \<open>tx\<close>
  the bytes that were accepted for the peer and \<open>plan\<close> the outcomes of the next writes (all of the
  bytes, once it is empty).
\<close>

section \<open>The kernel\<close>

datatype rx_end = Rx_Open | Rx_Eof | Rx_Err
datatype write_outcome = W_All | W_Part nat | W_Err

record sock =
  rx :: "u8 list"
  rx_then :: rx_end
  tx :: "u8 list"
  plan :: "write_outcome list"

definition new_sock :: sock where
  "new_sock = \<lparr>rx = [], rx_then = Rx_Open, tx = [], plan = []\<rparr>"

section \<open>State\<close>

record msg =
  m_fd :: nat
  m_size :: u32
  m_content :: "u8 list"

definition msg_body :: "msg \<Rightarrow> u8 list" where
  "msg_body m = drop header_size (m_content m)"

record channel =
  ch_first :: sockaddr_in
  ch_second :: sockaddr_in

definition channel_ok :: "channel \<Rightarrow> bool" where
  "channel_ok c \<longleftrightarrow> sin_port (ch_first c) \<noteq> bad_port \<and> sin_port (ch_second c) \<noteq> bad_port"

text \<open>\<^verbatim>\<open>cmp_channel\<close> orders by the two keys, so that a channel is found by them.\<close>

definition cmp_channel :: "channel \<Rightarrow> channel \<Rightarrow> bool" where
  "cmp_channel a b =
     (if cmp_addr_equal (ch_first a) (ch_first b) then cmp_addr_less (ch_second a) (ch_second b)
      else cmp_addr_less (ch_first a) (ch_first b))"

type_synonym chan_key = "addr_key \<times> addr_key"

definition chan_key :: "channel \<Rightarrow> chan_key" where
  "chan_key c = (key_of (ch_first c), key_of (ch_second c))"

record channel_status =
  cs_channel :: channel
  cs_self :: nat
  cs_fd :: nat
  cs_disconnected :: bool

record 'q net =
  sockets :: "fd \<rightharpoonup> sock"
  monitored :: "fd set"
  bad_closes :: "fd list"
  cells :: "nat \<Rightarrow> fd"
  next_cell :: nat
  chan_status :: "(fd, channel_status) omap"
  network :: "chan_key \<rightharpoonup> 'q"
  client_to_fd :: "(addr_key, fd) omap"
  fd_to_client :: "fd \<rightharpoonup> sockaddr_in"
  unintercepted :: "fd set"
  is_direct :: bool

definition status_of :: "'q net \<Rightarrow> fd \<Rightarrow> channel_status option" where
  "status_of s fd = om_find (chan_status s) fd"

section \<open>System calls\<close>

text \<open>\<^verbatim>\<open>close(fd)\<close>; a call on a number that is not open fails and is recorded.\<close>

definition k_close :: "fd \<Rightarrow> 'q net \<Rightarrow> 'q net" where
  "k_close fd s =
     (if sockets s fd = None then s\<lparr>bad_closes := bad_closes s @ [fd]\<rparr>
      else s\<lparr>sockets := (sockets s)(fd := None), monitored := monitored s - {fd}\<rparr>)"

text \<open>\<^verbatim>\<open>recv(fd, buf, n, MSG_PEEK | MSG_DONTWAIT)\<close>: the return value, whether \<^verbatim>\<open>errno\<close> is \<^verbatim>\<open>EAGAIN\<close>, and
  the bytes.\<close>

definition k_peek :: "fd \<Rightarrow> nat \<Rightarrow> 'q net \<Rightarrow> int \<times> bool \<times> u8 list" where
  "k_peek fd n s =
     (case sockets s fd of
        None \<Rightarrow> (- 1, False, [])
      | Some k \<Rightarrow>
          if rx k = [] then
            (case rx_then k of Rx_Open \<Rightarrow> (- 1, True, []) | Rx_Eof \<Rightarrow> (0, False, [])
             | Rx_Err \<Rightarrow> (- 1, False, []))
          else (int (length (take n (rx k))), False, take n (rx k)))"

text \<open>The same call without \<^verbatim>\<open>MSG_PEEK\<close>; with \<^verbatim>\<open>MSG_WAITALL\<close> and the receive time-out it returns the
  bytes that have arrived when the time is over.\<close>

definition k_drop :: "fd \<Rightarrow> nat \<Rightarrow> 'q net \<Rightarrow> 'q net" where
  "k_drop fd n s =
     (case sockets s fd of None \<Rightarrow> s
      | Some k \<Rightarrow> s\<lparr>sockets := (sockets s)(fd \<mapsto> k\<lparr>rx := drop n (rx k)\<rparr>)\<rparr>)"

definition k_recv :: "fd \<Rightarrow> nat \<Rightarrow> 'q net \<Rightarrow> int \<times> bool \<times> u8 list \<times> 'q net" where
  "k_recv fd n s = (case k_peek fd n s of (r, again, bs) \<Rightarrow> (r, again, bs, k_drop fd n s))"

text \<open>\<^verbatim>\<open>write(fd, buf, n)\<close>.\<close>

definition k_write :: "fd \<Rightarrow> u8 list \<Rightarrow> nat \<Rightarrow> 'q net \<Rightarrow> int \<times> 'q net" where
  "k_write fd buf n s =
     (case sockets s fd of
        None \<Rightarrow> (- 1, s)
      | Some k \<Rightarrow>
          let done = (\<lambda>m r. (int m, s\<lparr>sockets := (sockets s)(fd \<mapsto> k\<lparr>tx := tx k @ take m buf, plan := r\<rparr>)\<rparr>))
          in case plan k of
               [] \<Rightarrow> done n []
             | W_All # r \<Rightarrow> done n r
             | W_Part m # r \<Rightarrow> done (if n = 0 then 0 else max 1 (min m n)) r
             | W_Err # r \<Rightarrow> (- 1, s\<lparr>sockets := (sockets s)(fd \<mapsto> k\<lparr>plan := r\<rparr>)\<rparr>))"

section \<open>Closing\<close>

definition set_disconnected :: "fd \<Rightarrow> bool \<Rightarrow> 'q net \<Rightarrow> 'q net" where
  "set_disconnected fd d s =
     s\<lparr>chan_status := om_alter (chan_status s) fd (\<lambda>cs. cs\<lparr>cs_disconnected := d\<rparr>)\<rparr>"

definition do_close :: "fd \<Rightarrow> 'q net \<Rightarrow> 'q net" where
  "do_close fd s =
     (case status_of s fd of
        None \<Rightarrow> s
      | Some cs \<Rightarrow>
          let s1 = k_close fd (s\<lparr>unintercepted := unintercepted s - {fd}\<rparr>)
          in s1\<lparr>cells := (cells s1)(cs_self cs := - 1), chan_status := om_erase (chan_status s1) fd\<rparr>)"

text \<open>\<^verbatim>\<open>close_connection(fd, tag, close_peer)\<close>. The iterator \<^verbatim>\<open>it2\<close> is looked up before \<^verbatim>\<open>it\<close> is erased; it
  would dangle if both were the same.\<close>

definition close_connection :: "fd \<Rightarrow> bool \<Rightarrow> bool \<Rightarrow> 'q net \<Rightarrow> 'q net result" where
  "close_connection fd tag close_peer s =
     (case status_of s fd of
        None \<Rightarrow> Inr (if tag then s else k_close fd s)
      | Some cs \<Rightarrow>
          let s1 = set_disconnected fd True s;
              peer = cells s1 (cs_fd cs);
              found = (status_of s1 peer \<noteq> None);
              s2 = (if found then set_disconnected peer True s1 else s1)
          in if tag then Inr s2
             else let s3 = do_close fd s2 in
               if close_peer \<and> found
               then (if peer = fd then Inl (Undefined Dangling) else Inr (do_close peer s3))
               else Inr s3)"

section \<open>The invariant\<close>

definition owned :: "'q net \<Rightarrow> nat \<Rightarrow> bool" where
  "owned s c \<longleftrightarrow> cells s c = - 1 \<or> (\<exists>cs. status_of s (cells s c) = Some cs \<and> cs_self cs = c)"

text \<open>An entry: its own cell holds its number, its peer, when it is still there, points back with the
  channel the other way round, and a closed peer's cell is dead.\<close>

definition paired :: "channel_status \<Rightarrow> channel_status \<Rightarrow> bool" where
  "paired cs p \<longleftrightarrow> cs_self p = cs_fd cs \<and> cs_fd p = cs_self cs \<and>
     ch_first (cs_channel p) = ch_second (cs_channel cs) \<and>
     ch_second (cs_channel p) = ch_first (cs_channel cs)"

definition peer_ok :: "'q net \<Rightarrow> channel_status \<Rightarrow> bool" where
  "peer_ok s cs \<longleftrightarrow> (\<forall>p. status_of s (cells s (cs_fd cs)) = Some p \<longrightarrow> paired cs p)"

definition entry_ok :: "'q net \<Rightarrow> fd \<Rightarrow> channel_status \<Rightarrow> bool" where
  "entry_ok s fd cs \<longleftrightarrow>
     0 \<le> fd \<and> sockets s fd \<noteq> None \<and> fd_to_client s fd = None \<and>
     cs_self cs < next_cell s \<and> cs_fd cs < next_cell s \<and> cs_fd cs \<noteq> cs_self cs \<and>
     cells s (cs_self cs) = fd \<and> peer_ok s cs"

definition clients_ok :: "'q net \<Rightarrow> bool" where
  "clients_ok s \<longleftrightarrow>
     om_ok (client_to_fd s) \<and>
     (\<forall>fd a. fd_to_client s fd = Some a \<longrightarrow> 0 \<le> fd \<and> sockets s fd \<noteq> None) \<and>
     (\<forall>k fd. om_find (client_to_fd s) k = Some fd \<longrightarrow>
        (\<exists>a. fd_to_client s fd = Some a \<and> key_of a = k))"

definition wf_net :: "'q net \<Rightarrow> bool" where
  "wf_net s \<longleftrightarrow>
     om_ok (chan_status s) \<and>
     (\<forall>c < next_cell s. owned s c) \<and>
     (\<forall>fd cs. status_of s fd = Some cs \<longrightarrow> entry_ok s fd cs) \<and>
     (\<forall>fd \<in> unintercepted s. status_of s fd \<noteq> None) \<and>
     clients_ok s"

text \<open>The buffered messages hold allocated cells.\<close>

definition msgs_ok :: "('q \<Rightarrow> msg list) \<Rightarrow> 'q net \<Rightarrow> bool" where
  "msgs_ok cont s \<longleftrightarrow>
     (\<forall>ch q. network s ch = Some q \<longrightarrow> (\<forall>m \<in> set (cont q). m_fd m < next_cell s))"

section \<open>Lemmas: frames\<close>

named_theorems net_simps "what an operation changes and what it leaves"

lemma k_close_simps [net_simps]:
  "cells (k_close fd s) = cells s" "next_cell (k_close fd s) = next_cell s"
  "chan_status (k_close fd s) = chan_status s" "network (k_close fd s) = network s"
  "client_to_fd (k_close fd s) = client_to_fd s" "fd_to_client (k_close fd s) = fd_to_client s"
  "unintercepted (k_close fd s) = unintercepted s" "is_direct (k_close fd s) = is_direct s"
  "sockets (k_close fd s) = (sockets s)(fd := None)"
  by (auto simp: k_close_def)

lemma set_disconnected_simps [net_simps]:
  "cells (set_disconnected fd d s) = cells s" "next_cell (set_disconnected fd d s) = next_cell s"
  "network (set_disconnected fd d s) = network s" "sockets (set_disconnected fd d s) = sockets s"
  "client_to_fd (set_disconnected fd d s) = client_to_fd s"
  "fd_to_client (set_disconnected fd d s) = fd_to_client s"
  "unintercepted (set_disconnected fd d s) = unintercepted s"
  "is_direct (set_disconnected fd d s) = is_direct s"
  "bad_closes (set_disconnected fd d s) = bad_closes s" "monitored (set_disconnected fd d s) = monitored s"
  "om_ok (chan_status (set_disconnected fd d s)) = om_ok (chan_status s)"
  "om_keys (chan_status (set_disconnected fd d s)) = om_keys (chan_status s)"
  by (simp_all add: set_disconnected_def om_keys_def)

lemma status_set_disconnected [net_simps]:
  "status_of (set_disconnected fd d s) g =
     (if g = fd then map_option (\<lambda>cs. cs\<lparr>cs_disconnected := d\<rparr>) (status_of s g) else status_of s g)"
  by (simp add: status_of_def set_disconnected_def om_find_alter)

lemma status_k_close [net_simps]: "status_of (k_close fd s) g = status_of s g"
  by (simp add: status_of_def k_close_simps)

lemma do_close_simps [net_simps]:
  "next_cell (do_close fd s) = next_cell s" "network (do_close fd s) = network s"
  "client_to_fd (do_close fd s) = client_to_fd s" "fd_to_client (do_close fd s) = fd_to_client s"
  "is_direct (do_close fd s) = is_direct s"
  "om_ok (chan_status s) \<Longrightarrow> om_ok (chan_status (do_close fd s))"
  "status_of (do_close fd s) g = (if g = fd then None else status_of s g)"
  by (auto simp: do_close_def Let_def k_close_simps om_ok_erase status_of_def om_find_erase
      split: option.splits)

lemma do_close_tracked [net_simps]:
  "status_of s fd = Some cs \<Longrightarrow> cells (do_close fd s) = (cells s)(cs_self cs := - 1)"
  "status_of s fd = Some cs \<Longrightarrow> sockets (do_close fd s) = (sockets s)(fd := None)"
  "status_of s fd = Some cs \<Longrightarrow> unintercepted (do_close fd s) = unintercepted s - {fd}"
  "status_of s fd = Some cs \<Longrightarrow> sockets s fd \<noteq> None \<Longrightarrow> bad_closes (do_close fd s) = bad_closes s"
  by (simp_all add: do_close_def k_close_simps Let_def) (simp add: k_close_def)

lemma do_close_untracked [net_simps]: "status_of s fd = None \<Longrightarrow> do_close fd s = s"
  by (simp add: do_close_def)

lemma wf_netI:
  assumes "om_ok (chan_status s)" and "\<And>c. c < next_cell s \<Longrightarrow> owned s c"
    and "\<And>fd cs. status_of s fd = Some cs \<Longrightarrow> entry_ok s fd cs"
    and "\<And>fd. fd \<in> unintercepted s \<Longrightarrow> status_of s fd \<noteq> None" and "clients_ok s"
  shows "wf_net s"
  using assms unfolding wf_net_def by blast

lemma wf_netD:
  assumes "wf_net s"
  shows "om_ok (chan_status s)" "c < next_cell s \<Longrightarrow> owned s c"
    "status_of s fd = Some cs \<Longrightarrow> entry_ok s fd cs"
    "fd \<in> unintercepted s \<Longrightarrow> status_of s fd \<noteq> None" "clients_ok s"
  using assms unfolding wf_net_def by blast+

lemma entry_owned:
  assumes "wf_net s" and "status_of s fd = Some cs"
  shows "entry_ok s fd cs" "0 \<le> fd" "cells s (cs_self cs) = fd" "sockets s fd \<noteq> None"
    "fd_to_client s fd = None"
  using wf_netD(3) [OF assms] unfolding entry_ok_def by blast+

lemma status_minus: "wf_net s \<Longrightarrow> status_of s (- 1) = None"
  using entry_owned(2) [of s "- 1"] by (cases "status_of s (- 1)") auto

text \<open>The peer of a live entry is another descriptor, and its cell holds it.\<close>

lemma peer_other:
  assumes "wf_net s" and "status_of s fd = Some cs" and "status_of s (cells s (cs_fd cs)) = Some p"
  shows "cells s (cs_fd cs) \<noteq> fd" "cs_self p = cs_fd cs" "cs_fd p = cs_self cs"
    "ch_first (cs_channel p) = ch_second (cs_channel cs)"
    "ch_second (cs_channel p) = ch_first (cs_channel cs)"
proof -
  have e: "entry_ok s fd cs" by (rule entry_owned(1) [OF assms(1,2)])
  then have "paired cs p" using assms(3) by (simp add: entry_ok_def peer_ok_def)
  then show "cs_self p = cs_fd cs" "cs_fd p = cs_self cs"
    "ch_first (cs_channel p) = ch_second (cs_channel cs)"
    "ch_second (cs_channel p) = ch_first (cs_channel cs)"
    by (simp_all add: paired_def)
  show "cells s (cs_fd cs) \<noteq> fd"
  proof
    assume "cells s (cs_fd cs) = fd"
    then have "p = cs" using assms(2,3) by simp
    with \<open>cs_self p = cs_fd cs\<close> e show False by (simp add: entry_ok_def)
  qed
qed

text \<open>A live cell holds the descriptor of the entry that owns it.\<close>

lemma live_cell:
  assumes "wf_net s" and "c < next_cell s" and "cells s c \<noteq> - 1"
  shows "\<exists>cs. status_of s (cells s c) = Some cs \<and> cs_self cs = c"
  using wf_netD(2) [OF assms(1,2)] assms(3) by (simp add: owned_def)

section \<open>Lemmas: the invariant\<close>

definition same_link :: "channel_status \<Rightarrow> channel_status \<Rightarrow> bool" where
  "same_link a b \<longleftrightarrow> cs_self b = cs_self a \<and> cs_fd b = cs_fd a \<and> cs_channel b = cs_channel a"

lemma status_set_disconnectedE:
  assumes "status_of (set_disconnected fd d s) g = Some p"
  obtains p0 where "status_of s g = Some p0" "same_link p0 p"
  using assms by (auto simp: net_simps same_link_def split: if_splits)

lemma wf_set_disconnected:
  assumes "wf_net s"
  shows "wf_net (set_disconnected fd d s)"
proof (rule wf_netI)
  show "owned (set_disconnected fd d s) c" if "c < next_cell (set_disconnected fd d s)" for c
    using wf_netD(2) [OF assms, of c] that by (auto simp: owned_def net_simps)
  show "entry_ok (set_disconnected fd d s) f cs" if st: "status_of (set_disconnected fd d s) f = Some cs" for f cs
  proof -
    obtain cs0 where cs0: "status_of s f = Some cs0" "same_link cs0 cs"
      using status_set_disconnectedE [OF st] .
    have "peer_ok (set_disconnected fd d s) cs"
      unfolding peer_ok_def
    proof (intro allI impI)
      fix p assume p: "status_of (set_disconnected fd d s) (cells (set_disconnected fd d s) (cs_fd cs)) = Some p"
      obtain p0 where p0: "status_of s (cells s (cs_fd cs)) = Some p0" "same_link p0 p"
        using status_set_disconnectedE [OF p] by (auto simp: net_simps)
      then have "paired cs0 p0"
        using peer_other [OF assms cs0(1)] cs0(2) unfolding same_link_def paired_def by metis
      then show "paired cs p" using cs0(2) p0(2) by (simp add: same_link_def paired_def)
    qed
    then show ?thesis
      using entry_owned(1) [OF assms cs0(1)] cs0(2) by (simp add: entry_ok_def same_link_def net_simps)
  qed
  show "status_of (set_disconnected fd d s) f \<noteq> None" if "f \<in> unintercepted (set_disconnected fd d s)" for f
    using wf_netD(4) [OF assms, of f] that by (auto simp: net_simps)
qed (use wf_netD(1,5) [OF assms] in \<open>simp_all add: net_simps clients_ok_def\<close>)

lemma wf_k_close:
  assumes "wf_net s" and "status_of s fd = None" and "fd_to_client s fd = None"
  shows "wf_net (k_close fd s)"
proof (rule wf_netI)
  show "owned (k_close fd s) c" if "c < next_cell (k_close fd s)" for c
    using wf_netD(2) [OF assms(1), of c] that by (simp add: owned_def net_simps)
  show "entry_ok (k_close fd s) f cs" if st: "status_of (k_close fd s) f = Some cs" for f cs
  proof -
    have f: "status_of s f = Some cs" "f \<noteq> fd" using st assms(2) by (auto simp: net_simps)
    from entry_owned(1) [OF assms(1) f(1)] f(2) show ?thesis
      by (simp add: entry_ok_def peer_ok_def net_simps)
  qed
  show "status_of (k_close fd s) f \<noteq> None" if "f \<in> unintercepted (k_close fd s)" for f
    using wf_netD(4) [OF assms(1), of f] that by (simp add: net_simps)
  show "clients_ok (k_close fd s)"
    using wf_netD(5) [OF assms(1)] assms(3) by (auto simp: net_simps clients_ok_def)
qed (use wf_netD(1) [OF assms(1)] in \<open>simp add: net_simps\<close>)

lemma wf_do_close:
  assumes "wf_net s"
  shows "wf_net (do_close fd s)"
proof (cases "status_of s fd")
  case None
  then show ?thesis using assms by (simp add: net_simps)
next
  case (Some cs)
  note own = entry_owned [OF assms Some]
  show ?thesis
  proof (rule wf_netI)
    show "owned (do_close fd s) c" if "c < next_cell (do_close fd s)" for c
      using wf_netD(2) [OF assms, of c] that Some by (auto simp: owned_def net_simps)
    show "entry_ok (do_close fd s) f d" if st: "status_of (do_close fd s) f = Some d" for f d
    proof -
      have f: "f \<noteq> fd" "status_of s f = Some d" using st by (auto simp: net_simps split: if_splits)
      note of = entry_owned [OF assms f(2)]
      have "cs_self d \<noteq> cs_self cs" using of(3) own(3) f(1) by metis
      moreover have "status_of s (- 1) = None" by (rule status_minus [OF assms])
      ultimately show ?thesis
        using of(1) f Some unfolding entry_ok_def peer_ok_def by (simp add: net_simps)
    qed
    show "status_of (do_close fd s) f \<noteq> None" if "f \<in> unintercepted (do_close fd s)" for f
      using wf_netD(4) [OF assms, of f] that Some by (simp add: net_simps)
    show "clients_ok (do_close fd s)"
      using wf_netD(5) [OF assms] own(5) Some by (auto simp: net_simps clients_ok_def)
  qed (use wf_netD(1) [OF assms] in \<open>simp add: net_simps\<close>)
qed

text \<open>\<^verbatim>\<open>close_connection\<close> never uses a dangling iterator. \<open>close_result\<close> is what it comes down to.\<close>

definition close_result :: "fd \<Rightarrow> bool \<Rightarrow> bool \<Rightarrow> 'q net \<Rightarrow> 'q net" where
  "close_result fd tag close_peer s =
     (case status_of s fd of
        None \<Rightarrow> if tag then s else k_close fd s
      | Some cs \<Rightarrow>
          let peer = cells s (cs_fd cs);
              s2 = set_disconnected peer True (set_disconnected fd True s)
          in if tag then s2
             else if close_peer then do_close peer (do_close fd s2) else do_close fd s2)"

lemma set_disconnected_None: "status_of s fd = None \<Longrightarrow> set_disconnected fd d s = s"
proof -
  assume "status_of s fd = None"
  then have "om_alter (chan_status s) fd f = chan_status s" for f
    by (force simp: status_of_def om_find_None_iff om_alter_def intro!: map_idI)
  then show ?thesis by (simp add: set_disconnected_def)
qed

lemma close_connection_eq:
  assumes "wf_net s"
  shows "close_connection fd tag close_peer s = Inr (close_result fd tag close_peer s)"
proof (cases "status_of s fd")
  case None
  then show ?thesis by (simp add: close_connection_def close_result_def)
next
  case (Some cs)
  define s1 where "s1 = set_disconnected fd True s"
  define peer where "peer = cells s (cs_fd cs)"
  have pc: "cells s1 (cs_fd cs) = peer" by (simp add: s1_def peer_def net_simps)
  show ?thesis
  proof (cases "status_of s1 peer")
    case None
    have "set_disconnected peer True s1 = s1" by (rule set_disconnected_None [OF None])
    moreover have "status_of (do_close fd s1) peer = None" using None by (simp add: net_simps)
    ultimately show ?thesis using Some None pc
      by (simp add: close_connection_def close_result_def Let_def s1_def [symmetric]
          peer_def [symmetric] do_close_untracked)
  next
    case st: (Some p)
    then have "status_of s peer \<noteq> None" by (auto simp: s1_def net_simps split: if_splits)
    then have "peer \<noteq> fd" using peer_other(1) [OF assms Some] by (auto simp: peer_def)
    then show ?thesis using Some st pc
      by (simp add: close_connection_def close_result_def Let_def s1_def [symmetric] peer_def [symmetric])
  qed
qed

lemma close_result_frame [net_simps]:
  "network (close_result fd tag close_peer s) = network s"
  "next_cell (close_result fd tag close_peer s) = next_cell s"
  "is_direct (close_result fd tag close_peer s) = is_direct s"
  "fd_to_client (close_result fd tag close_peer s) = fd_to_client s"
  "client_to_fd (close_result fd tag close_peer s) = client_to_fd s"
  by (auto simp: close_result_def Let_def net_simps split: option.splits)

lemma close_result_wf:
  "wf_net s \<Longrightarrow> fd_to_client s fd = None \<Longrightarrow> wf_net (close_result fd tag close_peer s)"
  by (auto simp: close_result_def Let_def intro: wf_k_close wf_do_close wf_set_disconnected
      split: option.splits)

lemma close_result_keeps_wf:
  "wf_net s \<Longrightarrow> status_of s fd = Some cs \<Longrightarrow> wf_net (close_result fd tag close_peer s)"
  using close_result_wf entry_owned(5) by blast

text \<open>Closing a tracked connection: both ends are gone, their cells are dead, nothing is closed twice.\<close>

lemma close_result_closed:
  assumes "wf_net s" and "status_of s fd = Some cs"
  defines "s' \<equiv> close_result fd False True s" and "peer \<equiv> cells s (cs_fd cs)"
  shows "status_of s' g = (if g = fd \<or> g = peer then None else status_of s g)"
    "cells s' c = (if c = cs_self cs \<or> c = cs_fd cs then - 1 else cells s c)"
    "sockets s' g = (if g = fd \<or> g = peer \<and> status_of s peer \<noteq> None then None else sockets s g)"
    "bad_closes s' = bad_closes s"
    "unintercepted s' = unintercepted s - {fd, peer}"
proof -
  note own = entry_owned [OF assms(1,2)]
  define s2 where "s2 = set_disconnected peer True (set_disconnected fd True s)"
  have s': "s' = do_close peer (do_close fd s2)"
    using assms(2) by (simp add: s'_def close_result_def s2_def peer_def Let_def)
  have "\<exists>d. status_of s2 fd = Some d \<and> cs_self d = cs_self cs"
    using assms(2) by (auto simp: s2_def net_simps)
  then obtain d where d: "status_of s2 fd = Some d" "cs_self d = cs_self cs" by blast
  have sk: "sockets s2 = sockets s" "cells s2 = cells s" "bad_closes s2 = bad_closes s"
    "unintercepted s2 = unintercepted s"
    by (simp_all add: s2_def net_simps)
  have st2: "status_of s2 h = status_of s h" if "h \<noteq> fd" "h \<noteq> peer" for h
    using that by (simp add: s2_def net_simps)
  define s3 where "s3 = do_close fd s2"
  have s3: "cells s3 = (cells s)(cs_self cs := - 1)" "sockets s3 = (sockets s)(fd := None)"
    "bad_closes s3 = bad_closes s" "unintercepted s3 = unintercepted s - {fd}"
    using d sk own(4) by (simp_all add: s3_def do_close_tracked)
  have st3: "status_of s3 h = (if h = fd then None else status_of s2 h)" for h
    by (simp add: s3_def do_close_simps)
  have "status_of s' g = (if g = fd \<or> g = peer then None else status_of s g) \<and>
    cells s' c = (if c = cs_self cs \<or> c = cs_fd cs then - 1 else cells s c) \<and>
    sockets s' g = (if g = fd \<or> g = peer \<and> status_of s peer \<noteq> None then None else sockets s g) \<and>
    bad_closes s' = bad_closes s \<and> unintercepted s' = unintercepted s - {fd, peer}"
  proof (cases "status_of s peer")
    case None
    have "owned s (cs_fd cs)" using own(1) wf_netD(2) [OF assms(1)] by (simp add: entry_ok_def)
    then have p: "cells s (cs_fd cs) = - 1" using None by (auto simp: owned_def peer_def)
    have u: "peer \<notin> unintercepted s" using wf_netD(4) [OF assms(1)] None by blast
    have st: "status_of s2 peer = None" using None by (auto simp: s2_def net_simps)
    then have "s' = s3"
      unfolding s' s3_def [symmetric] by (intro do_close_untracked) (simp add: st3)
    then show ?thesis using s3 st3 [of g] st2 [of g] st p None u by auto
  next
    case (Some p)
    note po = peer_other [OF assms(1,2) Some [unfolded peer_def], folded peer_def]
    have so: "sockets s3 peer \<noteq> None" using entry_owned(4) [OF assms(1) Some] po(1) s3(2) by simp
    have "\<exists>e. status_of s3 peer = Some e \<and> cs_self e = cs_fd cs"
      using Some po by (simp add: st3) (simp add: s2_def net_simps)
    then obtain e where e: "status_of s3 peer = Some e" "cs_self e = cs_fd cs" by blast
    have s4: "cells s' = (cells s3)(cs_fd cs := - 1)" "sockets s' = (sockets s3)(peer := None)"
      "bad_closes s' = bad_closes s3" "unintercepted s' = unintercepted s3 - {peer}"
      using e so by (simp_all add: s' s3_def [symmetric] do_close_tracked)
    have "status_of s' g = (if g = peer then None else status_of s3 g)"
      by (simp add: s' s3_def [symmetric] do_close_simps)
    then have "status_of s' g = (if g = fd \<or> g = peer then None else status_of s g)"
      by (simp add: st3 st2)
    moreover have "unintercepted s' = unintercepted s - {fd, peer}" unfolding s4 s3 by blast
    ultimately show ?thesis by (simp add: s3 s4 Some)
  qed
  then show "status_of s' g = (if g = fd \<or> g = peer then None else status_of s g)"
    "cells s' c = (if c = cs_self cs \<or> c = cs_fd cs then - 1 else cells s c)"
    "sockets s' g = (if g = fd \<or> g = peer \<and> status_of s peer \<noteq> None then None else sockets s g)"
    "bad_closes s' = bad_closes s" "unintercepted s' = unintercepted s - {fd, peer}"
    by blast+
qed

text \<open>Tagging changes the two flags and nothing else.\<close>

lemma close_result_tagged:
  fixes close_peer :: bool
  assumes "status_of s fd = Some cs"
  defines "s' \<equiv> close_result fd True close_peer s" and "peer \<equiv> cells s (cs_fd cs)"
  shows "status_of s' g = (if g = fd \<or> g = peer
      then map_option (\<lambda>cs. cs\<lparr>cs_disconnected := True\<rparr>) (status_of s g) else status_of s g)"
    "cells s' = cells s" "sockets s' = sockets s" "bad_closes s' = bad_closes s"
    "unintercepted s' = unintercepted s" "om_keys (chan_status s') = om_keys (chan_status s)"
  using assms by (auto simp: close_result_def Let_def net_simps option.map_comp comp_def)

text \<open>Cells never come back to life: an operation leaves a cell as it is or kills it.\<close>

definition cells_mono :: "'q net \<Rightarrow> 'q net \<Rightarrow> bool" where
  "cells_mono s s' \<longleftrightarrow> next_cell s \<le> next_cell s' \<and>
     (\<forall>c < next_cell s. cells s' c = cells s c \<or> cells s' c = - 1)"

lemma cells_mono_refl [intro, simp]: "cells_mono s s"
  by (simp add: cells_mono_def)

lemma cells_mono_same: "next_cell s' = next_cell s \<Longrightarrow> cells s' = cells s \<Longrightarrow> cells_mono s s'"
  by (simp add: cells_mono_def)

lemma cells_mono_trans: "cells_mono a b \<Longrightarrow> cells_mono b c \<Longrightarrow> cells_mono a c"
  unfolding cells_mono_def by (metis order.trans order.strict_trans2)

lemma do_close_mono: "cells_mono s (do_close fd s)"
  by (cases "status_of s fd") (simp_all add: cells_mono_def net_simps)

lemma close_result_mono: "cells_mono s (close_result fd tag close_peer s)"
proof (cases "status_of s fd")
  case None
  then show ?thesis by (simp add: close_result_def cells_mono_same net_simps)
next
  case (Some cs)
  define s2 where "s2 = set_disconnected (cells s (cs_fd cs)) True (set_disconnected fd True s)"
  have m: "cells_mono s s2" by (simp add: cells_mono_same s2_def net_simps)
  note d = cells_mono_trans [OF m do_close_mono]
  have "close_result fd tag close_peer s \<in>
      {s2, do_close fd s2, do_close (cells s (cs_fd cs)) (do_close fd s2)}"
    using Some by (simp add: close_result_def Let_def s2_def)
  then show ?thesis using m d cells_mono_trans [OF d do_close_mono] by auto
qed

end
