(* ===== verification/Net_Deliver.thy ===== *)
theory Net_Deliver
  imports Net_State
begin

text \<open>
  Delivery: \<^verbatim>\<open>deliver_msg\<close> and \<^verbatim>\<open>enqueue_msg\<close> of \<^verbatim>\<open>tproxy/TcpNetwork.cpp\<close>. A buffered message is taken
  from the queue of its channel, messages of closed connections are skipped, and the body is written
  to the connection that the message came for. The lemmas show that a message can only ever reach
  the connection it was received for, whatever descriptor numbers have been reused in between.
\<close>

section \<open>Operations\<close>

text \<open>The loop over \<^verbatim>\<open>wait_dequeue_timed\<close> until a message whose cell is not negative: the queue behind it
  and the message, \<open>None\<close> after a time-out. The fuel bounds the number of messages in the queue;
  \<open>deq_live_enough\<close> shows that one more than its size is enough.\<close>

fun deq_live :: "('q, msg) queue_ops \<Rightarrow> (nat \<Rightarrow> fd) \<Rightarrow> nat \<Rightarrow> 'q \<Rightarrow> 'q \<times> msg option" where
  "deq_live Q cs 0 q = (q, None)"
| "deq_live Q cs (Suc n) q =
     (case q_deq Q q of
        None \<Rightarrow> (q, None)
      | Some (m, q') \<Rightarrow> if cs (m_fd m) < 0 then deq_live Q cs n q' else (q', Some m))"

text \<open>\<^verbatim>\<open>while (left_size > 0 && (size = write(*msg.fd, msg.body(), left_size)) != -1) left_size -= size\<close>;
  \<open>sz\<close> is the variable \<^verbatim>\<open>size\<close>, \<open>None\<close> as long as it has no value.\<close>

lemma k_write_progress: "k_write fd buf n s = (r, s') \<Longrightarrow> 0 < n \<Longrightarrow> r = - 1 \<or> 1 \<le> r \<and> r \<le> int n"
  by (auto simp: k_write_def Let_def split: option.splits list.splits write_outcome.splits if_splits)

function deliver_loop :: "fd \<Rightarrow> u8 list \<Rightarrow> nat \<Rightarrow> int option \<Rightarrow> 'q net \<Rightarrow> int option \<times> 'q net" where
  "deliver_loop fd body left sz s =
     (if left = 0 then (sz, s)
      else (case k_write fd body left s of (r, s') \<Rightarrow>
        if r = - 1 then (Some (- 1), s')
        else deliver_loop fd body (left - nat r) (Some r) s'))"
  by pat_completeness auto
termination
  by (relation "measure (\<lambda>(fd, body, left, sz, s). left)")
    (auto dest!: k_write_progress [OF sym])

declare deliver_loop.simps [simp del]

text \<open>The part of \<^verbatim>\<open>deliver_msg\<close> behind the choice of the message.\<close>

definition deliver_to_fd :: "msg \<Rightarrow> 'q net \<Rightarrow> 'q net result" where
  "deliver_to_fd m s =
     (let fd = cells s (m_fd m) in
      case status_of s fd of
        None \<Rightarrow> Inr s
      | Some cs \<Rightarrow>
          if cs_disconnected cs then Inr s
          else case deliver_loop fd (msg_body m) (unat (m_size m)) None s of
            (None, s') \<Rightarrow> Inl (Undefined Uninit_Read)
          | (Some r, s') \<Rightarrow>
              if r = - 1 then close_connection (cells s' (m_fd m)) (\<not> is_direct s') True s'
              else Inr s')"

definition deliver_msg :: "('q, msg) queue_ops \<Rightarrow> channel \<Rightarrow> msg option \<Rightarrow> 'q net \<Rightarrow> 'q net result" where
  "deliver_msg Q ch mo s =
     (case mo of
        Some m \<Rightarrow> deliver_to_fd m s
      | None \<Rightarrow>
          (case network s (chan_key ch) of
             None \<Rightarrow> Inr s
           | Some q \<Rightarrow>
               (case deq_live Q (cells s) (Suc (q_size Q q)) q of
                  (q', None) \<Rightarrow> Inr (s\<lparr>network := (network s)(chan_key ch \<mapsto> q')\<rparr>)
                | (q', Some m) \<Rightarrow> deliver_to_fd m (s\<lparr>network := (network s)(chan_key ch \<mapsto> q')\<rparr>))))"

definition queue_of :: "('q, msg) queue_ops \<Rightarrow> 'q net \<Rightarrow> chan_key \<Rightarrow> 'q" where
  "queue_of Q s k = (case network s k of None \<Rightarrow> q_empty Q | Some q \<Rightarrow> q)"

definition enqueue_msg :: "('q, msg) queue_ops \<Rightarrow> channel_status \<Rightarrow> msg \<Rightarrow> 'q net \<Rightarrow> 'q net result" where
  "enqueue_msg Q cf m s =
     (if cs_disconnected cf then Inr s
      else if is_direct s then deliver_msg Q (cs_channel cf) (Some m) s
      else let k = chan_key (cs_channel cf)
        in Inr (s\<lparr>network := (network s)(k \<mapsto> q_enq Q (queue_of Q s k) m)\<rparr>))"

section \<open>Lemmas\<close>

lemma deq_live_enough:
  assumes "fifo Q cont"
  shows "length (cont q) < n \<Longrightarrow>
    (case deq_live Q cs n q of
       (q', None) \<Rightarrow> cont q' = [] \<and> (\<forall>m \<in> set (cont q). cs (m_fd m) < 0)
     | (q', Some m) \<Rightarrow> \<exists>dead. cont q = dead @ m # cont q' \<and>
         (\<forall>d \<in> set dead. cs (m_fd d) < 0) \<and> 0 \<le> cs (m_fd m))"
proof (induction n arbitrary: q)
  case 0
  then show ?case by simp
next
  case (Suc n)
  show ?case
  proof (cases "q_deq Q q")
    case None
    then show ?thesis using fifo_deq_None [OF assms, of q] by simp
  next
    case (Some p)
    obtain m q' where p: "p = (m, q')" by fastforce
    have c: "cont q = m # cont q'" using fifo_deq_Some [OF assms] Some p by simp
    show ?thesis
    proof (cases "cs (m_fd m) < 0")
      case False
      then show ?thesis using Some p c by (auto intro: exI [of _ "[]"])
    next
      case True
      have "length (cont q') < n" using Suc.prems c by simp
      from Suc.IH [OF this] show ?thesis
        using Some p c True
        by (cases "deq_live Q cs n q'"; cases "snd (deq_live Q cs n q')")
          (auto intro: exI [of _ "m # dead" for dead] split: option.splits)
    qed
  qed
qed

definition same_but_sockets :: "'q net \<Rightarrow> 'q net \<Rightarrow> bool" where
  "same_but_sockets s s' \<longleftrightarrow>
     s\<lparr>sockets := sockets s'\<rparr> = s' \<and> (\<forall>fd. sockets s' fd = None \<longleftrightarrow> sockets s fd = None)"

lemma same_but_sockets_refl [simp]: "same_but_sockets s s"
  by (simp add: same_but_sockets_def)

lemma same_but_sockets_simps:
  assumes "same_but_sockets s s'"
  shows "cells s' = cells s" "next_cell s' = next_cell s" "chan_status s' = chan_status s"
    "network s' = network s" "client_to_fd s' = client_to_fd s" "fd_to_client s' = fd_to_client s"
    "unintercepted s' = unintercepted s" "is_direct s' = is_direct s" "bad_closes s' = bad_closes s"
    "monitored s' = monitored s" "status_of s' = status_of s"
    "(sockets s' fd = None) = (sockets s fd = None)"
proof -
  have e: "s\<lparr>sockets := sockets s'\<rparr> = s'" and n: "(sockets s' fd = None) = (sockets s fd = None)"
    using assms by (simp_all add: same_but_sockets_def)
  show "cells s' = cells s" "next_cell s' = next_cell s" "chan_status s' = chan_status s"
    "network s' = network s" "client_to_fd s' = client_to_fd s" "fd_to_client s' = fd_to_client s"
    "unintercepted s' = unintercepted s" "is_direct s' = is_direct s" "bad_closes s' = bad_closes s"
    "monitored s' = monitored s" "status_of s' = status_of s"
    by (subst e [symmetric], simp add: status_of_def fun_eq_iff)+
  show "(sockets s' fd = None) = (sockets s fd = None)" by (rule n)
qed

lemma same_but_sockets_trans:
  assumes "same_but_sockets a b" and "same_but_sockets b c"
  shows "same_but_sockets a c"
proof -
  have "a\<lparr>sockets := sockets c\<rparr> = a\<lparr>sockets := sockets b\<rparr>\<lparr>sockets := sockets c\<rparr>" by simp
  also have "\<dots> = c" using assms by (simp add: same_but_sockets_def)
  finally show ?thesis using assms by (simp add: same_but_sockets_def)
qed

lemma same_but_sockets_wf:
  assumes "same_but_sockets s s'" and "wf_net s"
  shows "wf_net s'"
proof -
  note q = same_but_sockets_simps [OF assms(1)]
  have "entry_ok s' fd cs = entry_ok s fd cs" for fd cs
    by (simp add: entry_ok_def peer_ok_def q)
  then show ?thesis using assms(2) by (simp add: wf_net_def owned_def clients_ok_def q)
qed

lemma k_write_frame:
  assumes "k_write fd buf n s = (r, s')"
  shows "same_but_sockets s s'" "\<And>g. g \<noteq> fd \<Longrightarrow> sockets s' g = sockets s g"
    "map_option rx (sockets s' fd) = map_option rx (sockets s fd)"
    "map_option rx_then (sockets s' fd) = map_option rx_then (sockets s fd)"
  using assms
  by (auto simp: k_write_def Let_def same_but_sockets_def
      split: option.splits list.splits write_outcome.splits if_splits)

lemma deliver_loop_frame:
  "deliver_loop fd body left sz s = (r, s') \<Longrightarrow>
     same_but_sockets s s' \<and> (\<forall>g. g \<noteq> fd \<longrightarrow> sockets s' g = sockets s g) \<and>
     map_option rx (sockets s' fd) = map_option rx (sockets s fd) \<and>
     map_option rx_then (sockets s' fd) = map_option rx_then (sockets s fd)"
proof (induction fd body left sz s rule: deliver_loop.induct)
  case (1 fd body left sz s)
  obtain w s1 where w: "k_write fd body left s = (w, s1)" by fastforce
  note f = k_write_frame [OF w]
  show ?case
  proof (cases "left = 0 \<or> w = - 1")
    case True
    then show ?thesis using "1.prems" w f by (subst (asm) deliver_loop.simps) (auto split: if_splits)
  next
    case False
    then have "deliver_loop fd body (left - nat w) (Some w) s1 = (r, s')"
      using "1.prems" w by (subst (asm) deliver_loop.simps) simp
    with "1.IH" [OF _ w [symmetric]] False f show ?thesis
      by (auto intro: same_but_sockets_trans)
  qed
qed

lemma deliver_loop_None:
  "fst (deliver_loop fd body left sz s) = None \<longleftrightarrow> left = 0 \<and> sz = None"
proof (induction fd body left sz s rule: deliver_loop.induct)
  case (1 fd body left sz s)
  obtain w s1 where w: "k_write fd body left s = (w, s1)" by fastforce
  show ?case
    using "1.IH" [OF _ w [symmetric]] w
    by (subst deliver_loop.simps) simp
qed

lemma deliver_to_fd_outcome:
  assumes "wf_net s"
  shows "(case deliver_to_fd m s of
      Inl e \<Rightarrow> e = Undefined Uninit_Read \<and> m_size m = 0
    | Inr s' \<Rightarrow> wf_net s' \<and> network s' = network s \<and> next_cell s' = next_cell s \<and>
        is_direct s' = is_direct s)"
proof (cases "status_of s (cells s (m_fd m))")
  case None
  then show ?thesis using assms by (simp add: deliver_to_fd_def)
next
  case (Some cs)
  define fd where "fd = cells s (m_fd m)"
  obtain r s1 where l: "deliver_loop fd (msg_body m) (unat (m_size m)) None s = (r, s1)" by fastforce
  have sb: "same_but_sockets s s1" using deliver_loop_frame [OF l] by blast
  note q = same_but_sockets_simps [OF sb]
  have wf1: "wf_net s1" by (rule same_but_sockets_wf [OF sb assms])
  have st: "status_of s1 fd = Some cs" using Some q by (simp add: fd_def)
  have nz: "unat (m_size m) = 0 \<or> r \<noteq> None"
    using deliver_loop_None [of fd "msg_body m" "unat (m_size m)" None s] l by auto
  have cl: "wf_net (close_result fd t True s1)" for t
    by (rule close_result_keeps_wf [OF wf1 st])
  show ?thesis
    using Some l nz wf1 cl q
    by (cases "cs_disconnected cs"; cases r)
      (auto simp: deliver_to_fd_def fd_def [symmetric] Let_def close_connection_eq [OF wf1] net_simps
        assms unat_eq_0)
qed

lemma wf_network [simp]: "wf_net (s\<lparr>network := n\<rparr>) = wf_net s"
proof -
  have st: "status_of (s\<lparr>network := n\<rparr>) g = status_of s g" for g by (simp add: status_of_def)
  have "entry_ok (s\<lparr>network := n\<rparr>) fd cs = entry_ok s fd cs" for fd cs
    by (simp add: entry_ok_def peer_ok_def st)
  then show ?thesis by (simp add: wf_net_def owned_def clients_ok_def st)
qed

lemma status_network [simp]: "status_of (s\<lparr>network := n\<rparr>) g = status_of s g"
  by (simp add: status_of_def)

lemma msgs_okD: "msgs_ok cont s \<Longrightarrow> network s k = Some q \<Longrightarrow> m \<in> set (cont q) \<Longrightarrow> m_fd m < next_cell s"
  unfolding msgs_ok_def by blast

lemma msgs_okI:
  "(\<And>k q m. network s k = Some q \<Longrightarrow> m \<in> set (cont q) \<Longrightarrow> m_fd m < next_cell s) \<Longrightarrow> msgs_ok cont s"
  unfolding msgs_ok_def by blast

text \<open>What a successful delivery call has done: it has perhaps taken messages from one queue, and
  then handled one message, or none.\<close>

lemma deliver_msg_cases:
  assumes "fifo Q cont" and "deliver_msg Q ch None s = Inr s'"
  obtains "network s (chan_key ch) = None" "s' = s"
  | q q' where "network s (chan_key ch) = Some q" "\<forall>m \<in> set (cont q). cells s (m_fd m) < 0"
      "cont q' = []" "s' = s\<lparr>network := (network s)(chan_key ch \<mapsto> q')\<rparr>"
  | q q' dead m where "network s (chan_key ch) = Some q" "cont q = dead @ m # cont q'"
      "\<forall>d \<in> set dead. cells s (m_fd d) < 0" "0 \<le> cells s (m_fd m)"
      "deliver_to_fd m (s\<lparr>network := (network s)(chan_key ch \<mapsto> q')\<rparr>) = Inr s'"
proof (cases "network s (chan_key ch)")
  case None
  have "s' = s" using assms(2) None by (simp add: deliver_msg_def)
  with None show ?thesis by (rule that(1))
next
  case (Some q)
  obtain q' mo where d: "deq_live Q (cells s) (Suc (q_size Q q)) q = (q', mo)" by fastforce
  have "length (cont q) < Suc (q_size Q q)" using fifo_size [OF assms(1), of q] by simp
  note e = deq_live_enough [OF assms(1) this, of "cells s", unfolded d]
  show ?thesis
  proof (cases mo)
    case None
    have "s' = s\<lparr>network := (network s)(chan_key ch \<mapsto> q')\<rparr>"
      using assms(2) Some d None by (simp add: deliver_msg_def)
    moreover have "\<forall>m \<in> set (cont q). cells s (m_fd m) < 0" "cont q' = []" using e None by simp_all
    ultimately show ?thesis using that(2) [OF Some] by blast
  next
    case m: (Some m)
    have "deliver_to_fd m (s\<lparr>network := (network s)(chan_key ch \<mapsto> q')\<rparr>) = Inr s'"
      using assms(2) Some d m by (simp add: deliver_msg_def)
    moreover obtain dead where "cont q = dead @ m # cont q'" "\<forall>d \<in> set dead. cells s (m_fd d) < 0"
      "0 \<le> cells s (m_fd m)"
      using e m by auto
    ultimately show ?thesis using that(3) [OF Some] by blast
  qed
qed

lemma deliver_msg_wf:
  assumes "fifo Q cont" and "wf_net s"
  shows "(case deliver_msg Q ch mo s of
      Inl e \<Rightarrow> e = Undefined Uninit_Read
    | Inr s' \<Rightarrow> wf_net s' \<and> next_cell s' = next_cell s \<and> is_direct s' = is_direct s \<and>
       (\<forall>k. k \<noteq> chan_key ch \<longrightarrow> network s' k = network s k))"
proof (cases mo)
  case (Some m)
  then show ?thesis using deliver_to_fd_outcome [OF assms(2), of m]
    by (auto simp: deliver_msg_def split: sum.splits)
next
  case None
  have o: "case deliver_to_fd m (s\<lparr>network := (network s)(chan_key ch \<mapsto> q')\<rparr>) of
      Inl e \<Rightarrow> e = Undefined Uninit_Read
    | Inr s' \<Rightarrow> wf_net s' \<and> next_cell s' = next_cell s \<and> is_direct s' = is_direct s \<and>
       (\<forall>k. k \<noteq> chan_key ch \<longrightarrow> network s' k = network s k)" for m q'
    using deliver_to_fd_outcome [of "s\<lparr>network := (network s)(chan_key ch \<mapsto> q')\<rparr>" m] assms(2)
    by (auto split: sum.splits)
  show ?thesis
    using None o assms(2)
    by (auto simp: deliver_msg_def split: option.splits prod.splits)
qed

lemma deliver_msg_msgs_ok:
  assumes "fifo Q cont" and "wf_net s" and "msgs_ok cont s" and "deliver_msg Q ch None s = Inr s'"
  shows "msgs_ok cont s'"
  using assms(1,4)
proof (cases rule: deliver_msg_cases)
  case (3 q q' dead m)
  have w: "wf_net (s\<lparr>network := (network s)(chan_key ch \<mapsto> q')\<rparr>)" using assms(2) by simp
  have "network s' = (network s)(chan_key ch \<mapsto> q') \<and> next_cell s' = next_cell s"
    using deliver_to_fd_outcome [OF w, of m] 3(5) by simp
  then show ?thesis using 3(1,2) msgs_okD [OF assms(3)]
    by (intro msgs_okI) (auto split: if_splits)
next
  case (2 q q')
  then show ?thesis using msgs_okD [OF assms(3)] by (intro msgs_okI) (auto split: if_splits)
qed (use assms(3) in simp)

text \<open>What \<^verbatim>\<open>deliver_to_fd\<close> sends goes to the descriptor in the message's cell, and only while its
  entry is connected.\<close>

lemma k_close_sockets: "sockets (k_close fd s) g = (if g = fd then None else sockets s g)"
  by (simp add: k_close_simps)

lemma close_result_sockets:
  "sockets (close_result fd tag cp s) g = Some k \<Longrightarrow> sockets s g = Some k"
  by (auto simp: close_result_def Let_def net_simps do_close_def split: option.splits if_splits)

lemma deliver_to_fd_sends:
  assumes "wf_net s" and "deliver_to_fd m s = Inr s'" and "sockets s g = Some k" and "sockets s' g = Some k'"
    and "tx k' \<noteq> tx k"
  shows "g = cells s (m_fd m) \<and> (\<exists>cs. status_of s g = Some cs \<and> \<not> cs_disconnected cs)"
proof -
  define fd where "fd = cells s (m_fd m)"
  obtain cs where cs: "status_of s fd = Some cs" "\<not> cs_disconnected cs"
    using assms(2-5) by (auto simp: deliver_to_fd_def fd_def Let_def split: option.splits if_splits)
  obtain r s1 where l: "deliver_loop fd (msg_body m) (unat (m_size m)) None s = (r, s1)" by fastforce
  note f = deliver_loop_frame [OF l]
  have wf1: "wf_net s1" using same_but_sockets_wf f assms(1) by blast
  have "s' = s1 \<or> (\<exists>t. s' = close_result (cells s1 (m_fd m)) t True s1)"
    using assms(2) cs l
    by (auto simp: deliver_to_fd_def fd_def [symmetric] Let_def close_connection_eq [OF wf1]
        split: option.splits if_splits)
  then have "sockets s1 g = Some k'" using assms(4) close_result_sockets by blast
  then have "g = fd" using f assms(3,5) by force
  then show ?thesis using cs by (simp add: fd_def)
qed

text \<open>The shape of a state behind it: writes to sockets and perhaps one closed connection.\<close>

lemma deliver_to_fd_shape:
  assumes "wf_net s" and "deliver_to_fd m s = Inr s'"
  shows "\<exists>s1 fd t. same_but_sockets s s1 \<and>
    (s' = s1 \<or> status_of s fd \<noteq> None \<and> s' = close_result fd t True s1)"
proof (cases "\<exists>cs. status_of s (cells s (m_fd m)) = Some cs \<and> \<not> cs_disconnected cs")
  case False
  then have "s' = s" using assms(2) by (auto simp: deliver_to_fd_def Let_def split: option.splits if_splits)
  then show ?thesis using same_but_sockets_refl by blast
next
  case True
  define fd where "fd = cells s (m_fd m)"
  obtain r s1 where l: "deliver_loop fd (msg_body m) (unat (m_size m)) None s = (r, s1)" by fastforce
  have sb: "same_but_sockets s s1" using deliver_loop_frame [OF l] by blast
  note q = same_but_sockets_simps [OF sb] and w = same_but_sockets_wf [OF sb assms(1)]
  have "s' = s1 \<or> (\<exists>t. s' = close_result fd t True s1)"
    using assms(2) True l q
    by (auto simp: deliver_to_fd_def fd_def [symmetric] Let_def close_connection_eq [OF w]
        split: option.splits if_splits)
  then show ?thesis using True sb by (auto simp: fd_def)
qed

lemma deliver_to_fd_mono:
  assumes "wf_net s" and "deliver_to_fd m s = Inr s'"
  shows "cells_mono s s'"
proof -
  obtain s1 fd t where s1: "same_but_sockets s s1" "s' = s1 \<or> s' = close_result fd t True s1"
    using deliver_to_fd_shape [OF assms] by blast
  have "cells_mono s s1" using same_but_sockets_simps [OF s1(1)] by (simp add: cells_mono_same)
  then show ?thesis using s1(2) cells_mono_trans close_result_mono by blast
qed

lemma deliver_msg_mono:
  assumes "fifo Q cont" and "wf_net s" and "deliver_msg Q ch None s = Inr s'"
  shows "cells_mono s s'"
  using assms(1,3)
proof (cases rule: deliver_msg_cases)
  case (3 q q' dead m)
  from deliver_to_fd_mono [OF _ 3(5)] show ?thesis using assms(2) by (simp add: cells_mono_def)
qed (simp_all add: cells_mono_same)

section \<open>Properties\<close>

text \<open>C8: A delivered message reaches the connection it was received for or none: if a \<^verbatim>\<open>deliver\<close> command
  makes anything go out on a descriptor, then this descriptor currently belongs to the entry that owns
  the cell of the first message of the channel whose connection is not closed, and this entry is
  connected. A new connection that got the number of a closed one never sees its messages.\<close>

theorem delivery_only_to_own_connection:
  assumes "fifo Q cont" and "wf_net s" and "msgs_ok cont s" and "deliver_msg Q ch None s = Inr s'"
    and "sockets s g = Some k" and "sockets s' g = Some k'" and "tx k' \<noteq> tx k"
  shows "\<exists>q dead m rest cs. network s (chan_key ch) = Some q \<and> cont q = dead @ m # rest \<and>
    (\<forall>d \<in> set dead. cells s (m_fd d) = - 1) \<and>
    status_of s g = Some cs \<and> cs_self cs = m_fd m \<and> \<not> cs_disconnected cs"
  using assms(1,4)
proof (cases rule: deliver_msg_cases)
  case (3 q q' dead m)
  let ?s = "s\<lparr>network := (network s)(chan_key ch \<mapsto> q')\<rparr>"
  have a: "m_fd d < next_cell s" if "d \<in> set (cont q)" for d
    by (rule msgs_okD [OF assms(3) 3(1) that])
  have d: "cells s (m_fd d) = - 1" if dead: "d \<in> set dead" for d
  proof (rule ccontr)
    assume "cells s (m_fd d) \<noteq> - 1"
    then obtain cs where "status_of s (cells s (m_fd d)) = Some cs"
      using live_cell [OF assms(2) a [of d]] dead 3(2) by auto
    from entry_owned(2) [OF assms(2) this] show False using 3(3) dead by force
  qed
  have g: "g = cells s (m_fd m)" "\<exists>cs. status_of s g = Some cs \<and> \<not> cs_disconnected cs"
    using deliver_to_fd_sends [OF _ 3(5), of g k k'] assms(2,5-7) by auto
  moreover have "\<exists>cs. status_of s g = Some cs \<and> cs_self cs = m_fd m"
    using live_cell [OF assms(2) a [of m]] 3(2,4) g(1) by auto
  ultimately obtain cs where "status_of s g = Some cs" "cs_self cs = m_fd m" "\<not> cs_disconnected cs"
    by auto
  with 3(1,2) d show ?thesis by blast
qed (use assms(5-7) in auto)

text \<open>One connection between the descriptors 5 and 6, with a buffered message for 6.\<close>

definition example_channel :: channel where
  "example_channel = \<lparr>ch_first = \<lparr>sin_family = AF_INET, sin_port = 0, s_addr = 1\<rparr>,
     ch_second = \<lparr>sin_family = AF_INET, sin_port = 0, s_addr = 2\<rparr>\<rparr>"

definition example_reverse :: channel where
  "example_reverse = \<lparr>ch_first = ch_second example_channel, ch_second = ch_first example_channel\<rparr>"

definition example_msg :: "u8 list \<Rightarrow> msg" where
  "example_msg body = \<lparr>m_fd = 1, m_size = of_nat (length body), m_content = frame body\<rparr>"

definition example_net :: "sock \<Rightarrow> msg list \<Rightarrow> msg list net" where
  "example_net k q = \<lparr>sockets = [5 \<mapsto> new_sock, 6 \<mapsto> k], monitored = {5, 6}, bad_closes = [],
     cells = (\<lambda>c. if c = 0 then 5 else if c = 1 then 6 else - 1), next_cell = 2,
     chan_status = [(5, \<lparr>cs_channel = example_channel, cs_self = 0, cs_fd = 1, cs_disconnected = False\<rparr>),
       (6, \<lparr>cs_channel = example_reverse, cs_self = 1, cs_fd = 0, cs_disconnected = False\<rparr>)],
     network = [chan_key example_channel \<mapsto> q], client_to_fd = [], fd_to_client = Map.empty,
     unintercepted = {}, is_direct = False\<rparr>"

lemma example_status:
  "status_of (example_net k q) 5 =
     Some \<lparr>cs_channel = example_channel, cs_self = 0, cs_fd = 1, cs_disconnected = False\<rparr>"
  "status_of (example_net k q) 6 =
     Some \<lparr>cs_channel = example_reverse, cs_self = 1, cs_fd = 0, cs_disconnected = False\<rparr>"
  "status_of (example_net k q) g = Some cs \<Longrightarrow> g = 5 \<or> g = 6"
  by (auto simp: status_of_def example_net_def om_find_def split: if_splits)

lemma example_wf: "wf_net (example_net k q)"
proof (rule wf_netI)
  show "om_ok (chan_status (example_net k q))" by (simp add: example_net_def)
  show "owned (example_net k q) c" if "c < next_cell (example_net k q)" for c
  proof -
    have "c = 0 \<or> c = 1" using that by (auto simp: example_net_def)
    then have "cells (example_net k q) c = (if c = 0 then 5 else 6)" by (auto simp: example_net_def)
    then show ?thesis using \<open>c = 0 \<or> c = 1\<close> example_status(1,2) [of k q] by (auto simp: owned_def)
  qed
  show "entry_ok (example_net k q) fd cs" if st: "status_of (example_net k q) fd = Some cs" for fd cs
  proof -
    have c: "cells (example_net k q) 0 = 5" "cells (example_net k q) (Suc 0) = 6"
      by (simp_all add: example_net_def)
    have "fd = 5 \<or> fd = 6" using example_status(3) [OF st] .
    then show ?thesis
      using st example_status(1,2) [of k q]
      by (auto simp: entry_ok_def peer_ok_def paired_def c example_reverse_def)
        (auto simp: example_net_def)
  qed
  show "clients_ok (example_net k q)" by (simp add: clients_ok_def example_net_def)
qed (simp add: example_net_def)

lemma example_msgs_ok: "\<forall>m \<in> set q. m_fd m < 2 \<Longrightarrow> msgs_ok id (example_net k q)"
  by (rule msgs_okI) (auto simp: example_net_def split: if_splits)

lemma deliver_loop_all:
  assumes "sockets s fd = Some k" and "plan k = []" and "0 < left"
  shows "deliver_loop fd body left sz s =
    (Some (int left), s\<lparr>sockets := (sockets s)(fd \<mapsto> k\<lparr>tx := tx k @ take left body\<rparr>)\<rparr>)"
proof -
  have "k_write fd body left s =
      (int left, s\<lparr>sockets := (sockets s)(fd \<mapsto> k\<lparr>tx := tx k @ take left body, plan := []\<rparr>)\<rparr>)"
    using assms by (simp add: k_write_def Let_def)
  moreover have "k\<lparr>tx := tx k @ take left body, plan := []\<rparr> = k\<lparr>tx := tx k @ take left body\<rparr>"
    using assms(2) by simp
  moreover have "deliver_loop fd body 0 x t = (x, t)" for x t
    by (subst deliver_loop.simps) simp
  ultimately show ?thesis using assms(3) by (subst deliver_loop.simps) simp
qed

definition msg_ok :: "msg \<Rightarrow> bool" where
  "msg_ok m \<longleftrightarrow> length (m_content m) = header_size + unat (m_size m)"

lemma length_msg_body [simp]: "msg_ok m \<Longrightarrow> length (msg_body m) = unat (m_size m)"
  by (simp add: msg_body_def msg_ok_def)

lemma deliver_to_fd_full:
  assumes "status_of s (cells s (m_fd m)) = Some cs" and "\<not> cs_disconnected cs"
    and "sockets s (cells s (m_fd m)) = Some k" and "plan k = []" and "msg_ok m" and "0 < unat (m_size m)"
  shows "deliver_to_fd m s = Inr (s\<lparr>sockets := (sockets s)(cells s (m_fd m) \<mapsto>
    k\<lparr>tx := tx k @ msg_body m\<rparr>)\<rparr>)"
proof -
  have "take (unat (m_size m)) (msg_body m) = msg_body m" using assms(5) by simp
  then have "deliver_loop (cells s (m_fd m)) (msg_body m) (unat (m_size m)) None s =
      (Some (int (unat (m_size m))), s\<lparr>sockets := (sockets s)(cells s (m_fd m) \<mapsto>
        k\<lparr>tx := tx k @ msg_body m\<rparr>)\<rparr>)"
    using deliver_loop_all [OF assms(3,4,6), of "msg_body m" None] by simp
  moreover have "uint (m_size m) \<noteq> - 1" using uint_ge_0 [of "m_size m"] by linarith
  ultimately show ?thesis
    using assms(1,2) unfolding deliver_to_fd_def Let_def by simp
qed

lemma deliver_msg_full:
  assumes "fifo Q cont" and "wf_net s" and "network s (chan_key ch) = Some q"
    and "cont q = dead @ m # rest" and "\<forall>d \<in> set dead. cells s (m_fd d) = - 1"
    and "0 \<le> cells s (m_fd m)" and "msg_ok m" and "m_size m \<noteq> 0"
    and "status_of s (cells s (m_fd m)) = Some cs" and "\<not> cs_disconnected cs"
    and "sockets s (cells s (m_fd m)) = Some k" and "plan k = []"
  shows "\<exists>q'. cont q' = rest \<and> deliver_msg Q ch None s =
    Inr (s\<lparr>network := (network s)(chan_key ch \<mapsto> q'),
      sockets := (sockets s)(cells s (m_fd m) \<mapsto> k\<lparr>tx := tx k @ msg_body m\<rparr>)\<rparr>)"
proof -
  obtain q' mo where d: "deq_live Q (cells s) (Suc (q_size Q q)) q = (q', mo)" by fastforce
  have "length (cont q) < Suc (q_size Q q)" using fifo_size [OF assms(1), of q] by simp
  note e = deq_live_enough [OF assms(1) this, of "cells s", unfolded d]
  have "mo = Some m \<and> cont q' = rest"
  proof (cases mo)
    case None
    then have "cells s (m_fd m) < 0" using e assms(4) by simp
    then show ?thesis using assms(6) by simp
  next
    case (Some m')
    then obtain dead' where e': "dead @ m # rest = dead' @ m' # cont q'"
      "\<forall>d \<in> set dead'. cells s (m_fd d) < 0" "0 \<le> cells s (m_fd m')"
      using e assms(4) by auto
    let ?P = "\<lambda>d. cells s (m_fd d) < 0"
    have "dropWhile ?P (dead @ m # rest) = m # rest"
      using assms(5,6) by (subst dropWhile_append2) auto
    moreover have "dropWhile ?P (dead' @ m' # cont q') = m' # cont q'"
      using e'(2,3) by (subst dropWhile_append2) auto
    ultimately show ?thesis using e'(1) Some by simp
  qed
  moreover have "0 < unat (m_size m)" using assms(8) unat_gt_0 by blast
  ultimately have "deliver_msg Q ch None s = deliver_to_fd m (s\<lparr>network := (network s)(chan_key ch \<mapsto> q')\<rparr>)"
    "cont q' = rest" and pos: "0 < unat (m_size m)"
    using assms(3) d by (simp_all add: deliver_msg_def)
  moreover
  define t where "t = s\<lparr>network := (network s)(chan_key ch \<mapsto> q')\<rparr>"
  have t: "status_of t = status_of s" "cells t = cells s" "sockets t = sockets s"
    by (simp_all add: t_def fun_eq_iff)
  have "deliver_to_fd m t = Inr (t\<lparr>sockets := (sockets s)(cells s (m_fd m) \<mapsto> k\<lparr>tx := tx k @ msg_body m\<rparr>)\<rparr>)"
    using deliver_to_fd_full [of t m cs k, unfolded t] assms(7,9-12) pos by blast
  ultimately show ?thesis unfolding t_def by metis
qed

text \<open>A \<^verbatim>\<open>deliver\<close> command on a channel whose queue holds, behind messages of closed connections, a
  message of a live and connected connection with a body takes exactly these messages from the queue and,
  when the peer takes whole writes, sends exactly the body, without its header, and changes nothing
  else.\<close>

theorem deliver_sends_body:
  assumes "fifo Q cont" and "wf_net s" and "network s (chan_key ch) = Some q"
    and "cont q = dead @ m # rest" and "\<forall>d \<in> set dead. cells s (m_fd d) = - 1"
    and "0 \<le> cells s (m_fd m)" and "msg_ok m" and "m_size m \<noteq> 0"
    and "status_of s (cells s (m_fd m)) = Some cs" and "\<not> cs_disconnected cs"
    and "sockets s (cells s (m_fd m)) = Some k" and "plan k = []"
  shows "\<exists>q'. cont q' = rest \<and> deliver_msg Q ch None s =
    Inr (s\<lparr>network := (network s)(chan_key ch \<mapsto> q'),
      sockets := (sockets s)(cells s (m_fd m) \<mapsto> k\<lparr>tx := tx k @ msg_body m\<rparr>)\<rparr>)"
  by (rule deliver_msg_full [OF assms])

lemma frame_msg_ok: "length body < 2 ^ 32 \<Longrightarrow> msg_ok (example_msg body)"
  by (simp add: msg_ok_def example_msg_def header_size_def unat_of_nat take_bit_nat_eq_self)

lemma msg_body_example [simp]: "msg_body (example_msg body) = body"
  by (simp add: msg_body_def example_msg_def frame_def header_size_def)

theorem deliver_sends_body_witness:
  "\<exists>s'. deliver_msg list_queue example_channel None
      (example_net new_sock [(example_msg [9])\<lparr>m_fd := 7\<rparr>, example_msg [1, 2]]) = Inr s' \<and>
    sockets s' 6 = Some (new_sock\<lparr>tx := [1, 2]\<rparr>)"
proof -
  let ?d = "(example_msg [9])\<lparr>m_fd := 7\<rparr>" and ?m = "example_msg [1, 2]"
  let ?s = "example_net new_sock [?d, ?m]"
  have c: "cells ?s (m_fd ?m) = 6" "cells ?s (m_fd ?d) = - 1"
    by (simp_all add: example_net_def example_msg_def)
  have n: "network ?s (chan_key example_channel) = Some [?d, ?m]" "sockets ?s 6 = Some new_sock"
    by (simp_all add: example_net_def)
  have z: "m_size ?m \<noteq> 0" by (simp add: example_msg_def)
  show ?thesis
    using deliver_sends_body [OF fifo_list_queue example_wf n(1), of "[?d]" ?m "[]"] c n z
      frame_msg_ok [of "[1, 2]"] example_status(2) by (fastforce simp: new_sock_def)
qed

theorem delivery_only_to_own_connection_witness:
  "\<exists>s' dead m rest. deliver_msg list_queue example_channel None (example_net new_sock [example_msg [1, 2]]) = Inr s' \<and>
    [example_msg [1, 2]] = dead @ m # rest \<and> m_fd m = 1"
proof -
  let ?m = "example_msg [1, 2]"
  let ?s = "example_net new_sock [?m]"
  have c: "cells ?s (m_fd ?m) = 6" "network ?s (chan_key example_channel) = Some [?m]"
    "sockets ?s 6 = Some new_sock" "m_size ?m \<noteq> 0" "status_of ?s 6 = Some
      \<lparr>cs_channel = example_reverse, cs_self = 1, cs_fd = 0, cs_disconnected = False\<rparr>"
    by (simp_all add: example_net_def example_msg_def status_of_def om_find_def)
  obtain s' where s': "deliver_msg list_queue example_channel None ?s = Inr s'"
    "sockets s' 6 = Some (new_sock\<lparr>tx := [1, 2]\<rparr>)"
    using deliver_msg_full [OF fifo_list_queue example_wf c(2), of "[]" ?m "[]"] c
      frame_msg_ok [of "[1, 2]"] by (fastforce simp: new_sock_def)
  have "msgs_ok id ?s" by (rule example_msgs_ok) (simp add: example_msg_def)
  from delivery_only_to_own_connection [OF fifo_list_queue example_wf this s'(1) c(3) s'(2)] c s'
  show ?thesis by (fastforce simp: new_sock_def example_net_def)
qed

text \<open>C36: A write that takes only the first \<open>k\<close> bytes of a body is not continued where it stopped: the
  loop writes from the start of the body again, so that the receiver gets the first \<open>k\<close> bytes
  and then a prefix of the body instead of the rest.\<close>

theorem partial_write_restarts:
  assumes "wf_net s" and "msg_ok m" and "0 < n" and "n < unat (m_size m)"
    and "status_of s (cells s (m_fd m)) = Some cs" and "\<not> cs_disconnected cs"
    and "sockets s (cells s (m_fd m)) = Some k" and "plan k = [W_Part n]"
  shows "deliver_to_fd m s = Inr (s\<lparr>sockets := (sockets s)(cells s (m_fd m) \<mapsto>
    k\<lparr>plan := [], tx := tx k @ take n (msg_body m) @ take (unat (m_size m) - n) (msg_body m)\<rparr>)\<rparr>)"
proof -
  let ?fd = "cells s (m_fd m)" and ?b = "msg_body m" and ?l = "unat (m_size m)"
  define s1 where "s1 = s\<lparr>sockets := (sockets s)(?fd \<mapsto> k\<lparr>tx := tx k @ take n ?b, plan := []\<rparr>)\<rparr>"
  have "k_write ?fd ?b ?l s = (int n, s1)"
    using assms(3,4,7,8) by (simp add: k_write_def Let_def s1_def max_def min_def)
  moreover have "deliver_loop ?fd ?b (?l - n) (Some (int n)) s1 =
      (Some (int (?l - n)), s1\<lparr>sockets := (sockets s1)(?fd \<mapsto>
        (k\<lparr>tx := tx k @ take n ?b, plan := []\<rparr>)\<lparr>tx := (tx k @ take n ?b) @ take (?l - n) ?b\<rparr>)\<rparr>)"
    using assms(4) deliver_loop_all [of s1 ?fd "k\<lparr>tx := tx k @ take n ?b, plan := []\<rparr>" "?l - n" ?b]
    by (simp add: s1_def)
  ultimately have "deliver_loop ?fd ?b ?l None s = (Some (int (?l - n)), s\<lparr>sockets := (sockets s)(?fd \<mapsto>
      k\<lparr>plan := [], tx := tx k @ take n ?b @ take (?l - n) ?b\<rparr>)\<rparr>)"
    using assms(3,4) by (subst deliver_loop.simps) (simp add: s1_def)
  then show ?thesis using assms(5,6) by (simp add: deliver_to_fd_def Let_def)
qed

theorem partial_write_restarts_witness:
  "\<exists>s' k. deliver_to_fd (example_msg [1, 2, 3]) (example_net (new_sock\<lparr>plan := [W_Part 1]\<rparr>) []) = Inr s' \<and>
    sockets s' 6 = Some k \<and> tx k = [1, 1, 2]"
proof -
  let ?s = "example_net (new_sock\<lparr>plan := [W_Part 1]\<rparr>) []" and ?m = "example_msg [1, 2, 3]"
  have c: "cells ?s (m_fd ?m) = 6" "sockets ?s 6 = Some (new_sock\<lparr>plan := [W_Part 1]\<rparr>)"
    by (simp_all add: example_net_def example_msg_def)
  have z: "unat (m_size ?m) = 3" by (simp add: example_msg_def)
  show ?thesis
    using partial_write_restarts [OF example_wf, of ?m 1 "new_sock\<lparr>plan := [W_Part 1]\<rparr>" "[]"] c z
      frame_msg_ok [of "[1, 2, 3]"] example_status(2)
    by (simp add: new_sock_def)
qed

text \<open>A message with an empty body, which \<^verbatim>\<open>send\<close> of zero bytes produces, makes \<^verbatim>\<open>deliver_msg\<close> test the
  variable \<^verbatim>\<open>size\<close> although nothing was ever stored in it.\<close>

theorem empty_message_reads_uninitialised:
  assumes "m_size m = 0" and "status_of s (cells s (m_fd m)) = Some cs" and "\<not> cs_disconnected cs"
  shows "deliver_to_fd m s = Inl (Undefined Uninit_Read)"
  using assms by (simp add: deliver_to_fd_def Let_def deliver_loop.simps)

theorem empty_message_reads_uninitialised_witness:
  "deliver_to_fd (example_msg []) (example_net new_sock []) = Inl (Undefined Uninit_Read)"
proof -
  have c: "cells (example_net new_sock []) (m_fd (example_msg [])) = 6"
    by (simp add: example_net_def example_msg_def)
  show ?thesis
    using empty_message_reads_uninitialised [of "example_msg []" "example_net new_sock []"] c
      example_status(2) [of new_sock "[]"]
    by (simp add: example_msg_def)
qed

end
