(* ===== verification/Net_Receive.thy ===== *)
theory Net_Receive
  imports Net_Deliver
begin

text \<open>
  Reception: \<^verbatim>\<open>do_receive\<close> and \<^verbatim>\<open>transfer_unintercepted\<close> of \<^verbatim>\<open>tproxy/TcpNetwork.cpp\<close>. The loop peeks at a
  header, validates it, reads header and body as one message and enqueues it, until the bytes are used
  up; a connection whose first bytes are not a header is marked and its bytes are passed on as they
  are. The iterator \<^verbatim>\<open>cf\<close> is looked up once; every use of it is a \<open>deref\<close>, which is undefined when the
  entry has been erased meanwhile.
\<close>

section \<open>Operations\<close>

definition deref :: "fd \<Rightarrow> 'q net \<Rightarrow> channel_status result" where
  "deref fd s = (case status_of s fd of None \<Rightarrow> Inl (Undefined Dangling) | Some cs \<Rightarrow> Inr cs)"

definition set_unintercepted :: "fd \<Rightarrow> 'q net \<Rightarrow> 'q net" where
  "set_unintercepted fd s = s\<lparr>unintercepted := insert fd (unintercepted s)\<rparr>"

definition BUFFER_SIZE :: nat where "BUFFER_SIZE = 1460"

text \<open>Bytes that still wait on a descriptor: the measure of both loops.\<close>

definition rx_len :: "fd \<Rightarrow> 'q net \<Rightarrow> nat" where
  "rx_len fd s = (case sockets s fd of None \<Rightarrow> 0 | Some k \<Rightarrow> length (rx k))"

text \<open>How the loop of \<^verbatim>\<open>transfer_unintercepted\<close> ends: after a failed \<^verbatim>\<open>send\<close>, or with the last value of
  \<^verbatim>\<open>recv\<close>.\<close>

datatype transfer_end = Send_Failed | Recv_End int bool

lemma k_recv_progress:
  "k_recv fd n s = (r, again, bs, s') \<Longrightarrow> 0 < r \<Longrightarrow> rx_len fd s' + nat r = rx_len fd s \<and> nat r \<le> n"
  by (auto simp: k_recv_def k_peek_def k_drop_def rx_len_def split: option.splits rx_end.splits if_splits)

lemma k_write_rx_len: "k_write fd buf n s = (r, s') \<Longrightarrow> rx_len g s' = rx_len g s"
  using k_write_frame(2,3) [of fd buf n s r s']
  by (cases "g = fd") (auto simp: rx_len_def split: option.splits)

lemma k_write_rx_all: "k_write fd buf n s = (r, s') \<Longrightarrow> \<forall>g. rx_len g s' = rx_len g s"
  by (blast intro: k_write_rx_len)

function transfer_loop :: "fd \<Rightarrow> fd \<Rightarrow> 'q net \<Rightarrow> 'q net \<times> transfer_end" where
  "transfer_loop out_fd in_fd s =
     (case k_recv in_fd BUFFER_SIZE s of (r, again, bs, s1) \<Rightarrow>
      if r > 0 then
        (case k_write out_fd bs (nat r) s1 of (w, s2) \<Rightarrow>
          if w = - 1 then (s2, Send_Failed) else transfer_loop out_fd in_fd s2)
      else (s1, Recv_End r again))"
  by pat_completeness auto
termination
  by (relation "measure (\<lambda>(out_fd, in_fd, s). rx_len in_fd s)")
    (auto dest!: k_recv_progress [OF sym] k_write_rx_all [OF sym])

declare transfer_loop.simps [simp del]

definition transfer_unintercepted :: "fd \<Rightarrow> fd \<Rightarrow> 'q net \<Rightarrow> 'q net result" where
  "transfer_unintercepted out_fd in_fd s =
     (case transfer_loop out_fd in_fd s of
        (s1, Send_Failed) \<Rightarrow> close_connection in_fd False True s1
      | (s1, Recv_End r again) \<Rightarrow>
          if r = - 1 \<and> \<not> again then close_connection in_fd False True s1
          else if r = 0 then close_connection in_fd False True s1
          else Inr s1)"

text \<open>How the receiving loop ends: with a \<^verbatim>\<open>return\<close> inside it, with an invalid header (\<^verbatim>\<open>break\<close>), or with a
  value of \<^verbatim>\<open>recv\<close> other than the size of a header, and what \<^verbatim>\<open>header\<close> holds then.\<close>

datatype receive_end = Returned | Invalid | Stopped int bool msg_header

text \<open>One turn of the loop; \<open>Inr\<close> is the end of it.\<close>

definition new_msg :: "nat \<Rightarrow> msg_header \<Rightarrow> u8 list \<Rightarrow> msg" where
  "new_msg cell h content = \<lparr>m_fd = cell, m_size = ntohl (size h), m_content = content\<rparr>"

definition receive_turn ::
  "('q, msg) queue_ops \<Rightarrow> fd \<Rightarrow> msg_header \<Rightarrow> 'q net \<Rightarrow> ('q net \<times> msg_header \<times> receive_end option) result" where
  "receive_turn Q fd header s =
     (case k_peek fd header_size s of (r, again, bs) \<Rightarrow>
      let h = recv_header bs header in
      if r \<noteq> int header_size then Inr (s, h, Some (Stopped r again h))
      else and_then (deref fd s) (\<lambda>cf.
        if \<not> packet_validation h header_size then Inr (set_unintercepted fd s, h, Some Invalid)
        else
          let n = header_size + unat (ntohl (size h)) in
          case k_recv fd n s of (r2, again2, content, s1) \<Rightarrow>
          if r2 = - 1 then
            (if \<not> again2 then Inr (s1, h, Some Returned)
             else and_then (close_connection fd False True s1) (\<lambda>s2. Inr (s2, h, Some Returned)))
          else if r2 \<noteq> int n then
            and_then (close_connection fd False True s1) (\<lambda>s2. Inr (s2, h, Some Returned))
          else and_then (deref fd s1) (\<lambda>cf1.
            and_then (enqueue_msg Q cf1 (new_msg (cs_fd cf) h content) s1) (\<lambda>s2. Inr (s2, h, None)))))"

lemma enqueue_msg_rx_len:
  assumes "enqueue_msg Q cf m s = Inr s'"
  shows "rx_len g s' \<le> rx_len g s"
proof -
  have cc: "rx_len g x' \<le> rx_len g x" if "close_connection fd t cp x = Inr x'" for fd t cp and x x' :: "'a net"
    using that by (auto simp: close_connection_def Let_def rx_len_def net_simps do_close_def
        split: option.splits if_splits)
  have d: "rx_len g x' \<le> rx_len g x" if dt: "deliver_to_fd m x = Inr x'" for x x' :: "'a net"
  proof -
    obtain r x1 where l: "deliver_loop (cells x (m_fd m)) (msg_body m) (unat (m_size m)) None x = (r, x1)"
      by fastforce
    have "rx_len g x1 = rx_len g x"
      using deliver_loop_frame [OF l]
      by (cases "g = cells x (m_fd m)") (auto simp: rx_len_def split: option.splits)
    then show ?thesis
      using dt l cc by (fastforce simp: deliver_to_fd_def Let_def split: option.splits if_splits)
  qed
  show ?thesis
    using assms d by (auto simp: enqueue_msg_def deliver_msg_def rx_len_def Let_def split: if_splits)
qed

lemma receive_turn_progress:
  assumes "receive_turn Q fd header s = Inr (s', h, None)"
  shows "rx_len fd s' < rx_len fd s"
proof -
  obtain r again bs where p: "k_peek fd header_size s = (r, again, bs)" by (metis prod_cases3)
  define n where "n = header_size + unat (ntohl (size (recv_header bs header)))"
  obtain r2 again2 content s1 where rc: "k_recv fd n s = (r2, again2, content, s1)" by (metis prod_cases4)
  obtain cf m where e: "enqueue_msg Q cf m s1 = Inr s'" "r2 = int n"
    using assms p rc
    by (auto simp: receive_turn_def n_def [symmetric] Let_def result_simps split: if_splits)
  have "0 < n" by (simp add: n_def header_size_def)
  then have "0 < r2" using e(2) by simp
  then show ?thesis using k_recv_progress [OF rc] enqueue_msg_rx_len [OF e(1), of fd] by linarith
qed

function receive_loop ::
  "('q, msg) queue_ops \<Rightarrow> fd \<Rightarrow> msg_header \<Rightarrow> 'q net \<Rightarrow> ('q net \<times> receive_end) result" where
  "receive_loop Q fd header s =
     (case receive_turn Q fd header s of
        Inl e \<Rightarrow> Inl e
      | Inr (s', h, Some x) \<Rightarrow> Inr (s', x)
      | Inr (s', h, None) \<Rightarrow> receive_loop Q fd h s')"
  by pat_completeness auto
termination
  by (relation "measure (\<lambda>(Q, fd, header, s). rx_len fd s)") (auto dest!: receive_turn_progress)

declare receive_loop.simps [simp del]

text \<open>\<^verbatim>\<open>transfer_unintercepted(*cf->second.fd, fd)\<close>.\<close>

definition transfer :: "fd \<Rightarrow> 'q net \<Rightarrow> 'q net result" where
  "transfer fd s =
     and_then (deref fd s) (\<lambda>cf. transfer_unintercepted (cells s (cs_fd cf)) fd s)"

definition do_receive :: "('q, msg) queue_ops \<Rightarrow> fd \<Rightarrow> 'q net \<Rightarrow> 'q net result" where
  "do_receive Q fd s =
     (case status_of s fd of
        None \<Rightarrow> close_connection fd False True s
      | Some _ \<Rightarrow>
          if fd \<in> unintercepted s then transfer fd s
          else and_then (receive_loop Q fd zero_header s) (\<lambda>(s1, e).
            case e of
              Returned \<Rightarrow> Inr s1
            | Invalid \<Rightarrow> transfer fd s1
            | Stopped r again h \<Rightarrow>
                if r = - 1 then (if \<not> again then close_connection fd False True s1 else Inr s1)
                else if r = 0 then close_connection fd False True s1
                else if \<not> packet_validation h (nat r)
                then and_then (deref fd s1) (\<lambda>cf. transfer fd (set_unintercepted fd s1))
                else Inr s1))"

section \<open>Lemmas: what the handler keeps\<close>

definition live_or_closed :: "fd \<Rightarrow> 'q net \<Rightarrow> bool" where
  "live_or_closed fd s \<longleftrightarrow> (status_of s fd = None \<longrightarrow> sockets s fd = None)"

text \<open>The loops' invariant: the state is well formed, the messages hold allocated cells, the descriptor
  is no router connection, and it is closed if its entry is gone.\<close>

definition receiving :: "('q \<Rightarrow> msg list) \<Rightarrow> fd \<Rightarrow> 'q net \<Rightarrow> bool" where
  "receiving cont fd s \<longleftrightarrow> wf_net s \<and> msgs_ok cont s \<and> fd_to_client s fd = None \<and> live_or_closed fd s"

lemma receivingD:
  assumes "receiving cont fd s"
  shows "wf_net s" "msgs_ok cont s" "fd_to_client s fd = None" "live_or_closed fd s"
  using assms by (simp_all add: receiving_def)

lemma receivingI:
  "wf_net s \<Longrightarrow> msgs_ok cont s \<Longrightarrow> fd_to_client s fd = None \<Longrightarrow> live_or_closed fd s \<Longrightarrow> receiving cont fd s"
  by (simp add: receiving_def)

lemma same_but_sockets_receiving:
  "same_but_sockets s s' \<Longrightarrow> receiving cont fd s \<Longrightarrow> receiving cont fd s'"
  using same_but_sockets_wf
  by (auto simp: receiving_def msgs_ok_def live_or_closed_def same_but_sockets_simps)

lemma k_drop_same: "same_but_sockets s (k_drop fd n s)"
  by (auto simp: k_drop_def same_but_sockets_def split: option.splits if_splits)

lemma k_recv_same: "k_recv fd n s = (r, again, bs, s') \<Longrightarrow> same_but_sockets s s'"
  using k_drop_same by (auto simp: k_recv_def split: prod.splits)

lemma close_result_live:
  assumes "wf_net s" and "live_or_closed g s"
  shows "live_or_closed g (close_result fd tag True s)"
proof (cases "status_of s fd")
  case None
  then show ?thesis using assms(2)
    by (auto simp: close_result_def live_or_closed_def net_simps)
next
  case (Some cs)
  show ?thesis
  proof (cases tag)
    case True
    then show ?thesis
      using close_result_tagged [OF Some] assms(2) by (auto simp: live_or_closed_def)
  next
    case False
    note c = close_result_closed [OF assms(1) Some]
    then show ?thesis using assms(2) False by (auto simp: live_or_closed_def)
  qed
qed

lemma close_receiving:
  assumes "receiving cont g s" and "fd_to_client s fd = None"
  shows "close_connection fd tag True s = Inr (close_result fd tag True s)"
    "receiving cont g (close_result fd tag True s)"
proof -
  note r = receivingD [OF assms(1)]
  show "close_connection fd tag True s = Inr (close_result fd tag True s)"
    by (rule close_connection_eq [OF r(1)])
  show "receiving cont g (close_result fd tag True s)"
    using r close_result_wf [OF r(1) assms(2)] close_result_live [OF r(1,4)]
    by (auto simp: receiving_def net_simps msgs_ok_def)
qed

lemma deliver_to_fd_receiving:
  assumes "receiving cont g s" and "deliver_to_fd m s = Inr s'"
  shows "receiving cont g s' \<and> next_cell s' = next_cell s \<and> is_direct s' = is_direct s \<and> cells_mono s s'"
proof -
  note w = receivingD(1) [OF assms(1)]
  obtain s1 fd t where s1: "same_but_sockets s s1"
    "s' = s1 \<or> status_of s fd \<noteq> None \<and> s' = close_result fd t True s1"
    using deliver_to_fd_shape [OF w assms(2)] by blast
  note q = same_but_sockets_simps [OF s1(1)]
  have r1: "receiving cont g s1" by (rule same_but_sockets_receiving [OF s1(1) assms(1)])
  have "receiving cont g (close_result fd t True s1)" if "status_of s fd \<noteq> None"
    using close_receiving(2) [OF r1] entry_owned(5) [OF w] that q by auto
  then show ?thesis using s1(2) r1 q deliver_to_fd_mono [OF w assms(2)] by (auto simp: net_simps)
qed

lemma queue_of_msgs:
  assumes "fifo Q cont" and "msgs_ok cont s" and "m \<in> set (cont (queue_of Q s k))"
  shows "m_fd m < next_cell s"
  using assms msgs_okD [OF assms(2)] fifo_empty [OF assms(1)]
  by (auto simp: queue_of_def split: option.splits)

lemma receiving_enqueue:
  assumes "fifo Q cont" and "receiving cont g s" and "m_fd m < next_cell s"
  shows "receiving cont g (s\<lparr>network := (network s)(k \<mapsto> q_enq Q (queue_of Q s k) m)\<rparr>)"
proof -
  note r = receivingD [OF assms(2)]
  have "msgs_ok cont (s\<lparr>network := (network s)(k \<mapsto> q_enq Q (queue_of Q s k) m)\<rparr>)"
    using queue_of_msgs [OF assms(1) r(2)] assms(3) msgs_okD [OF r(2)] fifo_enq [OF assms(1)]
    by (intro msgs_okI) (auto split: if_splits)
  then show ?thesis using r by (simp add: receiving_def live_or_closed_def)
qed

lemma enqueue_msg_receiving:
  assumes "fifo Q cont" and "receiving cont g s" and "m_fd m < next_cell s"
  shows "case enqueue_msg Q cf m s of
      Inl e \<Rightarrow> e = Undefined Uninit_Read \<and> is_direct s
    | Inr s' \<Rightarrow> receiving cont g s' \<and> next_cell s' = next_cell s \<and> is_direct s' = is_direct s \<and>
        cells_mono s s'"
proof -
  note r = receivingD [OF assms(2)]
  consider "cs_disconnected cf" | "\<not> cs_disconnected cf" "is_direct s"
    | "\<not> cs_disconnected cf" "\<not> is_direct s" by blast
  then show ?thesis
  proof cases
    case 2
    then have e: "enqueue_msg Q cf m s = deliver_to_fd m s"
      by (simp add: enqueue_msg_def deliver_msg_def)
    show ?thesis
      using deliver_to_fd_outcome [OF r(1), of m] deliver_to_fd_receiving [OF assms(2), of m] 2 e
      by (auto split: sum.splits)
  next
    case 3
    then show ?thesis using receiving_enqueue [OF assms]
      by (simp add: enqueue_msg_def Let_def cells_mono_same)
  qed (use assms(2) in \<open>simp add: enqueue_msg_def\<close>)
qed

lemma k_peek_open: "k_peek fd n s = (r, again, bs) \<Longrightarrow> r \<noteq> - 1 \<Longrightarrow> r \<noteq> 0 \<Longrightarrow> sockets s fd \<noteq> None"
  by (auto simp: k_peek_def split: option.splits)

lemma deref_live:
  "live_or_closed fd s \<Longrightarrow> sockets s fd \<noteq> None \<Longrightarrow> \<exists>cs. status_of s fd = Some cs \<and> deref fd s = Inr cs"
  by (auto simp: live_or_closed_def deref_def)

lemma set_unintercepted_receiving:
  assumes "receiving cont fd s" and "status_of s fd \<noteq> None"
  shows "receiving cont fd (set_unintercepted fd s)"
proof -
  note r = receivingD [OF assms(1)]
  have st: "status_of (set_unintercepted fd s) g = status_of s g" for g
    by (simp add: set_unintercepted_def status_of_def)
  have e: "entry_ok (set_unintercepted fd s) g cs = entry_ok s g cs" for g cs
    by (simp add: entry_ok_def peer_ok_def st) (simp add: set_unintercepted_def)
  have "wf_net (set_unintercepted fd s)"
    by (rule wf_netI; (unfold e st)?)
      (use wf_netD [OF r(1)] assms(2) in \<open>auto simp: set_unintercepted_def owned_def status_of_def clients_ok_def\<close>)
  then show ?thesis using r st
    by (auto simp: receiving_def live_or_closed_def msgs_ok_def) (simp_all add: set_unintercepted_def)
qed

text \<open>The outcome of a part of the handler: it faults only with the one read of an uninitialised variable
  of \<^verbatim>\<open>deliver_msg\<close>, in direct mode, and otherwise keeps the invariant.\<close>

definition keeps :: "('q \<Rightarrow> msg list) \<Rightarrow> fd \<Rightarrow> 'q net \<Rightarrow> 'q net \<Rightarrow> bool" where
  "keeps cont fd s s' \<longleftrightarrow> receiving cont fd s' \<and> next_cell s' = next_cell s \<and> is_direct s' = is_direct s \<and>
     cells_mono s s'"

definition sound :: "('q \<Rightarrow> msg list) \<Rightarrow> fd \<Rightarrow> 'q net \<Rightarrow> 'q net result \<Rightarrow> bool" where
  "sound cont fd s r \<longleftrightarrow>
     (case r of Inl e \<Rightarrow> e = Undefined Uninit_Read \<and> is_direct s | Inr s' \<Rightarrow> keeps cont fd s s')"

lemma keeps_trans: "keeps cont fd a b \<Longrightarrow> keeps cont fd b c \<Longrightarrow> keeps cont fd a c"
  using cells_mono_trans by (auto simp: keeps_def)

lemma sound_trans: "keeps cont fd a b \<Longrightarrow> sound cont fd b r \<Longrightarrow> sound cont fd a r"
  using keeps_trans [of cont fd a b] by (auto simp: sound_def split: sum.splits) (simp_all add: keeps_def)

lemma keeps_same: "receiving cont fd s \<Longrightarrow> same_but_sockets s s' \<Longrightarrow> keeps cont fd s s'"
  using same_but_sockets_receiving by (simp add: keeps_def same_but_sockets_simps cells_mono_same)

lemma close_sound:
  "receiving cont fd s \<Longrightarrow> sound cont fd s (close_connection fd False True s)"
  using close_receiving [of cont fd s fd False] receivingD(3) [of cont fd s]
  by (simp add: sound_def keeps_def net_simps close_result_mono)

lemma sound_Inr: "keeps cont fd s s' \<Longrightarrow> sound cont fd s (Inr s')"
  by (simp add: sound_def)

lemma transfer_loop_same: "transfer_loop out_fd in_fd s = (s', e) \<Longrightarrow> same_but_sockets s s'"
proof (induction out_fd in_fd s rule: transfer_loop.induct)
  case (1 out_fd in_fd s)
  obtain r again bs s1 where p: "k_recv in_fd BUFFER_SIZE s = (r, again, bs, s1)" by (metis prod_cases4)
  obtain w s2 where w: "k_write out_fd bs (nat r) s1 = (w, s2)" by fastforce
  note a = k_recv_same [OF p] and b = k_write_frame(1) [OF w]
  consider "\<not> r > 0" "s' = s1" | "r > 0" "w = - 1" "s' = s2"
    | "r > 0" "w \<noteq> - 1" "transfer_loop out_fd in_fd s2 = (s', e)"
    using "1.prems" p w by (subst (asm) transfer_loop.simps) (auto split: if_splits)
  then show ?case
  proof cases
    case 3
    have "same_but_sockets s2 s'"
      by (rule "1.IH" [OF p [symmetric] refl refl 3(1) w [symmetric] 3(2,3)])
    then show ?thesis using a b by (blast intro: same_but_sockets_trans)
  qed (use a b in \<open>auto intro: same_but_sockets_trans\<close>)
qed

lemma transfer_unintercepted_sound:
  assumes "receiving cont fd s"
  shows "sound cont fd s (transfer_unintercepted out_fd fd s)"
proof -
  obtain s1 e where t: "transfer_loop out_fd fd s = (s1, e)" by fastforce
  have k: "keeps cont fd s s1" by (rule keeps_same [OF assms transfer_loop_same [OF t]])
  then have "receiving cont fd s1" by (simp add: keeps_def)
  note c = sound_trans [OF k close_sound [OF this]]
  show ?thesis
    using t c sound_Inr [OF k] by (cases e) (auto simp: transfer_unintercepted_def)
qed

lemma transfer_sound:
  assumes "receiving cont fd s" and "status_of s fd \<noteq> None"
  shows "sound cont fd s (transfer fd s)"
  using assms transfer_unintercepted_sound [OF assms(1)] by (auto simp: transfer_def deref_def)

text \<open>One turn.  \<open>receive_rest\<close> models no code of its own: it names what \<open>receive_turn\<close> does behind
  a valid header \<open>h\<close> (lemma \<open>receive_turn_rest\<close>), so that the proofs can treat the two halves apart.\<close>

definition receive_rest :: "('q, msg) queue_ops \<Rightarrow> fd \<Rightarrow> channel_status \<Rightarrow> msg_header \<Rightarrow> 'q net \<Rightarrow>
    ('q net \<times> msg_header \<times> receive_end option) result" where
  "receive_rest Q fd cf h s =
     (case k_recv fd (header_size + unat (ntohl (size h))) s of (r2, again2, content, s1) \<Rightarrow>
        if r2 = - 1 \<and> \<not> again2 then Inr (s1, h, Some Returned)
        else if r2 = - 1 \<or> r2 \<noteq> int (header_size + unat (ntohl (size h)))
        then Inr (close_result fd False True s1, h, Some Returned)
        else and_then (enqueue_msg Q cf (new_msg (cs_fd cf) h content) s1) (\<lambda>s2. Inr (s2, h, None)))"

lemma receive_turn_rest:
  assumes "wf_net s" and "k_peek fd header_size s = (int header_size, again, bs)" and "status_of s fd = Some cf"
    and "packet_validation (recv_header bs header) header_size"
  shows "receive_turn Q fd header s = receive_rest Q fd cf (recv_header bs header) s"
proof -
  define h where "h = recv_header bs header"
  define n where "n = header_size + unat (ntohl (size h))"
  obtain r2 again2 content s1 where rc: "k_recv fd n s = (r2, again2, content, s1)" by (metis prod_cases4)
  have sb: "same_but_sockets s s1" by (rule k_recv_same [OF rc])
  have "close_connection fd False True s1 = Inr (close_result fd False True s1)"
    by (rule close_connection_eq [OF same_but_sockets_wf [OF sb assms(1)]])
  then show ?thesis
    using assms(2-4) rc same_but_sockets_simps(11) [OF sb]
    by (simp add: receive_turn_def receive_rest_def deref_def h_def [symmetric] n_def [symmetric] Let_def)
qed

lemma receive_rest_sound:
  assumes "fifo Q cont" and "receiving cont fd s" and "status_of s fd = Some cf"
  shows "case receive_rest Q fd cf h s of
      Inl e \<Rightarrow> e = Undefined Uninit_Read \<and> is_direct s
    | Inr (s', h, x) \<Rightarrow> keeps cont fd s s' \<and> (x = None \<or> x = Some Returned)"
proof -
  define n where "n = header_size + unat (ntohl (size h))"
  obtain r2 again2 content s1 where rc: "k_recv fd n s = (r2, again2, content, s1)" by (metis prod_cases4)
  have sb: "same_but_sockets s s1" by (rule k_recv_same [OF rc])
  note q = same_but_sockets_simps [OF sb]
  have k1: "keeps cont fd s s1" by (rule keeps_same [OF assms(2) sb])
  then have r1: "receiving cont fd s1" by (simp add: keeps_def)
  have "keeps cont fd s1 (close_result fd False True s1)"
    using close_receiving [OF r1 receivingD(3) [OF r1], of False] by (simp add: keeps_def net_simps close_result_mono)
  note cl = keeps_trans [OF k1 this]
  define m where "m = new_msg (cs_fd cf) h content"
  have "m_fd m < next_cell s1"
    using entry_owned(1) [OF receivingD(1) [OF assms(2)] assms(3)] q by (simp add: m_def new_msg_def entry_ok_def)
  note en = enqueue_msg_receiving [OF assms(1) r1 this, of cf]
  have en': "keeps cont fd s s2" if r: "enqueue_msg Q cf m s1 = Inr s2" for s2
    by (rule keeps_trans [OF k1]) (use en r in \<open>simp add: keeps_def\<close>)
  show ?thesis
    using k1 cl en en' q rc by (cases "enqueue_msg Q cf m s1") (auto simp: receive_rest_def n_def [symmetric] m_def [symmetric])
qed

lemma receive_turn_sound:
  assumes "fifo Q cont" and "receiving cont fd s"
  shows "case receive_turn Q fd header s of
      Inl e \<Rightarrow> e = Undefined Uninit_Read \<and> is_direct s
    | Inr (s', h, x) \<Rightarrow> keeps cont fd s s' \<and>
       (x = Some Invalid \<longrightarrow> status_of s' fd \<noteq> None) \<and>
       (\<forall>r again h. x = Some (Stopped r again h) \<longrightarrow> r \<noteq> - 1 \<longrightarrow> r \<noteq> 0 \<longrightarrow> status_of s' fd \<noteq> None)"
proof -
  note rd = receivingD [OF assms(2)]
  obtain r again bs where p: "k_peek fd header_size s = (r, again, bs)" by (metis prod_cases3)
  define h where "h = recv_header bs header"
  show ?thesis
  proof (cases "r = int header_size")
    case False
    then have "receive_turn Q fd header s = Inr (s, h, Some (Stopped r again h))"
      using p by (simp add: receive_turn_def h_def Let_def)
    moreover have "status_of s fd \<noteq> None" if "r \<noteq> - 1" "r \<noteq> 0"
      using k_peek_open [OF p that] rd(4) by (auto simp: live_or_closed_def)
    ultimately show ?thesis using assms(2) by (simp add: keeps_def)
  next
    case True
    then have op: "sockets s fd \<noteq> None" using k_peek_open [OF p] by (simp add: header_size_def)
    obtain cf where cf: "status_of s fd = Some cf" "deref fd s = Inr cf"
      using deref_live [OF rd(4) op] by blast
    show ?thesis
    proof (cases "packet_validation h header_size")
      case False
      then have "receive_turn Q fd header s = Inr (set_unintercepted fd s, h, Some Invalid)"
        using p True cf by (simp add: receive_turn_def h_def Let_def)
      moreover have "keeps cont fd s (set_unintercepted fd s)" "status_of (set_unintercepted fd s) fd \<noteq> None"
        using set_unintercepted_receiving [OF assms(2)] cf
        by (simp_all add: keeps_def) (simp_all add: set_unintercepted_def status_of_def cells_mono_same)
      ultimately show ?thesis by simp
    next
      case val: True
      have t: "receive_turn Q fd header s = receive_rest Q fd cf h s"
        using receive_turn_rest [OF rd(1) p [unfolded True] cf(1)] val by (simp add: h_def)
      show ?thesis using receive_rest_sound [OF assms cf(1), of h] by (auto simp: t split: sum.splits)
    qed
  qed
qed

lemma receive_loop_sound:
  "fifo Q cont \<Longrightarrow> receiving cont fd s \<Longrightarrow>
    (case receive_loop Q fd header s of
      Inl e \<Rightarrow> e = Undefined Uninit_Read \<and> is_direct s
    | Inr (s', x) \<Rightarrow> keeps cont fd s s' \<and>
       (x = Invalid \<longrightarrow> status_of s' fd \<noteq> None) \<and>
       (\<forall>r again h. x = Stopped r again h \<longrightarrow> r \<noteq> - 1 \<longrightarrow> r \<noteq> 0 \<longrightarrow> status_of s' fd \<noteq> None))"
proof (induction Q fd header s rule: receive_loop.induct)
  case (1 Q fd header s)
  note t = receive_turn_sound [OF "1.prems", of header]
  show ?case
  proof (cases "receive_turn Q fd header s")
    case (Inl e)
    then show ?thesis using t by (subst receive_loop.simps) simp
  next
    case (Inr p)
    obtain s' h x where p: "p = (s', h, x)" by (metis prod_cases3)
    have k: "keeps cont fd s s'" using t Inr p by simp
    show ?thesis
    proof (cases x)
      case None
      have "receiving cont fd s'" using k by (simp add: keeps_def)
      note ih = "1.IH" [OF Inr p [symmetric] refl None "1.prems"(1) this]
      have "receive_loop Q fd header s = receive_loop Q fd h s'"
        using Inr p None by (subst receive_loop.simps) simp
      then show ?thesis using ih k keeps_trans [OF k] by (auto simp: keeps_def split: sum.splits)
    next
      case (Some y)
      have "receive_loop Q fd header s = Inr (s', y)"
        using Inr p Some by (subst receive_loop.simps) simp
      then show ?thesis using t Inr p Some by simp
    qed
  qed
qed

lemma do_receive_sound:
  assumes "fifo Q cont" and "receiving cont fd s"
  shows "sound cont fd s (do_receive Q fd s)"
proof (cases "status_of s fd")
  case None
  then show ?thesis using close_sound [OF assms(2)] by (simp add: do_receive_def)
next
  case (Some cf)
  show ?thesis
  proof (cases "fd \<in> unintercepted s")
    case True
    then show ?thesis using Some transfer_sound [OF assms(2)] by (simp add: do_receive_def)
  next
    case False
    note l = receive_loop_sound [OF assms, of zero_header]
    show ?thesis
    proof (cases "receive_loop Q fd zero_header s")
      case (Inl e)
      then show ?thesis using l Some False by (simp add: do_receive_def sound_def)
    next
      case (Inr p)
      obtain s1 x where p: "p = (s1, x)" by fastforce
      have k: "keeps cont fd s s1" using l Inr p by simp
      then have r1: "receiving cont fd s1" by (simp add: keeps_def)
      note c = sound_trans [OF k close_sound [OF r1]] and n = sound_Inr [OF k]
      have tr: "sound cont fd s (transfer fd s1)" if "status_of s1 fd \<noteq> None"
        by (rule sound_trans [OF k transfer_sound [OF r1 that]])
      have tu: "sound cont fd s (and_then (deref fd s1) (\<lambda>cf. transfer fd (set_unintercepted fd s1)))"
        if live: "status_of s1 fd \<noteq> None"
      proof -
        note u = set_unintercepted_receiving [OF r1 live]
        have "keeps cont fd s1 (set_unintercepted fd s1)" "status_of (set_unintercepted fd s1) fd \<noteq> None"
          using u live by (simp_all add: keeps_def) (simp_all add: set_unintercepted_def status_of_def cells_mono_same)
        note sound_trans [OF k sound_trans [OF this(1) transfer_sound [OF u this(2)]]]
        then show ?thesis using live by (auto simp: deref_def)
      qed
      have e: "do_receive Q fd s = (case x of
              Returned \<Rightarrow> Inr s1
            | Invalid \<Rightarrow> transfer fd s1
            | Stopped r again h \<Rightarrow>
                if r = - 1 then (if \<not> again then close_connection fd False True s1 else Inr s1)
                else if r = 0 then close_connection fd False True s1
                else if \<not> packet_validation h (nat r)
                then and_then (deref fd s1) (\<lambda>cf. transfer fd (set_unintercepted fd s1))
                else Inr s1)"
        using Some False Inr p by (simp add: do_receive_def)
      show ?thesis
      proof (cases x)
        case (Stopped r again h)
        then show ?thesis using e l Inr p Stopped c n tu by (auto split: if_splits)
      qed (use e l Inr p n tr in auto)
    qed
  qed
qed

end
