(* ===== verification/Net_Parse.thy ===== *)
theory Net_Parse
  imports Net_Receive
begin

text \<open>
  What \<^verbatim>\<open>do_receive\<close> makes of the bytes it finds: framed messages go to the queue of their channel one
  by one, in order; the bytes of a connection without frames are passed on as they are; a connection
  that ends takes its buffered messages with it. The first lemmas run the receiving loop over a
  sequence of frames; every property is an instance of them.
\<close>

section \<open>The loop on frames\<close>

definition rx_msg :: "channel_status \<Rightarrow> u8 list \<Rightarrow> msg" where
  "rx_msg cf body = new_msg (cs_fd cf) (hack_header (of_nat (length body))) (frame body)"

text \<open>What enqueueing a message does in the modes with a queue.\<close>

definition enqueue_one :: "('q, msg) queue_ops \<Rightarrow> channel_status \<Rightarrow> msg \<Rightarrow> 'q net \<Rightarrow> 'q net" where
  "enqueue_one Q cf m s =
     (if cs_disconnected cf then s
      else let k = chan_key (cs_channel cf)
        in s\<lparr>network := (network s)(k \<mapsto> q_enq Q (queue_of Q s k) m)\<rparr>)"

primrec enqueue_all :: "('q, msg) queue_ops \<Rightarrow> channel_status \<Rightarrow> msg list \<Rightarrow> 'q net \<Rightarrow> 'q net" where
  "enqueue_all Q cf [] s = s"
| "enqueue_all Q cf (m # ms) s = enqueue_all Q cf ms (enqueue_one Q cf m s)"

definition set_rx :: "fd \<Rightarrow> u8 list \<Rightarrow> 'q net \<Rightarrow> 'q net" where
  "set_rx fd bs s = s\<lparr>sockets := (sockets s)(fd := map_option (\<lambda>k. k\<lparr>rx := bs\<rparr>) (sockets s fd))\<rparr>"

lemma enqueue_one_frame [net_simps]:
  "sockets (enqueue_one Q cf m s) = sockets s" "cells (enqueue_one Q cf m s) = cells s"
  "chan_status (enqueue_one Q cf m s) = chan_status s" "is_direct (enqueue_one Q cf m s) = is_direct s"
  "unintercepted (enqueue_one Q cf m s) = unintercepted s"
  "status_of (enqueue_one Q cf m s) g = status_of s g"
  by (simp_all add: enqueue_one_def Let_def status_of_def)

lemma enqueue_all_frame [net_simps]:
  "sockets (enqueue_all Q cf ms s) = sockets s" "cells (enqueue_all Q cf ms s) = cells s"
  "chan_status (enqueue_all Q cf ms s) = chan_status s" "is_direct (enqueue_all Q cf ms s) = is_direct s"
  "unintercepted (enqueue_all Q cf ms s) = unintercepted s"
  "status_of (enqueue_all Q cf ms s) g = status_of s g"
  by (induction ms arbitrary: s) (simp_all add: net_simps)

lemma enqueue_all_disconnected: "cs_disconnected cf \<Longrightarrow> enqueue_all Q cf ms s = s"
  by (induction ms arbitrary: s) (simp_all add: enqueue_one_def)

lemma enqueue_all_network:
  assumes "\<not> cs_disconnected cf"
  shows "\<exists>n. enqueue_all Q cf ms s = s\<lparr>network := n\<rparr>"
  using assms
proof (induction ms arbitrary: s)
  case Nil
  have "enqueue_all Q cf [] s = s\<lparr>network := network s\<rparr>" by simp
  then show ?case by blast
next
  case (Cons m ms)
  obtain n where "enqueue_all Q cf ms (enqueue_one Q cf m s) = (enqueue_one Q cf m s)\<lparr>network := n\<rparr>"
    using Cons.IH [OF Cons.prems] by blast
  then have "enqueue_all Q cf (m # ms) s = s\<lparr>network := n\<rparr>"
    using Cons.prems by (simp add: enqueue_one_def Let_def)
  then show ?case by blast
qed

lemma enqueue_all_contents:
  assumes "fifo Q cont" and "\<not> cs_disconnected cf"
  shows "cont (queue_of Q (enqueue_all Q cf ms s) k) =
    cont (queue_of Q s k) @ (if k = chan_key (cs_channel cf) then ms else [])"
proof (induction ms arbitrary: s)
  case Nil
  then show ?case by simp
next
  case (Cons m ms)
  have "queue_of Q (enqueue_one Q cf m s) k =
      (if k = chan_key (cs_channel cf) then q_enq Q (queue_of Q s k) m else queue_of Q s k)"
    using assms(2) by (simp add: enqueue_one_def Let_def queue_of_def)
  with Cons show ?case using fifo_enq [OF assms(1)] by simp
qed

lemma set_rx_frame [net_simps]:
  "cells (set_rx fd bs s) = cells s" "chan_status (set_rx fd bs s) = chan_status s"
  "is_direct (set_rx fd bs s) = is_direct s" "unintercepted (set_rx fd bs s) = unintercepted s"
  "network (set_rx fd bs s) = network s" "status_of (set_rx fd bs s) g = status_of s g"
  "queue_of Q (set_rx fd bs s) k = queue_of Q s k"
  by (simp_all add: set_rx_def status_of_def queue_of_def)

lemma set_rx_set_rx [simp]: "set_rx fd bs (set_rx fd cs s) = set_rx fd bs s"
  by (cases "sockets s fd") (simp_all add: set_rx_def)

lemma set_rx_same [simp]: "sockets s fd = Some k \<Longrightarrow> rx k = bs \<Longrightarrow> set_rx fd bs s = s"
proof -
  assume "sockets s fd = Some k" "rx k = bs"
  then have "(sockets s)(fd := map_option (\<lambda>k. k\<lparr>rx := bs\<rparr>) (sockets s fd)) = sockets s"
    by (auto simp: fun_eq_iff)
  then show ?thesis by (simp add: set_rx_def)
qed

lemma set_rx_enqueue_one: "set_rx fd bs (enqueue_one Q cf m s) = enqueue_one Q cf m (set_rx fd bs s)"
  by (simp add: set_rx_def enqueue_one_def Let_def queue_of_def)

lemma set_rx_enqueue_all: "set_rx fd bs (enqueue_all Q cf ms s) = enqueue_all Q cf ms (set_rx fd bs s)"
  by (induction ms arbitrary: s) (simp_all add: set_rx_enqueue_one)

lemma frame_not_Nil [simp]: "frame body \<noteq> []"
  using length_frame [of body] by force

lemma hack_bytes_not_Nil: "hack_bytes len \<noteq> []"
  by (simp add: hack_bytes_def header_mem_def mem_of_u32_def)

lemma ucast_len: "ucast (of_nat n :: u64) = (of_nat n :: u32)"
  by (rule bit_word_eqI) (simp add: bit_simps)

lemma frame_header:
  assumes "length body < 2 ^ 32"
  shows "take header_size (frame body @ rest) = hack_bytes (of_nat (length body))"
    "unat (ntohl (size (hack_header (of_nat (length body))))) = length body"
    "recv_header (hack_bytes (of_nat (length body))) h = hack_header (of_nat (length body))"
  using assms
  by (simp_all add: frame_def header_size_def hack_bytes_def unsigned_ucast_eq unsigned_of_nat take_bit_nat_eq_self)

lemma k_peek_bytes:
  "sockets s fd = Some k \<Longrightarrow> rx k \<noteq> [] \<Longrightarrow> k_peek fd n s = (int (length (take n (rx k))), False, take n (rx k))"
  by (simp add: k_peek_def)

lemma k_recv_bytes:
  "sockets s fd = Some k \<Longrightarrow> rx k \<noteq> [] \<Longrightarrow>
    k_recv fd n s = (int (length (take n (rx k))), False, take n (rx k), set_rx fd (drop n (rx k)) s)"
  by (simp add: k_recv_def k_peek_bytes k_drop_def set_rx_def)

lemma rx_msg_ok:
  assumes "0 < length b" and "length b < 2 ^ 32"
  shows "m_fd (rx_msg cf b) = cs_fd cf" "msg_ok (rx_msg cf b)" "m_size (rx_msg cf b) \<noteq> 0" "msg_body (rx_msg cf b) = b"
proof -
  have s: "unat (m_size (rx_msg cf b)) = length b"
    using assms(2) frame_header(2) [of b] by (simp add: rx_msg_def new_msg_def)
  then show "m_size (rx_msg cf b) \<noteq> 0" using assms(1) by (metis unat_0 less_irrefl)
  show "m_fd (rx_msg cf b) = cs_fd cf" by (simp add: rx_msg_def new_msg_def)
  show "msg_ok (rx_msg cf b)" using s by (simp add: msg_ok_def) (simp add: rx_msg_def new_msg_def header_size_def)
  show "msg_body (rx_msg cf b) = b" by (simp add: msg_body_def rx_msg_def new_msg_def frame_def header_size_def)
qed

text \<open>One frame.\<close>

lemma receive_turn_frame:
  assumes "status_of s fd = Some cf" and "\<not> is_direct s" and "sockets s fd = Some k"
    and "rx k = frame body @ rest" and "length body < 2 ^ 32"
  shows "receive_turn Q fd h s =
    Inr (enqueue_one Q cf (rx_msg cf body) (set_rx fd rest s), hack_header (of_nat (length body)), None)"
proof -
  note f = frame_header [OF assms(5)]
  let ?h = "hack_header (of_nat (length body))"
  have ne: "rx k \<noteq> []" using assms(4) by simp
  have p: "k_peek fd header_size s = (int header_size, False, hack_bytes (of_nat (length body)))"
    using k_peek_bytes [OF assms(3) ne, of header_size] assms(4) f(1) by (simp add: header_size_def)
  have "take (header_size + length body) (rx k) = frame body" "drop (header_size + length body) (rx k) = rest"
    using assms(4) by (simp_all add: header_size_def)
  then have r: "k_recv fd (header_size + length body) s =
      (int (header_size + length body), False, frame body, set_rx fd rest s)"
    using k_recv_bytes [OF assms(3) ne, of "header_size + length body"] by (simp add: header_size_def)
  have d: "deref fd s = Inr cf" "deref fd (set_rx fd rest s) = Inr cf"
    using assms(1) by (simp_all add: deref_def net_simps)
  have v: "packet_validation ?h header_size" by (simp add: header_size_def)
  have e: "enqueue_msg Q cf (rx_msg cf body) t = Inr (enqueue_one Q cf (rx_msg cf body) t)"
    if "\<not> is_direct t" for t
    using that by (simp add: enqueue_msg_def enqueue_one_def Let_def)
  show ?thesis
    using p r d v e [of "set_rx fd rest s"] assms(2) f(2,3)
    by (simp add: receive_turn_def Let_def rx_msg_def net_simps)
qed

lemma receive_loop_frames:
  assumes "status_of s fd = Some cf" and "\<not> is_direct s" and "sockets s fd = Some k"
    and "rx k = concat (map frame bodies) @ rest" and "\<forall>b \<in> set bodies. length b < 2 ^ 32"
  shows "\<exists>h'. receive_loop Q fd h s =
      receive_loop Q fd h' (enqueue_all Q cf (map (rx_msg cf) bodies) (set_rx fd rest s)) \<and>
      (bodies = [] \<longrightarrow> h' = h)"
  using assms
proof (induction bodies arbitrary: s k h)
  case Nil
  then show ?case by simp
next
  case (Cons b bodies)
  let ?rest = "concat (map frame bodies) @ rest"
  let ?s1 = "enqueue_one Q cf (rx_msg cf b) (set_rx fd ?rest s)"
  have t: "receive_turn Q fd h s = Inr (?s1, hack_header (of_nat (length b)), None)"
    using Cons.prems by (intro receive_turn_frame) simp_all
  have "sockets ?s1 fd = Some (k\<lparr>rx := ?rest\<rparr>)"
    using Cons.prems(3) by (simp add: net_simps) (simp add: set_rx_def)
  then obtain h' where "receive_loop Q fd (hack_header (of_nat (length b))) ?s1 =
      receive_loop Q fd h' (enqueue_all Q cf (map (rx_msg cf) bodies) (set_rx fd rest ?s1))"
    using Cons.IH [of ?s1 "k\<lparr>rx := ?rest\<rparr>" "hack_header (of_nat (length b))"] Cons.prems
    by (auto simp: net_simps)
  moreover have "receive_loop Q fd h s = receive_loop Q fd (hack_header (of_nat (length b))) ?s1"
    using t by (subst receive_loop.simps) simp
  ultimately show ?case by (auto simp: set_rx_enqueue_one)
qed


lemma receive_loop_stops:
  assumes "k_peek fd header_size s = (r, again, bs)" and "r \<noteq> int header_size"
  shows "receive_loop Q fd h s = Inr (s, Stopped r again (recv_header bs h))"
  using assms by (subst receive_loop.simps) (simp add: receive_turn_def Let_def)

text \<open>\<^verbatim>\<open>do_receive\<close> on frames and nothing more.\<close>

lemma do_receive_frames:
  fixes Q :: "('q, msg) queue_ops" and s :: "'q net"
  assumes "status_of s fd = Some cf" and "fd \<notin> unintercepted s" and "\<not> is_direct s"
    and "sockets s fd = Some k" and "rx k = concat (map frame bodies)"
    and "\<forall>b \<in> set bodies. length b < 2 ^ 32"
  defines "t \<equiv> enqueue_all Q cf (map (rx_msg cf) bodies) (set_rx fd [] s)"
  shows "do_receive Q fd s =
    (case rx_then k of Rx_Open \<Rightarrow> Inr t | _ \<Rightarrow> close_connection fd False True t)"
proof -
  obtain h' where l: "receive_loop Q fd zero_header s = receive_loop Q fd h' t"
    using receive_loop_frames [OF assms(1,3,4), of bodies "[]" Q zero_header] assms(5,6)
    by (auto simp: t_def)
  have sk: "sockets t fd = Some (k\<lparr>rx := []\<rparr>)"
    using assms(4) by (simp add: t_def net_simps) (simp add: set_rx_def)
  have p: "k_peek fd header_size t = (case rx_then k of Rx_Open \<Rightarrow> (- 1, True, []) | Rx_Eof \<Rightarrow> (0, False, [])
      | Rx_Err \<Rightarrow> (- 1, False, []))"
    using sk by (simp add: k_peek_def)
  show ?thesis
    using assms(1,2) l p receive_loop_stops [of fd t]
    by (cases "rx_then k") (simp_all add: do_receive_def header_size_def)
qed

section \<open>Bytes without frames\<close>

lemma magic_bytes: "mem_of_u32 (htonl VALIDATION_DATA) = [0xde, 0xad, 0xbe, 0xef]"
  by code_simp

lemma zero_bytes: "mem_of_u32 (validation zero_header) = [0, 0, 0, 0]"
  by code_simp

lemma short_magic:
  "ntohl 222 AND mask 8 \<noteq> VALIDATION_DATA AND mask 8"
  "ntohl 44510 AND mask 16 \<noteq> VALIDATION_DATA AND mask 16"
  "ntohl 12496350 AND mask 24 \<noteq> VALIDATION_DATA AND mask 24"
  by code_simp+

lemma partial_validation:
  assumes "0 < n" and "n < 8"
  shows "packet_validation (recv_header (take n (hack_bytes len)) zero_header) n \<longleftrightarrow> 4 \<le> n"
proof -
  define h where "h = recv_header (take n (hack_bytes len)) zero_header"
  define B where "B = mem_of_u32 (ntohl (ucast len :: u32))"
  have hb: "hack_bytes len = 0xde # 0xad # 0xbe # 0xef # B"
    by (simp add: hack_bytes_def hack_header_def header_mem_def magic_bytes B_def)
  have zb: "header_mem zero_header = 0 # 0 # 0 # 0 # mem_of_u32 (size zero_header)"
    by (simp add: header_mem_def zero_bytes)
  have v: "validation h = u32_of_mem (take 4 (take n (0xde # 0xad # 0xbe # 0xef # B) @
      drop n (0 # 0 # 0 # 0 # mem_of_u32 (size zero_header))))"
    using assms by (simp add: h_def recv_header_def mem_header_def overwrite_def hb zb B_def min_def)
  consider "n = 1" | "n = 2" | "n = 3" | "4 \<le> n" using assms(1) by linarith
  then have "packet_validation h n \<longleftrightarrow> 4 \<le> n"
  proof cases
    case 4
    have "take 4 (take n (0xde # 0xad # 0xbe # 0xef # B)) = mem_of_u32 (htonl VALIDATION_DATA)"
      using 4 by (simp add: magic_bytes min_def)
    then have "validation h = htonl VALIDATION_DATA" using 4 unfolding v by (simp add: B_def)
    then show ?thesis using 4 by (simp add: packet_validation_full)
  qed (use v short_magic in \<open>simp_all add: packet_validation_def Let_def\<close>)
  then show ?thesis by (simp add: h_def)
qed

text \<open>The copying loop passes everything on when the other side takes whole writes.\<close>

lemma transfer_loop_all:
  assumes "in_fd \<noteq> out_fd" and "sockets s in_fd = Some k" and "rx_then k = Rx_Open"
    and "sockets s out_fd = Some ko" and "plan ko = []"
  shows "transfer_loop out_fd in_fd s =
    (s\<lparr>sockets := (sockets s)(in_fd \<mapsto> k\<lparr>rx := []\<rparr>, out_fd \<mapsto> ko\<lparr>tx := tx ko @ rx k\<rparr>)\<rparr>, Recv_End (- 1) True)"
  using assms
proof (induction "length (rx k)" arbitrary: s k ko rule: less_induct)
  case less
  show ?case
  proof (cases "rx k = []")
    case True
    then have "k\<lparr>rx := []\<rparr> = k" "ko\<lparr>tx := tx ko @ rx k\<rparr> = ko" by simp_all
    then have "s = s\<lparr>sockets := (sockets s)(in_fd \<mapsto> k\<lparr>rx := []\<rparr>, out_fd \<mapsto> ko\<lparr>tx := tx ko @ rx k\<rparr>)\<rparr>"
      using less.prems by (simp add: map_upd_triv)
    moreover have "k_recv in_fd BUFFER_SIZE s = (- 1, True, [], set_rx in_fd (rx k) s)"
      using True less.prems by (simp add: k_recv_def k_peek_def k_drop_def set_rx_def)
    ultimately show ?thesis using True less.prems by (subst transfer_loop.simps) simp
  next
    case False
    define bs where "bs = take BUFFER_SIZE (rx k)"
    define rest where "rest = drop BUFFER_SIZE (rx k)"
    have b: "rx k = bs @ rest" "bs \<noteq> []" using False by (simp_all add: bs_def rest_def BUFFER_SIZE_def)
    define s2 where "s2 = s\<lparr>sockets := (sockets s)(in_fd \<mapsto> k\<lparr>rx := rest\<rparr>, out_fd \<mapsto> ko\<lparr>tx := tx ko @ bs\<rparr>)\<rparr>"
    have kp: "ko\<lparr>tx := tx ko @ bs, plan := []\<rparr> = ko\<lparr>tx := tx ko @ bs\<rparr>" using less.prems(5) by simp
    have r: "k_recv in_fd BUFFER_SIZE s = (int (length bs), False, bs, set_rx in_fd rest s)"
      using k_recv_bytes [OF less.prems(2) False] by (simp add: bs_def rest_def)
    have "k_write out_fd bs (length bs) (set_rx in_fd rest s) = (int (length bs),
        s\<lparr>sockets := (sockets s)(in_fd \<mapsto> k\<lparr>rx := rest\<rparr>, out_fd \<mapsto> ko\<lparr>tx := tx ko @ bs, plan := []\<rparr>)\<rparr>)"
      using less.prems by (simp add: k_write_def set_rx_def Let_def)
    then have "k_write out_fd bs (length bs) (set_rx in_fd rest s) = (int (length bs), s2)"
      by (simp only: kp s2_def)
    then have "transfer_loop out_fd in_fd s = transfer_loop out_fd in_fd s2"
      using r b(2) by (subst transfer_loop.simps) simp
    moreover have "length rest < length (rx k)" using b by simp
    then have "transfer_loop out_fd in_fd s2 = (s2\<lparr>sockets := (sockets s2)(in_fd \<mapsto> (k\<lparr>rx := rest\<rparr>)\<lparr>rx := []\<rparr>,
        out_fd \<mapsto> (ko\<lparr>tx := tx ko @ bs\<rparr>)\<lparr>tx := (tx ko @ bs) @ rest\<rparr>)\<rparr>, Recv_End (- 1) True)"
      using less.hyps [of "k\<lparr>rx := rest\<rparr>" s2 "ko\<lparr>tx := tx ko @ bs\<rparr>"] less.prems by (simp add: s2_def)
    ultimately show ?thesis
      using less.prems(1) b(1) by (simp add: s2_def fun_upd_twist)
  qed
qed

lemma transfer_all:
  assumes "wf_net s" and "status_of s fd = Some cf" and "status_of s (cells s (cs_fd cf)) = Some p"
    and "sockets s fd = Some k" and "rx_then k = Rx_Open"
    and "sockets s (cells s (cs_fd cf)) = Some ko" and "plan ko = []"
  shows "transfer fd s = Inr (s\<lparr>sockets := (sockets s)(fd \<mapsto> k\<lparr>rx := []\<rparr>,
    cells s (cs_fd cf) \<mapsto> ko\<lparr>tx := tx ko @ rx k\<rparr>)\<rparr>)"
  using transfer_loop_all [OF peer_other(1) [OF assms(1-3), symmetric] assms(4-7)] assms(2)
  by (simp add: transfer_def deref_def transfer_unintercepted_def)

section \<open>Properties\<close>

text \<open>Reception never uses a dangling iterator and keeps the invariant: whatever bytes have arrived on
  any descriptor that is no router connection, tracked or not, \<^verbatim>\<open>do_receive\<close> ends, with the one possible
  fault of an empty message in direct mode, and the state and the cells of the buffered messages are as
  they should be.\<close>

theorem receive_keeps_invariant:
  assumes "fifo Q cont" and "wf_net s" and "msgs_ok cont s" and "fd_to_client s fd = None"
  shows "case do_receive Q fd s of
      Inl e \<Rightarrow> e = Undefined Uninit_Read \<and> is_direct s
    | Inr s' \<Rightarrow> wf_net s' \<and> msgs_ok cont s'"
proof (cases "status_of s fd")
  case None
  have "do_receive Q fd s = Inr (close_result fd False True s)"
    using None close_connection_eq [OF assms(2)] by (simp add: do_receive_def)
  then show ?thesis
    using close_result_wf [OF assms(2,4)] assms(3) by (simp add: net_simps msgs_ok_def)
next
  case (Some cf)
  then have "receiving cont fd s" using assms by (simp add: receiving_def live_or_closed_def)
  from do_receive_sound [OF assms(1) this] show ?thesis
    by (auto simp: sound_def keeps_def receiving_def split: sum.splits)
qed

theorem receive_keeps_invariant_witness:
  "case do_receive list_queue 6 (example_net (new_sock\<lparr>rx := [1, 2, 3]\<rparr>) []) of
      Inl e \<Rightarrow> e = Undefined Uninit_Read \<and> False
    | Inr s' \<Rightarrow> wf_net s' \<and> msgs_ok id s'"
proof -
  let ?s = "example_net (new_sock\<lparr>rx := [1, 2, 3]\<rparr>) []"
  have c: "fd_to_client ?s 6 = None" "is_direct ?s = False" by (simp_all add: example_net_def)
  have "msgs_ok id ?s" by (rule example_msgs_ok) simp
  from receive_keeps_invariant [OF fifo_list_queue example_wf this c(1)] show ?thesis
    by (simp only: c(2))
qed

text \<open>C11: In the modes with a queue, one event on a connected, intercepted connection moves all frames that
  have arrived into the queue of its channel: one message for each, in order, each with the body that
  was framed and with the cell of the other end, behind the messages that were there; and it changes
  nothing else.\<close>

theorem receive_parses_frames:
  assumes "fifo Q cont" and "status_of s fd = Some cf" and "\<not> cs_disconnected cf"
    and "fd \<notin> unintercepted s" and "\<not> is_direct s" and "sockets s fd = Some k"
    and "rx k = concat (map frame bodies)" and "rx_then k = Rx_Open"
    and "\<forall>b \<in> set bodies. length b < 2 ^ 32"
  shows "\<exists>n. do_receive Q fd s = Inr (s\<lparr>sockets := (sockets s)(fd \<mapsto> k\<lparr>rx := []\<rparr>), network := n\<rparr>) \<and>
    (\<forall>key. cont (queue_of Q (s\<lparr>network := n\<rparr>) key) = cont (queue_of Q s key) @
      (if key = chan_key (cs_channel cf)
       then map (\<lambda>b. \<lparr>m_fd = cs_fd cf, m_size = of_nat (length b), m_content = frame b\<rparr>) bodies else []))"
proof -
  define ms where "ms = map (rx_msg cf) bodies"
  have ms: "ms = map (\<lambda>b. \<lparr>m_fd = cs_fd cf, m_size = of_nat (length b), m_content = frame b\<rparr>) bodies"
    by (simp add: ms_def rx_msg_def new_msg_def ucast_len)
  obtain n where n: "enqueue_all Q cf ms (set_rx fd [] s) = (set_rx fd [] s)\<lparr>network := n\<rparr>"
    using enqueue_all_network [OF assms(3)] by blast
  have "do_receive Q fd s = Inr (enqueue_all Q cf ms (set_rx fd [] s))"
    using do_receive_frames [OF assms(2,4-7,9)] assms(8) by (simp add: ms_def)
  then have r: "do_receive Q fd s = Inr (s\<lparr>sockets := (sockets s)(fd \<mapsto> k\<lparr>rx := []\<rparr>), network := n\<rparr>)"
    unfolding n using assms(6) by (simp add: set_rx_def)
  have "queue_of Q (enqueue_all Q cf ms (set_rx fd [] s)) key = queue_of Q (s\<lparr>network := n\<rparr>) key" for key
    unfolding n by (simp add: queue_of_def)
  then have "cont (queue_of Q (s\<lparr>network := n\<rparr>) key) =
      cont (queue_of Q s key) @ (if key = chan_key (cs_channel cf) then ms else [])" for key
    using enqueue_all_contents [OF assms(1,3), of ms "set_rx fd [] s" key] by (simp add: net_simps)
  with r show ?thesis unfolding ms by blast
qed

theorem receive_parses_frames_witness:
  "\<exists>s'. do_receive list_queue 6 (example_net (new_sock\<lparr>rx := frame [7] @ frame [8, 9]\<rparr>) []) = Inr s' \<and>
    queue_of list_queue s' (chan_key example_reverse) =
      [\<lparr>m_fd = 0, m_size = 1, m_content = frame [7]\<rparr>, \<lparr>m_fd = 0, m_size = 2, m_content = frame [8, 9]\<rparr>]"
proof -
  let ?k = "new_sock\<lparr>rx := frame [7] @ frame [8, 9]\<rparr>"
  let ?s = "example_net ?k []"
  let ?cf = "\<lparr>cs_channel = example_reverse, cs_self = 1, cs_fd = 0, cs_disconnected = False\<rparr>"
  have c: "6 \<notin> unintercepted ?s" "\<not> is_direct ?s" "sockets ?s 6 = Some ?k"
    by (simp_all add: example_net_def)
  have k: "rx ?k = concat (map frame [[7], [8, 9]])" "rx_then ?k = Rx_Open" "\<forall>b \<in> set [[7], [8, 9 :: u8]]. length b < 2 ^ 32"
    by (simp_all add: new_sock_def)
  have st: "status_of ?s 6 = Some ?cf" by (rule example_status)
  have q: "queue_of list_queue ?s (chan_key example_reverse) = []"
    by (simp add: queue_of_def example_net_def chan_key_def example_reverse_def example_channel_def key_of_def
        list_queue_def)
  have nd: "\<not> cs_disconnected ?cf" by simp
  obtain n where n: "do_receive list_queue 6 ?s = Inr (?s\<lparr>sockets := (sockets ?s)(6 \<mapsto> ?k\<lparr>rx := []\<rparr>), network := n\<rparr>)"
    "\<forall>key. id (queue_of list_queue (?s\<lparr>network := n\<rparr>) key) = id (queue_of list_queue ?s key) @
      (if key = chan_key (cs_channel ?cf)
       then map (\<lambda>b. \<lparr>m_fd = cs_fd ?cf, m_size = of_nat (length b), m_content = frame b\<rparr>) [[7], [8, 9]] else [])"
    using receive_parses_frames [OF fifo_list_queue st nd c k] by blast
  have "queue_of list_queue (?s\<lparr>sockets := x, network := n\<rparr>) key = queue_of list_queue (?s\<lparr>network := n\<rparr>) key" for x key
    by (simp add: queue_of_def)
  then show ?thesis using n(1) spec [OF n(2), of "chan_key example_reverse"] q by simp
qed

text \<open>C25: The end of a stream takes the messages with it: when the bytes that an event finds are followed by the
  end of the stream or an error, the messages are put into the queue and the connection is closed at
  once, on both ends, so that none of them is alive any more and a later \<^verbatim>\<open>deliver\<close> drops them.\<close>

theorem end_of_stream_kills_messages:
  assumes "wf_net s" and "status_of s fd = Some cf" and "fd \<notin> unintercepted s" and "\<not> is_direct s"
    and "sockets s fd = Some k" and "rx k = concat (map frame bodies)" and "rx_then k \<noteq> Rx_Open"
    and "\<forall>b \<in> set bodies. length b < 2 ^ 32"
  shows "\<exists>s'. do_receive Q fd s = Inr s' \<and> cells s' (cs_fd cf) = - 1 \<and> cells s' (cs_self cf) = - 1 \<and>
    sockets s' fd = None \<and> status_of s' fd = None \<and> bad_closes s' = bad_closes s \<and>
    network s' = network (enqueue_all Q cf (map (rx_msg cf) bodies) s)"
proof -
  define t where "t = enqueue_all Q cf (map (rx_msg cf) bodies) (set_rx fd [] s)"
  obtain n where n: "t = (set_rx fd [] s)\<lparr>network := n\<rparr>"
  proof (cases "cs_disconnected cf")
    case True
    then have "t = (set_rx fd [] s)\<lparr>network := network s\<rparr>"
      by (simp add: t_def enqueue_all_disconnected) (simp add: set_rx_def)
    then show ?thesis by (rule that)
  qed (use enqueue_all_network that in \<open>unfold t_def, blast\<close>)
  have "same_but_sockets s (set_rx fd [] s)"
    using assms(5) by (auto simp: same_but_sockets_def set_rx_def)
  then have w: "wf_net t" using same_but_sockets_wf assms(1) by (simp add: n)
  have st: "status_of t fd = Some cf" using assms(2) by (simp add: t_def net_simps)
  have "network t = network (enqueue_all Q cf (map (rx_msg cf) bodies) s)"
    unfolding t_def set_rx_enqueue_all [symmetric] by (simp add: net_simps)
  moreover have "do_receive Q fd s = close_connection fd False True t"
    using do_receive_frames [OF assms(2-6,8)] assms(7) by (cases "rx_then k") (simp_all add: t_def)
  moreover have "bad_closes t = bad_closes s" by (simp add: n set_rx_def)
  ultimately show ?thesis
    using close_result_closed [OF w st] close_connection_eq [OF w] by (simp add: net_simps)
qed

theorem end_of_stream_kills_messages_witness:
  "\<exists>s'. do_receive list_queue 6 (example_net (new_sock\<lparr>rx := frame [7], rx_then := Rx_Eof\<rparr>) []) = Inr s' \<and>
    cells s' 0 = - 1 \<and> cells s' 1 = - 1"
proof -
  let ?k = "new_sock\<lparr>rx := frame [7], rx_then := Rx_Eof\<rparr>"
  let ?s = "example_net ?k []"
  have c: "6 \<notin> unintercepted ?s" "\<not> is_direct ?s" "sockets ?s 6 = Some ?k"
    by (simp_all add: example_net_def)
  have k: "rx ?k = concat (map frame [[7]])" "rx_then ?k \<noteq> Rx_Open" by simp_all
  show ?thesis
    using end_of_stream_kills_messages [OF example_wf example_status(2) c k, of list_queue] by auto
qed

text \<open>A connection that has been tagged as disconnected loses what it receives: the frames are read and
  validated, but no message is made of them, and nothing but the bytes themselves changes.\<close>

theorem disconnected_frames_are_dropped:
  assumes "status_of s fd = Some cf" and "cs_disconnected cf" and "fd \<notin> unintercepted s" and "\<not> is_direct s"
    and "sockets s fd = Some k" and "rx k = concat (map frame bodies)" and "rx_then k = Rx_Open"
    and "\<forall>b \<in> set bodies. length b < 2 ^ 32"
  shows "do_receive Q fd s = Inr (s\<lparr>sockets := (sockets s)(fd \<mapsto> k\<lparr>rx := []\<rparr>)\<rparr>)"
  using do_receive_frames [OF assms(1,3-6,8)] assms(5,7)
  by (simp add: enqueue_all_disconnected [OF assms(2)] set_rx_def)

theorem disconnected_frames_are_dropped_witness:
  "do_receive list_queue 6 (set_disconnected 6 True (example_net (new_sock\<lparr>rx := frame [7]\<rparr>) [])) =
    Inr (set_disconnected 6 True (example_net new_sock []))"
proof -
  let ?k = "new_sock\<lparr>rx := frame [7]\<rparr>"
  let ?s = "set_disconnected 6 True (example_net ?k [])"
  let ?cf = "\<lparr>cs_channel = example_reverse, cs_self = 1, cs_fd = 0, cs_disconnected = True\<rparr>"
  have c: "6 \<notin> unintercepted ?s" "\<not> is_direct ?s" "sockets ?s 6 = Some ?k"
    by (simp_all add: net_simps) (simp_all add: example_net_def)
  have k: "rx ?k = concat (map frame [[7]])" "rx_then ?k = Rx_Open" by (simp_all add: new_sock_def)
  have st: "status_of ?s 6 = Some ?cf" "cs_disconnected ?cf"
    using example_status(2) [of ?k "[]"] by (simp_all add: net_simps)
  have "?k\<lparr>rx := []\<rparr> = new_sock" by (simp add: new_sock_def)
  then have "?s\<lparr>sockets := (sockets ?s)(6 \<mapsto> ?k\<lparr>rx := []\<rparr>)\<rparr> = set_disconnected 6 True (example_net new_sock [])"
    by (simp add: set_disconnected_def example_net_def)
  then show ?thesis
    using disconnected_frames_are_dropped [OF st c k, of list_queue] by simp
qed

text \<open>C24: The bytes of a connection that is marked as not intercepted are passed on unchanged, all of them and
  in order, to the other end, without a queue; also while a partition has tagged the connection.\<close>

theorem unintercepted_passes_through:
  assumes "wf_net s" and "status_of s fd = Some cf" and "fd \<in> unintercepted s"
    and "status_of s (cells s (cs_fd cf)) = Some p" and "sockets s fd = Some k" and "rx_then k = Rx_Open"
    and "sockets s (cells s (cs_fd cf)) = Some ko" and "plan ko = []"
  shows "do_receive Q fd s = Inr (s\<lparr>sockets := (sockets s)(fd \<mapsto> k\<lparr>rx := []\<rparr>,
    cells s (cs_fd cf) \<mapsto> ko\<lparr>tx := tx ko @ rx k\<rparr>)\<rparr>)"
  using transfer_all [OF assms(1,2,4-8)] assms(2,3) by (simp add: do_receive_def)

lemma example_unintercepted_wf: "wf_net (set_unintercepted 6 (example_net k q))"
proof -
  have "receiving id 6 (example_net k [])"
    by (rule receivingI [OF example_wf example_msgs_ok])
      (simp_all add: live_or_closed_def example_status(2), simp add: example_net_def)
  then have "wf_net (set_unintercepted 6 (example_net k []))"
    using set_unintercepted_receiving example_status(2) receivingD(1) by (metis option.distinct(1))
  moreover have "set_unintercepted 6 (example_net k q) =
      (set_unintercepted 6 (example_net k []))\<lparr>network := [chan_key example_channel \<mapsto> q]\<rparr>"
    by (simp add: set_unintercepted_def example_net_def)
  ultimately show ?thesis by simp
qed

theorem unintercepted_passes_through_witness:
  "\<exists>s'. do_receive list_queue 6 (set_unintercepted 6 (example_net (new_sock\<lparr>rx := [1, 2, 3]\<rparr>) [])) = Inr s' \<and>
    sockets s' 5 = Some (new_sock\<lparr>tx := [1, 2, 3]\<rparr>)"
proof -
  let ?k = "new_sock\<lparr>rx := [1, 2, 3]\<rparr>"
  let ?s = "set_unintercepted 6 (example_net ?k [])"
  let ?cf = "\<lparr>cs_channel = example_reverse, cs_self = 1, cs_fd = 0, cs_disconnected = False\<rparr>"
  have c: "6 \<in> unintercepted ?s" "sockets ?s 6 = Some ?k" "cells ?s (cs_fd ?cf) = 5" "sockets ?s 5 = Some new_sock"
    by (simp_all add: set_unintercepted_def example_net_def)
  have st: "status_of ?s g = status_of (example_net ?k []) g" for g
    by (simp add: set_unintercepted_def status_of_def)
  show ?thesis
    using unintercepted_passes_through [OF example_unintercepted_wf [of ?k "[]"],
        where fd=6 and cf="?cf" and k="?k" and ko=new_sock and Q=list_queue] c st example_status by (simp add: new_sock_def)
qed

text \<open>C35: What happens to the first bytes of a frame that arrive alone depends on how many they are. With four
  to seven the handler leaves them where they are and waits. With one to three it takes a good
  frame for foreign traffic, since the mask of \<^verbatim>\<open>packet_validation\<close> selects the low-order bytes of the
  converted number, where the bytes that are still missing would be: the connection is marked as not
  intercepted for good and the first bytes of the header are passed on to the application.\<close>

theorem split_header:
  assumes "wf_net s" and "status_of s fd = Some cf" and "fd \<notin> unintercepted s"
    and "status_of s (cells s (cs_fd cf)) = Some p" and "sockets s fd = Some k" and "rx_then k = Rx_Open"
    and "sockets s (cells s (cs_fd cf)) = Some ko" and "plan ko = []"
    and "rx k = take n (frame body)" and "0 < n" and "n < 8"
  shows "do_receive Q fd s = Inr (if 4 \<le> n then s
    else s\<lparr>sockets := (sockets s)(fd \<mapsto> k\<lparr>rx := []\<rparr>, cells s (cs_fd cf) \<mapsto> ko\<lparr>tx := tx ko @ take n (frame body)\<rparr>),
      unintercepted := insert fd (unintercepted s)\<rparr>)"
proof -
  let ?len = "of_nat (length body) :: u64"
  let ?h = "recv_header (take n (hack_bytes ?len)) zero_header"
  let ?u = "set_unintercepted fd s"
  have rx: "rx k = take n (hack_bytes ?len)" "rx k \<noteq> []" using assms(9-11) hack_bytes_not_Nil by (simp_all add: frame_def)
  have "k_peek fd header_size s = (int n, False, take n (hack_bytes ?len))"
    using k_peek_bytes [OF assms(5) rx(2), of header_size] rx(1) assms(11) by (simp add: header_size_def min_def)
  then have l: "receive_loop Q fd zero_header s = Inr (s, Stopped (int n) False ?h)"
    using receive_loop_stops [of fd s "int n" False _ Q zero_header] assms(11) by (simp add: header_size_def)
  have d: "do_receive Q fd s = (if 4 \<le> n then Inr s else transfer fd ?u)"
    using l assms(2,3,10) partial_validation [OF assms(10,11), of ?len]
    by (simp add: do_receive_def deref_def)
  show ?thesis
  proof (cases "4 \<le> n")
    case False
    have "receiving (\<lambda>_. []) fd s"
      using assms(1,2) entry_owned(5) [OF assms(1,2)]
      by (auto simp: receiving_def msgs_ok_def live_or_closed_def)
    then have "wf_net ?u"
      using set_unintercepted_receiving assms(2) receivingD(1) by (metis option.distinct(1))
    moreover have "status_of ?u g = status_of s g" "cells ?u = cells s" "sockets ?u = sockets s" for g
      by (simp_all add: set_unintercepted_def status_of_def)
    ultimately have "transfer fd ?u = Inr (?u\<lparr>sockets := (sockets s)(fd \<mapsto> k\<lparr>rx := []\<rparr>,
        cells s (cs_fd cf) \<mapsto> ko\<lparr>tx := tx ko @ rx k\<rparr>)\<rparr>)"
      using transfer_all [of ?u fd cf p k ko] assms(2,4-8) by simp
    then show ?thesis using False d assms(9) by (simp add: set_unintercepted_def)
  qed (use d in simp)
qed

theorem split_header_witness:
  "(\<exists>s'. do_receive list_queue 6 (example_net (new_sock\<lparr>rx := take 1 (frame [9])\<rparr>) []) = Inr s' \<and>
     6 \<in> unintercepted s') \<and>
   do_receive list_queue 6 (example_net (new_sock\<lparr>rx := take 5 (frame [9])\<rparr>) []) =
     Inr (example_net (new_sock\<lparr>rx := take 5 (frame [9])\<rparr>) [])"
proof -
  let ?cf = "\<lparr>cs_channel = example_reverse, cs_self = 1, cs_fd = 0, cs_disconnected = False\<rparr>"
  let ?s = "\<lambda>n. example_net (new_sock\<lparr>rx := take n (frame [9])\<rparr>) []"
  have c: "6 \<notin> unintercepted (?s n)" "sockets (?s n) 6 = Some (new_sock\<lparr>rx := take n (frame [9])\<rparr>)"
    "cells (?s n) (cs_fd ?cf) = 5" "sockets (?s n) 5 = Some new_sock" for n
    by (simp_all add: example_net_def)
  have k: "rx_then (new_sock\<lparr>rx := take n (frame [9])\<rparr>) = Rx_Open" "plan new_sock = []" for n
    by (simp_all add: new_sock_def)
  show ?thesis
    using split_header [OF example_wf example_status(2) c(1), where n=1 and body="[9]" and Q=list_queue]
      split_header [OF example_wf example_status(2) c(1), where n=5 and body="[9]" and Q=list_queue]
      c k example_status by simp
qed

end
