(* ===== verification/Net_Connect.thy ===== *)
theory Net_Connect
  imports Net_Parse
begin

text \<open>
  New connections: \<^verbatim>\<open>TcpSocket\<close> (\<^verbatim>\<open>tproxy/TcpSocket.h\<close>, \<^verbatim>\<open>tproxy/TcpSocket.cpp\<close>) and \<^verbatim>\<open>do_accept_connect\<close>,
  \<^verbatim>\<open>connect_peer\<close>, \<^verbatim>\<open>add_fd_to_channel\<close> and \<^verbatim>\<open>add_monitor_fd\<close> of \<^verbatim>\<open>tproxy/TcpNetwork.cpp\<close>. What the kernel
  answers to the calls of one round is a \<open>world\<close>; the theorems assume of it that a new descriptor
  is one that is not open.
\<close>

section \<open>The kernel's answers\<close>

record world =
  w_accept :: "(fd \<times> sockaddr_in) option"          \<comment> \<open>\<^verbatim>\<open>accept\<close>: descriptor and peer\<close>
  w_peername :: "fd \<Rightarrow> sockaddr_in option"           \<comment> \<open>\<^verbatim>\<open>getpeername\<close>\<close>
  w_sockname :: "fd \<Rightarrow> sockaddr_in option"           \<comment> \<open>\<^verbatim>\<open>getsockname\<close> of an open descriptor\<close>
  w_socket :: "fd option"                            \<comment> \<open>\<^verbatim>\<open>socket\<close>\<close>
  w_setsockopt :: "string \<Rightarrow> fd \<Rightarrow> bool"            \<comment> \<open>\<^verbatim>\<open>setsockopt\<close>, by the name of the option\<close>
  w_bind :: "fd \<Rightarrow> sockaddr_in \<Rightarrow> bool"
  w_listen :: "fd \<Rightarrow> bool"
  w_connect :: "fd \<Rightarrow> sockaddr_in \<Rightarrow> bool"
  w_epoll_add :: "fd \<Rightarrow> bool"

definition k_open :: "fd \<Rightarrow> 'q net \<Rightarrow> 'q net" where
  "k_open fd s = s\<lparr>sockets := (sockets s)(fd \<mapsto> new_sock)\<rparr>"

section \<open>\<^verbatim>\<open>TcpSocket\<close>\<close>

text \<open>The constructor: the listening descriptor and the address it is bound to.\<close>

definition tcp_socket :: "world \<Rightarrow> int \<Rightarrow> (fd \<times> sockaddr_in) result" where
  "tcp_socket w port =
     (let bind_port = (if port \<noteq> - 1 then port else 1234);
          bind_addr = \<lparr>sin_family = AF_INET, sin_port = htons (port_of_int bind_port), s_addr = 0\<rparr>
      in case w_socket w of
           None \<Rightarrow> Inl (Uncaught (System_Error ''socket''))
         | Some fd \<Rightarrow>
             if \<not> w_setsockopt w ''SO_REUSEADDR'' fd then Inl (Uncaught (System_Error ''setsockopt''))
             else if \<not> w_setsockopt w ''IP_TRANSPARENT'' fd then Inl (Uncaught (System_Error ''setsockopt''))
             else if \<not> w_bind w fd bind_addr then Inl (Uncaught (System_Error ''bind''))
             else if \<not> w_listen w fd then Inl (Uncaught (System_Error ''listen''))
             else Inr (fd, bind_addr))"

record accept_data =
  acc_fd :: fd
  client_addr :: sockaddr_in
  origin_addr :: sockaddr_in
  masque_addr :: sockaddr_in

text \<open>\<^verbatim>\<open>TcpSocket::accept(client_fd)\<close>. A failed \<^verbatim>\<open>accept\<close> passes the test, which looks at the listening
  descriptor \<open>listen_fd\<close>.\<close>

definition accept_client :: "world \<Rightarrow> fd \<Rightarrow> fd \<Rightarrow> 'q net \<Rightarrow> (fd \<times> sockaddr_in \<times> 'q net) result" where
  "accept_client w listen_fd client_fd s =
     (if client_fd < 0 then
        (case (case w_accept w of None \<Rightarrow> (- 1, zero_addr, s) | Some (f, a) \<Rightarrow> (f, a, k_open f s)) of
           r \<Rightarrow> if listen_fd = - 1 then Inl (Uncaught (System_Error ''accept'')) else Inr r)
      else (case w_peername w client_fd of
           None \<Rightarrow> Inl (Uncaught (System_Error ''getpeername''))
         | Some a \<Rightarrow> Inr (client_fd, a, s)))"

definition tcp_accept :: "config \<Rightarrow> world \<Rightarrow> fd \<Rightarrow> fd \<Rightarrow> 'q net \<Rightarrow> (accept_data \<times> 'q net) result" where
  "tcp_accept c w listen_fd client_fd s =
     and_then (accept_client w listen_fd client_fd s) (\<lambda>(f, client, s1).
       case (if f < 0 \<or> sockets s1 f = None then None else w_sockname w f) of
         None \<Rightarrow> Inl (Uncaught (System_Error ''getsockname''))
       | Some origin \<Rightarrow>
           and_then (get_masquerade_addr c origin) (\<lambda>masque.
             Inr (\<lparr>acc_fd = f, client_addr = client, origin_addr = origin, masque_addr = masque\<rparr>, s1)))"

section \<open>\<^verbatim>\<open>TcpNetwork\<close>\<close>

text \<open>\<^verbatim>\<open>set_recv_timeout\<close> and \<^verbatim>\<open>set_conn_retries\<close> change an option of the descriptor, which shows in what the
  kernel answers later (\<open>k_recv\<close>, \<open>w_connect\<close>) and in no variable of the program; when \<^verbatim>\<open>setsockopt\<close> fails they warn and
  go on. The second component is the warning.\<close>

definition set_recv_timeout :: "world \<Rightarrow> fd \<Rightarrow> 'q net \<Rightarrow> 'q net \<times> string option" where
  "set_recv_timeout w fd s =
     (s, if w_setsockopt w ''SO_RCVTIMEO'' fd then None else Some (''set_recv_timeout setsockopt fd: '' @ to_string fd))"

definition set_conn_retries :: "world \<Rightarrow> fd \<Rightarrow> 'q net \<Rightarrow> 'q net \<times> string option" where
  "set_conn_retries w fd s =
     (s, if w_setsockopt w ''TCP_SYNCNT'' fd then None else Some (''set_conn_retries setsockopt fd: '' @ to_string fd))"

text \<open>\<^verbatim>\<open>set_nonblocking\<close>, which nothing calls: on the status flags of the open descriptors, with the warning it gives.\<close>

definition O_NONBLOCK :: u32 where "O_NONBLOCK = 2048"

definition set_nonblocking :: "bool \<Rightarrow> fd \<Rightarrow> (fd \<Rightarrow> u32 option) \<Rightarrow> (fd \<Rightarrow> u32 option) \<times> string option" where
  "set_nonblocking setfl_ok fd flags_of =
     (case flags_of fd of
        None \<Rightarrow> (flags_of, Some ''set_nonblocking fcntl F_GETFL'')
      | Some flags \<Rightarrow>
          if setfl_ok then (flags_of(fd \<mapsto> or flags O_NONBLOCK), None)
          else (flags_of, Some ''set_nonblocking fcntl F_SETFL''))"

definition connect_peer :: "world \<Rightarrow> accept_data \<Rightarrow> 'q net \<Rightarrow> fd \<times> 'q net" where
  "connect_peer w acc s =
     (case w_socket w of
        None \<Rightarrow> (- 1, s)
      | Some fd \<Rightarrow>
          let s1 = k_open fd s in
          if \<not> w_setsockopt w ''IP_TRANSPARENT'' fd then (- 1, s1)
          else if \<not> w_bind w fd ((origin_addr acc)\<lparr>sin_port := 0\<rparr>) then (- 1, s1)
          else let s2 = fst (set_conn_retries w fd s1) in
            if \<not> w_connect w fd (masque_addr acc) then (- 1, k_close fd s2)
            else (fd, s2))"

definition add_fd_to_channel :: "fd \<Rightarrow> fd \<Rightarrow> sockaddr_in \<Rightarrow> sockaddr_in \<Rightarrow> 'q net \<Rightarrow> 'q net" where
  "add_fd_to_channel src_fd dst_fd src dst s =
     (let src0 = src\<lparr>sin_port := 0\<rparr>; dst0 = dst\<lparr>sin_port := 0\<rparr>;
          c1 = next_cell s; c2 = Suc (next_cell s)
      in s\<lparr>cells := (cells s)(c1 := src_fd, c2 := dst_fd), next_cell := Suc (Suc (next_cell s)),
           chan_status := om_put (om_put (chan_status s)
             src_fd \<lparr>cs_channel = \<lparr>ch_first = src0, ch_second = dst0\<rparr>, cs_self = c1, cs_fd = c2, cs_disconnected = False\<rparr>)
             dst_fd \<lparr>cs_channel = \<lparr>ch_first = dst0, ch_second = src0\<rparr>, cs_self = c2, cs_fd = c1, cs_disconnected = False\<rparr>\<rparr>)"

definition add_monitor_fd :: "world \<Rightarrow> fd \<Rightarrow> 'q net \<Rightarrow> 'q net result" where
  "add_monitor_fd w fd s =
     (if w_epoll_add w fd then Inr (s\<lparr>monitored := insert fd (monitored s)\<rparr>)
      else Inl (Uncaught (System_Error ''epoll_ctl'')))"

definition add_client :: "fd \<Rightarrow> sockaddr_in \<Rightarrow> 'q net \<Rightarrow> 'q net" where
  "add_client fd a s =
     s\<lparr>client_to_fd := om_put (client_to_fd s) (key_of a) fd, fd_to_client := (fd_to_client s)(fd \<mapsto> a)\<rparr>"

definition do_accept_connect :: "config \<Rightarrow> world \<Rightarrow> fd \<Rightarrow> 'q net \<Rightarrow> (fd \<times> fd \<times> 'q net) result" where
  "do_accept_connect c w listen_fd s =
     and_then (tcp_accept c w listen_fd (- 1) s) (\<lambda>(acc, s1).
       if is_router_addr c (origin_addr acc) then
         and_then (add_monitor_fd w (acc_fd acc) (add_client (acc_fd acc) ((client_addr acc)\<lparr>sin_port := 0\<rparr>) s1))
           (\<lambda>s2. Inr (- 1, - 1, s2))
       else
         (case connect_peer w acc s1 of (peer_fd, s2) \<Rightarrow>
           if peer_fd = - 1 then Inr (- 1, - 1, k_close (acc_fd acc) s2)
           else
             let s3 = fst (set_recv_timeout w peer_fd (fst (set_recv_timeout w (acc_fd acc) s2)))
             in Inr (acc_fd acc, peer_fd,
                  add_fd_to_channel (acc_fd acc) peer_fd (client_addr acc) (masque_addr acc) s3)))"

text \<open>The branch of \<^verbatim>\<open>run_epoll\<close> for the listening descriptor, and the constructor of \<^verbatim>\<open>TcpNetwork\<close>.\<close>

definition on_listen :: "config \<Rightarrow> world \<Rightarrow> fd \<Rightarrow> 'q net \<Rightarrow> 'q net result" where
  "on_listen c w listen_fd s =
     and_then (do_accept_connect c w listen_fd s) (\<lambda>(a, b, s1).
       if a = - 1 \<or> b = - 1 then Inr s1
       else and_then (add_monitor_fd w a s1) (\<lambda>s2. add_monitor_fd w b s2))"

definition tcp_network :: "config \<Rightarrow> world \<Rightarrow> bool \<Rightarrow> fd \<Rightarrow> 'q net result" where
  "tcp_network c w epoll_ok listen_fd =
     (if \<not> epoll_ok then Inl (Uncaught (System_Error ''epoll_create1''))
      else and_then (add_monitor_fd w listen_fd
          \<lparr>sockets = Map.empty, monitored = {}, bad_closes = [], cells = (\<lambda>_. - 1), next_cell = 0,
           chan_status = [], network = Map.empty, client_to_fd = [], fd_to_client = Map.empty,
           unintercepted = {}, is_direct = False\<rparr>)
        (\<lambda>s. Inr (s\<lparr>is_direct := (strategy c = Strategy_Direct)\<rparr>)))"

section \<open>Lemmas\<close>

text \<open>What the kernel promises: new descriptors are not negative, not open and different.\<close>

definition fresh_fds :: "world \<Rightarrow> 'q net \<Rightarrow> bool" where
  "fresh_fds w s \<longleftrightarrow>
     (\<forall>f a. w_accept w = Some (f, a) \<longrightarrow> 0 \<le> f \<and> sockets s f = None) \<and>
     (\<forall>f. w_socket w = Some f \<longrightarrow> 0 \<le> f \<and> sockets s f = None \<and> (\<forall>g a. w_accept w = Some (g, a) \<longrightarrow> f \<noteq> g))"

lemma wf_unused:
  assumes "wf_net s" and "sockets s fd = None"
  shows "status_of s fd = None" "fd_to_client s fd = None" "fd \<notin> unintercepted s"
proof -
  show st: "status_of s fd = None"
    using entry_owned(4) [OF assms(1), of fd] assms(2) by (cases "status_of s fd") auto
  show "fd_to_client s fd = None"
    using wf_netD(5) [OF assms(1)] assms(2) by (cases "fd_to_client s fd") (auto simp: clients_ok_def)
  show "fd \<notin> unintercepted s" using wf_netD(4) [OF assms(1)] st by blast
qed

lemma k_open_frame [net_simps]:
  "cells (k_open fd s) = cells s" "next_cell (k_open fd s) = next_cell s"
  "chan_status (k_open fd s) = chan_status s" "network (k_open fd s) = network s"
  "client_to_fd (k_open fd s) = client_to_fd s" "fd_to_client (k_open fd s) = fd_to_client s"
  "unintercepted (k_open fd s) = unintercepted s" "is_direct (k_open fd s) = is_direct s"
  "bad_closes (k_open fd s) = bad_closes s" "status_of (k_open fd s) g = status_of s g"
  "sockets (k_open fd s) = (sockets s)(fd \<mapsto> new_sock)"
  by (simp_all add: k_open_def status_of_def)

text \<open>More open sockets do no harm.\<close>

lemma wf_more_sockets:
  assumes "wf_net s" and "\<forall>g. sockets s g \<noteq> None \<longrightarrow> f g \<noteq> None"
  shows "wf_net (s\<lparr>sockets := f, monitored := m\<rparr>)"
proof -
  let ?s = "s\<lparr>sockets := f, monitored := m\<rparr>"
  have st: "status_of ?s g = status_of s g" for g by (simp add: status_of_def)
  show ?thesis
  proof (rule wf_netI; (unfold st)?)
    show "entry_ok ?s fd cs" if "status_of s fd = Some cs" for fd cs
      using entry_owned(1) [OF assms(1) that] assms(2) by (simp add: entry_ok_def peer_ok_def st)
    show "clients_ok ?s" using wf_netD(5) [OF assms(1)] assms(2) by (simp add: clients_ok_def)
  qed (use wf_netD [OF assms(1)] in \<open>auto simp: owned_def st\<close>)
qed

lemma wf_k_open: "wf_net s \<Longrightarrow> wf_net (k_open fd s)"
  using wf_more_sockets [of s "(sockets s)(fd \<mapsto> new_sock)" "monitored s"] by (simp add: k_open_def)

lemma wf_add_client:
  assumes "wf_net s" and "0 \<le> fd" and "sockets s fd \<noteq> None" and "status_of s fd = None" and "fd_to_client s fd = None"
  shows "wf_net (add_client fd a s)"
proof -
  let ?s = "add_client fd a s"
  have st: "status_of ?s g = status_of s g" for g by (simp add: status_of_def add_client_def)
  have c: "clients_ok s" by (rule wf_netD(5) [OF assms(1)])
  show ?thesis
  proof (rule wf_netI; (unfold st)?)
    show "entry_ok ?s g cs" if "status_of s g = Some cs" for g cs
    proof -
      have "g \<noteq> fd" using that assms(4) by auto
      then show ?thesis using entry_owned(1) [OF assms(1) that]
        by (simp add: entry_ok_def peer_ok_def st) (simp add: add_client_def)
    qed
    have k: "om_find (om_put (client_to_fd s) (key_of a) fd) = (om_find (client_to_fd s))(key_of a \<mapsto> fd)"
      using c by (intro om.find_put) (simp add: clients_ok_def)
    have "om_find (client_to_fd s) key \<noteq> Some fd" for key
      using c assms(5) unfolding clients_ok_def by (metis option.distinct(1))
    then show "clients_ok ?s"
      using c assms(2,3) by (auto simp: clients_ok_def add_client_def k om_ok_put split: if_splits)
    show "owned ?s c" if lt: "c < next_cell ?s" for c
    proof -
      have e: "next_cell ?s = next_cell s" "cells ?s = cells s" by (simp_all add: add_client_def)
      show ?thesis using wf_netD(2) [OF assms(1), of c] lt unfolding owned_def st e by blast
    qed
  qed (use wf_netD [OF assms(1)] in \<open>auto simp: add_client_def\<close>)
qed

text \<open>A new pair of connections.\<close>

lemma add_fd_to_channel_frame [net_simps]:
  "sockets (add_fd_to_channel a b x y s) = sockets s"
  "network (add_fd_to_channel a b x y s) = network s"
  "client_to_fd (add_fd_to_channel a b x y s) = client_to_fd s"
  "fd_to_client (add_fd_to_channel a b x y s) = fd_to_client s"
  "unintercepted (add_fd_to_channel a b x y s) = unintercepted s"
  "is_direct (add_fd_to_channel a b x y s) = is_direct s"
  "next_cell (add_fd_to_channel a b x y s) = Suc (Suc (next_cell s))"
  "cells (add_fd_to_channel a b x y s) = (cells s)(next_cell s := a, Suc (next_cell s) := b)"
  by (simp_all add: add_fd_to_channel_def Let_def)

lemma status_add_fd:
  assumes "om_ok (chan_status s)" and "a \<noteq> b"
  shows "status_of (add_fd_to_channel a b x y s) g =
    (if g = a then Some \<lparr>cs_channel = \<lparr>ch_first = x\<lparr>sin_port := 0\<rparr>, ch_second = y\<lparr>sin_port := 0\<rparr>\<rparr>,
        cs_self = next_cell s, cs_fd = Suc (next_cell s), cs_disconnected = False\<rparr>
     else if g = b then Some \<lparr>cs_channel = \<lparr>ch_first = y\<lparr>sin_port := 0\<rparr>, ch_second = x\<lparr>sin_port := 0\<rparr>\<rparr>,
        cs_self = Suc (next_cell s), cs_fd = next_cell s, cs_disconnected = False\<rparr>
     else status_of s g)"
  using assms by (simp add: status_of_def add_fd_to_channel_def Let_def om_find_put om_ok_put)

lemma wf_add_fd_to_channel:
  assumes "wf_net s" and "0 \<le> a" and "0 \<le> b" and "a \<noteq> b"
    and "sockets s a \<noteq> None" and "sockets s b \<noteq> None" and "status_of s a = None" and "status_of s b = None"
    and "fd_to_client s a = None" and "fd_to_client s b = None"
  shows "wf_net (add_fd_to_channel a b x y s)"
proof -
  define t where "t = add_fd_to_channel a b x y s"
  note st = status_add_fd [OF wf_netD(1) [OF assms(1)] assms(4), of x y, folded t_def]
  note fr = add_fd_to_channel_frame [of a b x y s, folded t_def]
  have old: "cells t c = cells s c" if "c < next_cell s" for c using that by (simp add: fr)
  have "wf_net t"
  proof (rule wf_netI)
    show "om_ok (chan_status t)"
      using wf_netD(1) [OF assms(1)] by (simp add: t_def add_fd_to_channel_def Let_def om_ok_put)
    show "owned t c" if lt: "c < next_cell t" for c
    proof -
      consider "c < next_cell s" | "c = next_cell s" | "c = Suc (next_cell s)" using lt by (force simp: fr)
      then show ?thesis
      proof cases
        case 1
        then have "owned s c" by (rule wf_netD(2) [OF assms(1)])
        then show ?thesis using assms(7,8) old [OF 1] by (auto simp: owned_def st)
      qed (simp_all add: owned_def st fr assms(4) [symmetric])
    qed
    show "entry_ok t g cs" if sg: "status_of t g = Some cs" for g cs
    proof (cases "g = a \<or> g = b")
      case True
      then show ?thesis
        using sg assms(2-6,9,10) by (auto simp: st fr entry_ok_def peer_ok_def paired_def)
    next
      case False
      then have s0: "status_of s g = Some cs" using sg by (simp add: st)
      have e: "entry_ok s g cs" by (rule entry_owned(1) [OF assms(1) s0])
      have lt: "cs_fd cs < next_cell s" "cs_self cs < next_cell s" using e by (simp_all add: entry_ok_def)
      have o: "owned s (cs_fd cs)" by (rule wf_netD(2) [OF assms(1) lt(1)])
      have "cells s (cs_fd cs) \<noteq> a" "cells s (cs_fd cs) \<noteq> b"
        using o assms(2,3,7,8) by (auto simp: owned_def)
      then have "peer_ok t cs"
        using e by (simp add: entry_ok_def peer_ok_def old [OF lt(1)] st)
      then show ?thesis using e lt by (simp add: entry_ok_def fr)
    qed
    show "status_of t g \<noteq> None" if "g \<in> unintercepted t" for g
      using that wf_netD(4) [OF assms(1), of g] by (simp add: fr st)
    show "clients_ok t" using wf_netD(5) [OF assms(1)] by (simp add: clients_ok_def fr)
  qed
  then show ?thesis by (simp add: t_def)
qed

lemma wf_monitor:
  "wf_net s \<Longrightarrow> add_monitor_fd w fd s = Inr s' \<Longrightarrow>
    wf_net s' \<and> cells s' = cells s \<and> next_cell s' = next_cell s \<and> network s' = network s \<and> is_direct s' = is_direct s"
  using wf_more_sockets [of s "sockets s" "insert fd (monitored s)"]
  by (auto simp: add_monitor_fd_def split: if_splits)

text \<open>\<open>rest_same\<close>: only sockets come and go.\<close>

definition rest_same :: "'q net \<Rightarrow> 'q net \<Rightarrow> bool" where
  "rest_same s s' \<longleftrightarrow> cells s' = cells s \<and> next_cell s' = next_cell s \<and> chan_status s' = chan_status s \<and>
     network s' = network s \<and> client_to_fd s' = client_to_fd s \<and> fd_to_client s' = fd_to_client s \<and>
     unintercepted s' = unintercepted s \<and> is_direct s' = is_direct s"

lemma rest_sameD:
  assumes "rest_same s s'"
  shows "cells s' = cells s" "next_cell s' = next_cell s" "chan_status s' = chan_status s"
    "network s' = network s" "client_to_fd s' = client_to_fd s" "fd_to_client s' = fd_to_client s"
    "unintercepted s' = unintercepted s" "is_direct s' = is_direct s" "status_of s' g = status_of s g"
  using assms by (simp_all add: rest_same_def status_of_def)

lemma rest_same_open: "rest_same s s' \<Longrightarrow> rest_same s (k_open fd s')"
  by (simp add: rest_same_def net_simps)

lemma rest_same_close: "rest_same s s' \<Longrightarrow> rest_same s (k_close fd s')"
  by (simp add: rest_same_def net_simps)

lemma rest_same_refl [simp]: "rest_same s s"
  by (simp add: rest_same_def)

lemma timeout_options [simp]: "fst (set_recv_timeout w fd s) = s" "fst (set_conn_retries w fd s) = s"
  by (simp_all add: set_recv_timeout_def set_conn_retries_def)

lemma connect_peer_outcome:
  assumes "wf_net s" and "\<forall>f. w_socket w = Some f \<longrightarrow> 0 \<le> f \<and> sockets s f = None"
    and "connect_peer w acc s = (r, s')"
  shows "wf_net s'" "rest_same s s'" "\<And>g. sockets s g \<noteq> None \<Longrightarrow> sockets s' g \<noteq> None"
    "r = - 1 \<or> w_socket w = Some r \<and> sockets s' r = Some new_sock"
proof -
  have "wf_net s' \<and> rest_same s s' \<and> (\<forall>g. sockets s g \<noteq> None \<longrightarrow> sockets s' g \<noteq> None) \<and>
      (r = - 1 \<or> w_socket w = Some r \<and> sockets s' r = Some new_sock)"
  proof (cases "w_socket w")
    case None
    then show ?thesis using assms(1,3) by (simp add: connect_peer_def)
  next
    case (Some f)
    define t where "t = k_open f s"
    have f: "0 \<le> f" "sockets s f = None" using assms(2) Some by simp_all
    note u = wf_unused [OF assms(1) f(2)]
    have w1: "wf_net t" by (simp add: t_def wf_k_open [OF assms(1)])
    have w2: "wf_net (k_close f t)" using wf_k_close [OF w1] u by (simp add: t_def net_simps)
    have "(r, s') \<in> {(- 1, t), (- 1, k_close f t), (f, t)}"
      using assms(3) Some by (auto simp: connect_peer_def Let_def t_def split: if_splits)
    then show ?thesis
      using w1 w2 Some f(2) rest_same_open [of s s f] rest_same_close [of s t f]
      by (auto simp: t_def net_simps)
  qed
  then show "wf_net s'" "rest_same s s'" "\<And>g. sockets s g \<noteq> None \<Longrightarrow> sockets s' g \<noteq> None"
    "r = - 1 \<or> w_socket w = Some r \<and> sockets s' r = Some new_sock" by blast+
qed

lemma tcp_accept_outcome:
  assumes "tcp_accept c w l (- 1) s = Inr (acc, s')"
  shows "\<exists>a. w_accept w = Some (acc_fd acc, a) \<and> client_addr acc = a \<and>
      w_sockname w (acc_fd acc) = Some (origin_addr acc) \<and>
      get_masquerade_addr c (origin_addr acc) = Inr (masque_addr acc) \<and> s' = k_open (acc_fd acc) s"
  using assms
  by (auto simp: tcp_accept_def accept_client_def result_simps split: option.splits if_splits prod.splits)

text \<open>The steps of \<^verbatim>\<open>do_accept_connect\<close> keep the invariant, whatever succeeds or fails.\<close>

lemma on_listen_router:
  assumes "wf_net s" and "fresh_fds w s" and "w_accept w = Some (f, a)"
    and "add_monitor_fd w f (add_client f b (k_open f s)) = Inr s'"
  shows "wf_net s' \<and> network s' = network s \<and> is_direct s' = is_direct s \<and> cells_mono s s'"
proof -
  have f: "0 \<le> f" "sockets s f = None" using assms(2,3) by (auto simp: fresh_fds_def)
  note u = wf_unused [OF assms(1) f(2)]
  have "wf_net (add_client f b (k_open f s))"
    using wf_add_client [OF wf_k_open [OF assms(1)] f(1), of f b] u by (simp add: net_simps)
  from wf_monitor [OF this assms(4)] show ?thesis
    by (simp add: cells_mono_same add_client_def net_simps)
qed

lemma on_listen_outcome:
  assumes "wf_net s" and "fresh_fds w s" and "on_listen c w l s = Inr s'"
  shows "wf_net s' \<and> network s' = network s \<and> is_direct s' = is_direct s \<and> cells_mono s s'"
proof -
  obtain a b t where d: "do_accept_connect c w l s = Inr (a, b, t)"
    and t: "(if a = - 1 \<or> b = - 1 then Inr t
       else and_then (add_monitor_fd w a t) (\<lambda>s2. add_monitor_fd w b s2)) = Inr s'"
    using assms(3) by (auto simp: on_listen_def result_simps)
  obtain acc s1 where acc: "tcp_accept c w l (- 1) s = Inr (acc, s1)"
    using d by (auto simp: do_accept_connect_def result_simps)
  define f where "f = acc_fd acc"
  obtain ca where ca: "w_accept w = Some (f, ca)" "s1 = k_open f s" "client_addr acc = ca"
    using tcp_accept_outcome [OF acc] by (auto simp: f_def)
  have f: "0 \<le> f" "sockets s f = None" using assms(2) ca(1) by (auto simp: fresh_fds_def)
  note u = wf_unused [OF assms(1) f(2)]
  have w1: "wf_net s1" by (simp add: ca(2) wf_k_open [OF assms(1)])
  show ?thesis
  proof (cases "is_router_addr c (origin_addr acc)")
    case True
    then obtain s2 where "add_monitor_fd w f (add_client f (ca\<lparr>sin_port := 0\<rparr>) s1) = Inr s2"
      "a = - 1" "t = s2"
      using d acc ca(3) by (auto simp: do_accept_connect_def f_def result_simps)
    then show ?thesis using on_listen_router [OF assms(1,2) ca(1)] t ca(2) by simp
  next
    case False
    obtain peer s2 where p: "connect_peer w acc s1 = (peer, s2)" by fastforce
    have "0 \<le> g \<and> sockets s1 g = None" if "w_socket w = Some g" for g
      using assms(2) that ca(1) by (auto simp: fresh_fds_def ca(2) net_simps)
    then have fs: "\<forall>g. w_socket w = Some g \<longrightarrow> 0 \<le> g \<and> sockets s1 g = None" by blast
    note o = connect_peer_outcome [OF w1 fs p]
    note q = rest_sameD [OF o(2)]
    have u2: "status_of s2 f = None" "fd_to_client s2 f = None"
      using u by (simp_all add: q ca(2) net_simps)
    have st2: "sockets s2 f \<noteq> None" by (rule o(3)) (simp add: ca(2) net_simps)
    show ?thesis
    proof (cases "peer = - 1")
      case True
      then have "s' = k_close f s2"
        using d t acc False p by (auto simp: do_accept_connect_def f_def)
      then show ?thesis
        using wf_k_close [OF o(1) u2] by (simp add: cells_mono_same net_simps q ca(2))
    next
      case np: False
      then have pk: "w_socket w = Some peer" "sockets s2 peer \<noteq> None" using o(4) by auto
      have pf: "0 \<le> peer" "sockets s1 peer = None" using fs pk(1) by blast+
      note up = wf_unused [OF w1 pf(2)]
      have "f \<noteq> peer" using pf(2) by (auto simp: ca(2) net_simps)
      let ?t = "add_fd_to_channel f peer ca (masque_addr acc) s2"
      have "a = f" "b = peer" "t = ?t"
        using d acc False p np ca(3) by (auto simp: do_accept_connect_def f_def)
      then obtain s3 where s3: "add_monitor_fd w f ?t = Inr s3" "add_monitor_fd w peer s3 = Inr s'"
        using t f(1) pf(1) by (auto simp: result_simps)
      have "wf_net ?t"
        using wf_add_fd_to_channel [OF o(1) f(1) pf(1) \<open>f \<noteq> peer\<close> st2 pk(2)] u2 up by (simp add: q)
      note m1 = wf_monitor [OF this s3(1)]
      note m2 = wf_monitor [OF _ s3(2)]
      have "cells_mono s ?t" by (auto simp: cells_mono_def net_simps q ca(2))
      then have "cells_mono s s'" using m1 m2 by (simp add: cells_mono_def)
      then show ?thesis using m1 m2 by (simp add: net_simps q ca(2))
    qed
  qed
qed

text \<open>What one call has done: at most one pair of new entries, and new sockets.\<close>

definition accepted :: "'q net \<Rightarrow> fd \<Rightarrow> fd \<Rightarrow> sockaddr_in \<Rightarrow> sockaddr_in \<Rightarrow> 'q net \<Rightarrow> bool" where
  "accepted s f g x y s' \<longleftrightarrow> f \<noteq> g \<and> 0 \<le> f \<and> 0 \<le> g \<and> sockets s f = None \<and> sockets s g = None \<and>
     chan_status s' = chan_status (add_fd_to_channel f g x y s) \<and>
     cells s' = (cells s)(next_cell s := f, Suc (next_cell s) := g) \<and> next_cell s' = Suc (Suc (next_cell s))"

lemma on_listen_shape:
  assumes "fresh_fds w s" and "on_listen c w l s = Inr s'"
  shows "(\<forall>g k. sockets s' g = Some k \<longrightarrow> sockets s g = Some k \<or> k = new_sock) \<and>
    (\<forall>g k. sockets s g = Some k \<longrightarrow> sockets s' g = Some k) \<and>
    (chan_status s' = chan_status s \<and> cells s' = cells s \<and> next_cell s' = next_cell s \<or> (\<exists>f g x y. accepted s f g x y s'))"
proof -
  obtain a b t where d: "do_accept_connect c w l s = Inr (a, b, t)"
    and t: "(if a = - 1 \<or> b = - 1 then Inr t
       else and_then (add_monitor_fd w a t) (\<lambda>s2. add_monitor_fd w b s2)) = Inr s'"
    using assms(2) by (auto simp: on_listen_def result_simps)
  have s': "chan_status s' = chan_status t" "cells s' = cells t" "sockets s' = sockets t" "next_cell s' = next_cell t"
    using t by (auto simp: add_monitor_fd_def result_simps split: if_splits)
  obtain acc where acc: "tcp_accept c w l (- 1) s = Inr (acc, k_open (acc_fd acc) s)"
    "w_accept w = Some (acc_fd acc, client_addr acc)"
    using d tcp_accept_outcome by (fastforce simp: do_accept_connect_def result_simps)
  define f where "f = acc_fd acc"
  have f: "0 \<le> f" "sockets s f = None" using assms(1) acc(2) by (auto simp: fresh_fds_def f_def)
  show ?thesis
  proof (cases "is_router_addr c (origin_addr acc)")
    case True
    then show ?thesis
      using d acc(1) s' f(2) [unfolded f_def] by (auto simp: do_accept_connect_def result_simps add_monitor_fd_def add_client_def k_open_def
          split: if_splits)
  next
    case False
    obtain g u where p: "connect_peer w acc (k_open f s) = (g, u)" by fastforce
    have u: "chan_status u = chan_status s" "cells u = cells s" "next_cell u = next_cell s"
      "\<forall>h k. sockets u h = Some k \<longrightarrow> sockets s h = Some k \<or> k = new_sock"
      "g = - 1 \<or> w_socket w = Some g"
      using p by (auto simp: connect_peer_def Let_def net_simps split: option.splits if_splits)
    have "sockets s h = None" if "w_socket w = Some h" for h using assms(1) that by (simp add: fresh_fds_def)
    then have su: "\<forall>h k. sockets s h = Some k \<longrightarrow> sockets u h = Some k"
      using p f by (auto simp: connect_peer_def Let_def net_simps split: option.splits if_splits)
    show ?thesis
    proof (cases "g = - 1")
      case True
      then have "t = k_close f u" using d acc(1) False p by (simp add: do_accept_connect_def f_def)
      then show ?thesis using u su f s' by (auto simp: net_simps)
    next
      case ng: False
      have t: "t = add_fd_to_channel f g (client_addr acc) (masque_addr acc) u"
        using d acc(1) False p ng by (auto simp: do_accept_connect_def f_def)
      have "0 \<le> g" "sockets s g = None" "f \<noteq> g" using u(5) ng assms(1) acc(2) by (auto simp: fresh_fds_def f_def)
      then have "accepted s f g (client_addr acc) (masque_addr acc) s'"
        using f s' u by (simp add: accepted_def t net_simps) (simp add: add_fd_to_channel_def Let_def)
      then show ?thesis using s' u(4) su by (auto simp: t net_simps)
    qed
  qed
qed

text \<open>An accepted pair of connections leaves the older entries and cells as they are.\<close>

lemma accepted_status:
  assumes "wf_net s" and "accepted s f g x y s'"
  shows "status_of s' h =
    (if h = f then Some \<lparr>cs_channel = \<lparr>ch_first = x\<lparr>sin_port := 0\<rparr>, ch_second = y\<lparr>sin_port := 0\<rparr>\<rparr>,
        cs_self = next_cell s, cs_fd = Suc (next_cell s), cs_disconnected = False\<rparr>
     else if h = g then Some \<lparr>cs_channel = \<lparr>ch_first = y\<lparr>sin_port := 0\<rparr>, ch_second = x\<lparr>sin_port := 0\<rparr>\<rparr>,
        cs_self = Suc (next_cell s), cs_fd = next_cell s, cs_disconnected = False\<rparr>
     else status_of s h)"
proof -
  have "f \<noteq> g" "chan_status s' = chan_status (add_fd_to_channel f g x y s)" using assms(2) by (simp_all add: accepted_def)
  then show ?thesis
    using status_add_fd [OF wf_netD(1) [OF assms(1)] \<open>f \<noteq> g\<close>, of x y h] by (simp add: status_of_def)
qed

lemma accepted_keeps:
  assumes "wf_net s" and a: "accepted s f g x y s'"
  shows "status_of s f = None" "status_of s g = None" "status_of s h = Some cs \<Longrightarrow> status_of s' h = Some cs"
    "k < next_cell s \<Longrightarrow> cells s' k = cells s k" "k < next_cell s \<Longrightarrow> status_of s' (cells s' k) = status_of s (cells s k)"
proof -
  have n: "sockets s f = None" "sockets s g = None" "0 \<le> f" "0 \<le> g" using a by (simp_all add: accepted_def)
  show u: "status_of s f = None" "status_of s g = None" using wf_unused(1) [OF assms(1)] n(1,2) by blast+
  show "status_of s' h = Some cs" if "status_of s h = Some cs" using that u by (auto simp: accepted_status [OF assms])
  show c: "cells s' k = cells s k" if "k < next_cell s" for k using a that by (simp add: accepted_def)
  show "status_of s' (cells s' k) = status_of s (cells s k)" if "k < next_cell s"
    using wf_netD(2) [OF assms(1) that] u n(3,4) by (auto simp: accepted_status [OF assms] c [OF that] owned_def)
qed

section \<open>Properties\<close>

text \<open>A round of the listening descriptor keeps the invariant whatever the kernel answers, provided that
  new descriptors are really new: after a refused, failed, router or peer connection the state is well
  formed, the queues are untouched, and no cell of an older connection changes.\<close>

theorem accept_keeps_invariant:
  assumes "wf_net s" and "msgs_ok cont s" and "fresh_fds w s" and "on_listen c w listen_fd s = Inr s'"
  shows "wf_net s' \<and> msgs_ok cont s' \<and> network s' = network s \<and>
    (\<forall>k < next_cell s. cells s' k = cells s k \<or> cells s' k = - 1)"
  using on_listen_outcome [OF assms(1,3,4)] assms(2)
  by (fastforce simp: cells_mono_def msgs_ok_def)

text \<open>A world in which everything works: a client from port 80 and the peer's descriptor.\<close>

definition example_world :: world where
  "example_world = \<lparr>w_accept = Some (7, \<lparr>sin_family = AF_INET, sin_port = 80, s_addr = 1\<rparr>),
     w_peername = Map.empty, w_sockname = [7 \<mapsto> \<lparr>sin_family = AF_INET, sin_port = 9, s_addr = 2\<rparr>],
     w_socket = Some 8, w_setsockopt = (\<lambda>_ _. True), w_bind = (\<lambda>_ _. True), w_listen = (\<lambda>_. True),
     w_connect = (\<lambda>_ _. True), w_epoll_add = (\<lambda>_. True)\<rparr>"

lemma example_fresh: "fresh_fds example_world (example_net k q)"
  by (simp add: fresh_fds_def example_world_def example_net_def)

lemma on_listen_pair:
  assumes "wf_net s" and "fresh_fds w s" and "listen_fd \<noteq> - 1"
    and "w_accept w = Some (f, client)" and "w_sockname w f = Some origin"
    and "\<not> is_router_addr c origin" and "get_masquerade_addr c origin = Inr masque"
    and "w_socket w = Some g" and "w_setsockopt w ''IP_TRANSPARENT'' g"
    and "w_bind w g (origin\<lparr>sin_port := 0\<rparr>)" and "w_connect w g masque"
    and "w_epoll_add w f" and "w_epoll_add w g"
  defines "there \<equiv> \<lparr>ch_first = client\<lparr>sin_port := 0\<rparr>, ch_second = masque\<lparr>sin_port := 0\<rparr>\<rparr>"
    and "back \<equiv> \<lparr>ch_first = masque\<lparr>sin_port := 0\<rparr>, ch_second = client\<lparr>sin_port := 0\<rparr>\<rparr>"
    and "n \<equiv> next_cell s"
  shows "\<exists>s'. on_listen c w listen_fd s = Inr s' \<and>
    status_of s' = (status_of s)(f \<mapsto> \<lparr>cs_channel = there, cs_self = n, cs_fd = Suc n, cs_disconnected = False\<rparr>,
      g \<mapsto> \<lparr>cs_channel = back, cs_self = Suc n, cs_fd = n, cs_disconnected = False\<rparr>) \<and>
    cells s' = (cells s)(n := f, Suc n := g) \<and> sockets s' = (sockets s)(f \<mapsto> new_sock, g \<mapsto> new_sock) \<and>
    monitored s' = monitored s \<union> {f, g}"
proof -
  have f: "0 \<le> f" "0 \<le> g" "f \<noteq> g" using assms(2,4,8) by (auto simp: fresh_fds_def)
  let ?acc = "\<lparr>acc_fd = f, client_addr = client, origin_addr = origin, masque_addr = masque\<rparr>"
  define s2 where "s2 = k_open g (k_open f s)"
  have a: "tcp_accept c w listen_fd (- 1) s = Inr (?acc, k_open f s)"
    using assms(3-5,7) f by (simp add: tcp_accept_def accept_client_def net_simps)
  have p: "connect_peer w ?acc (k_open f s) = (g, s2)"
    using assms(8-11) by (simp add: connect_peer_def Let_def s2_def)
  have d: "do_accept_connect c w listen_fd s = Inr (f, g, add_fd_to_channel f g client masque s2)"
    using a p assms(6) f by (simp add: do_accept_connect_def)
  define s4 where "s4 = (add_fd_to_channel f g client masque s2)
      \<lparr>monitored := insert g (insert f (monitored (add_fd_to_channel f g client masque s2)))\<rparr>"
  have "on_listen c w listen_fd s = Inr s4"
    using d f assms(12,13) by (simp add: on_listen_def add_monitor_fd_def s4_def)
  moreover have "status_of s4 h = status_of (add_fd_to_channel f g client masque s2) h" for h
    by (simp add: s4_def status_of_def)
  moreover have "om_ok (chan_status s2)" using wf_netD(1) [OF assms(1)] by (simp add: s2_def net_simps)
  note status_add_fd [OF this f(3), of client masque]
  moreover have "monitored (add_fd_to_channel f g client masque s2) = monitored s"
    by (simp add: add_fd_to_channel_def Let_def s2_def k_open_def)
  ultimately show ?thesis
    using f by (intro exI [of _ s4]) (auto simp: s4_def net_simps s2_def there_def back_def n_def fun_eq_iff)
qed

text \<open>C17: A connection that is accepted for a destination other than the router ends as a pair: a second
  connection from the address the client asked for (with a port of the kernel's choice) to the masqueraded one, two entries with the channel
  in both directions and without ports, each with the cell of its own descriptor and the other's, both
  monitored, and nothing else changed.\<close>

theorem accepted_connection_is_paired:
  assumes "wf_net s" and "fresh_fds w s" and "listen_fd \<noteq> - 1"
    and "w_accept w = Some (f, client)" and "w_sockname w f = Some origin"
    and "\<not> is_router_addr c origin" and "get_masquerade_addr c origin = Inr masque"
    and "w_socket w = Some g" and "w_setsockopt w ''IP_TRANSPARENT'' g"
    and "w_bind w g (origin\<lparr>sin_port := 0\<rparr>)" and "w_connect w g masque"
    and "w_epoll_add w f" and "w_epoll_add w g"
  defines "there \<equiv> \<lparr>ch_first = client\<lparr>sin_port := 0\<rparr>, ch_second = masque\<lparr>sin_port := 0\<rparr>\<rparr>"
    and "back \<equiv> \<lparr>ch_first = masque\<lparr>sin_port := 0\<rparr>, ch_second = client\<lparr>sin_port := 0\<rparr>\<rparr>"
    and "n \<equiv> next_cell s"
  shows "\<exists>s'. on_listen c w listen_fd s = Inr s' \<and>
    status_of s' = (status_of s)(f \<mapsto> \<lparr>cs_channel = there, cs_self = n, cs_fd = Suc n, cs_disconnected = False\<rparr>,
      g \<mapsto> \<lparr>cs_channel = back, cs_self = Suc n, cs_fd = n, cs_disconnected = False\<rparr>) \<and>
    cells s' = (cells s)(n := f, Suc n := g) \<and> sockets s' = (sockets s)(f \<mapsto> new_sock, g \<mapsto> new_sock) \<and>
    monitored s' = monitored s \<union> {f, g}"
  unfolding there_def back_def n_def by (rule on_listen_pair [OF assms(1-13)])

lemma example_masquerade: "get_masquerade_addr init_config a = Inr a"
  by (simp add: get_masquerade_addr_def init_config_def)

lemma example_world_ok:
  "w_accept example_world = Some (7, \<lparr>sin_family = AF_INET, sin_port = 80, s_addr = 1\<rparr>)"
  "w_sockname example_world 7 = Some \<lparr>sin_family = AF_INET, sin_port = 9, s_addr = 2\<rparr>"
  "\<not> is_router_addr init_config \<lparr>sin_family = AF_INET, sin_port = 9, s_addr = 2\<rparr>"
  "w_socket example_world = Some 8" "w_setsockopt example_world o8 8" "w_bind example_world 8 a"
  "w_connect example_world 8 a" "w_epoll_add example_world 7" "w_epoll_add example_world 8"
  by (simp_all add: example_world_def is_router_addr_def init_config_def zero_addr_def cmp_addr_equal_def)

theorem accepted_connection_is_paired_witness:
  "\<exists>s'. on_listen init_config example_world 3 (example_net new_sock []) = Inr s' \<and>
    map_option (ch_first \<circ> cs_channel) (status_of s' 8) = Some \<lparr>sin_family = AF_INET, sin_port = 0, s_addr = 2\<rparr>"
  using accepted_connection_is_paired [OF example_wf [of new_sock "[]"] example_fresh, of 3, OF _ example_world_ok(1-3)
      example_masquerade example_world_ok(4-9)]
  by (auto simp: example_net_def)

theorem accept_keeps_invariant_witness:
  "\<exists>s'. on_listen init_config example_world 3 (example_net new_sock []) = Inr s' \<and> wf_net s'"
proof -
  obtain s' where s': "on_listen init_config example_world 3 (example_net new_sock []) = Inr s'"
    using on_listen_pair [OF example_wf [of new_sock "[]"] example_fresh, of 3, OF _ example_world_ok(1-3)
      example_masquerade example_world_ok(4-9)] by auto
  have "msgs_ok id (example_net new_sock [])" by (rule example_msgs_ok) simp
  from accept_keeps_invariant [OF example_wf this example_fresh s'] s' show ?thesis by blast
qed

text \<open>A failed \<^verbatim>\<open>accept\<close>, for example of a connection that was aborted meanwhile or for want of descriptors,
  is not noticed, because the test looks at the listening descriptor: the router goes on with
  descriptor -1 and dies of the exception of the next call.\<close>

theorem failed_accept_ends_router:
  assumes "w_accept w = None" and "listen_fd \<noteq> - 1"
  shows "on_listen c w listen_fd s = Inl (Uncaught (System_Error ''getsockname''))"
  using assms by (simp add: on_listen_def do_accept_connect_def tcp_accept_def accept_client_def)

theorem failed_accept_ends_router_witness:
  "on_listen init_config (example_world\<lparr>w_accept := None\<rparr>) 3 (example_net new_sock []) =
    Inl (Uncaught (System_Error ''getsockname''))"
  by (rule failed_accept_ends_router) simp_all

text \<open>When the second socket cannot be made transparent or bound, it stays open for ever: it is in no map
  and not monitored, so that no handler can reach it; only the client's descriptor is closed.\<close>

theorem failed_bind_leaks:
  assumes "wf_net s" and "fresh_fds w s" and "listen_fd \<noteq> - 1"
    and "w_accept w = Some (f, client)" and "w_sockname w f = Some origin"
    and "\<not> is_router_addr c origin" and "get_masquerade_addr c origin = Inr masque"
    and "w_socket w = Some g"
    and "\<not> (w_setsockopt w ''IP_TRANSPARENT'' g \<and> w_bind w g (origin\<lparr>sin_port := 0\<rparr>))"
  shows "\<exists>s'. on_listen c w listen_fd s = Inr s' \<and> sockets s' = (sockets s)(g \<mapsto> new_sock) \<and>
    chan_status s' = chan_status s \<and> status_of s' g = None \<and> fd_to_client s' g = None \<and> bad_closes s' = bad_closes s"
proof -
  have f: "sockets s f = None" "sockets s g = None" "f \<noteq> g" "0 \<le> f" using assms(2,4,8) by (auto simp: fresh_fds_def)
  let ?acc = "\<lparr>acc_fd = f, client_addr = client, origin_addr = origin, masque_addr = masque\<rparr>"
  define s2 where "s2 = k_open g (k_open f s)"
  have a: "tcp_accept c w listen_fd (- 1) s = Inr (?acc, k_open f s)"
    using assms(3-5,7) f by (simp add: tcp_accept_def accept_client_def net_simps)
  have p: "connect_peer w ?acc (k_open f s) = (- 1, s2)"
    using assms(8,9) by (auto simp: connect_peer_def Let_def s2_def)
  have "on_listen c w listen_fd s = Inr (k_close f s2)"
    using a p assms(6) by (simp add: on_listen_def do_accept_connect_def)
  moreover have "bad_closes (k_close f s2) = bad_closes s" by (simp add: k_close_def s2_def k_open_def)
  moreover have "sockets (k_close f s2) = (sockets s)(g \<mapsto> new_sock)"
    using f by (auto simp: net_simps s2_def fun_eq_iff)
  ultimately show ?thesis
    using wf_unused [OF assms(1) f(2)] by (intro exI [of _ "k_close f s2"]) (simp add: net_simps s2_def)
qed

theorem failed_bind_leaks_witness:
  "\<exists>s'. on_listen init_config (example_world\<lparr>w_bind := (\<lambda>_ _. False)\<rparr>) 3 (example_net new_sock []) = Inr s' \<and>
    sockets s' 8 = Some new_sock \<and> status_of s' 8 = None"
proof -
  let ?w = "example_world\<lparr>w_bind := (\<lambda>_ _. False)\<rparr>"
  have fr: "fresh_fds ?w (example_net new_sock [])"
    using example_fresh [of new_sock "[]"] by (simp add: fresh_fds_def)
  have "w_accept ?w = Some (7, \<lparr>sin_family = AF_INET, sin_port = 80, s_addr = 1\<rparr>)"
    "w_sockname ?w 7 = Some \<lparr>sin_family = AF_INET, sin_port = 9, s_addr = 2\<rparr>" "w_socket ?w = Some 8"
    using example_world_ok by simp_all
  from failed_bind_leaks [OF example_wf fr, of 3, OF _ this(1,2) example_world_ok(3) example_masquerade this(3)]
  show ?thesis by auto
qed

end
