(* ===== verification/Command_Queue.thy ===== *)
theory Command_Queue
  imports Config_File Queue_Api
begin

text \<open>
  The operator's commands: \<^verbatim>\<open>cmd_t\<close> and \<^verbatim>\<open>Command\<close> of \<^verbatim>\<open>tproxy/Command.h\<close> and \<^verbatim>\<open>tproxy/Command.cpp\<close>, and
  the prompt of \<^verbatim>\<open>tproxy/Repl.cpp\<close>. A command is the list of its words (\<^verbatim>\<open>cmd_t::tokens\<close>); the queue is the
  parameter of \<open>Queue_Api\<close>. What a file holds is the value of a function \<open>fs\<close> at its name, \<open>None\<close> when it
  cannot be opened.
\<close>

section \<open>\<^verbatim>\<open>cmd_t\<close>\<close>

type_synonym cmd = "string list"

definition get_cmd :: "cmd \<Rightarrow> string result" where
  "get_cmd c = (if c = [] then Inl Assert_Failed else Inr (hd c))"

definition get_arg :: "cmd \<Rightarrow> nat \<Rightarrow> string result" where
  "get_arg c n = (if n < length c then Inr (c ! n) else Inl (Undefined Out_Of_Bounds))"

definition more_args :: "cmd \<Rightarrow> string" where
  "more_args c = concat (map (\<lambda>t. '' '' @ t) (tl c))"

text \<open>\<^verbatim>\<open>check_prompt_invalid\<close>: the answer and the text behind the prefix of the warning, without the end of the
  line.\<close>

definition check_prompt_invalid :: "cmd \<Rightarrow> nat \<Rightarrow> string \<Rightarrow> bool \<Rightarrow> (bool \<times> string) result" where
  "check_prompt_invalid c argc info at_least =
     (if c = [] then Inl Assert_Failed
      else if (if at_least then argc \<le> length c else argc = length c) then Inr (True, [])
      else let required = (if argc \<noteq> 0
               then '' (requires '' @ (if at_least then ''>='' else []) @ to_string (int argc) @ '' fields)''
               else [])
           in Inr (False, ''Invalid cmd'' @ required @ (if info \<noteq> [] then '': '' @ info else []) @
                '': '' @ [CHR 0x22] @ hd c @ more_args c @ [CHR 0x22]))"

definition prompt_invalid :: "cmd \<Rightarrow> string \<Rightarrow> (bool \<times> string) result" where
  "prompt_invalid c info = check_prompt_invalid c 0 info False"

text \<open>\<^verbatim>\<open>operator<<\<close>: what goes to the stream \<^verbatim>\<open>os\<close>, and what goes to \<^verbatim>\<open>cerr\<close> instead.\<close>

definition show_cmd :: "cmd \<Rightarrow> (string \<times> string) result" where
  "show_cmd c = and_then (get_cmd c) (\<lambda>w. Inr (w, more_args c))"

section \<open>\<^verbatim>\<open>Command\<close>\<close>

record 'c command =
  cmds :: 'c
  is_file :: bool

definition new_command :: "('c, cmd) queue_ops \<Rightarrow> config \<Rightarrow> 'c command" where
  "new_command Q c = \<lparr>cmds = q_empty Q, is_file = (strategy c = Strategy_File)\<rparr>"

text \<open>The global object \<^verbatim>\<open>command\<close> is constructed behind \<^verbatim>\<open>configFile\<close>, before \<^verbatim>\<open>main\<close> loads a file.\<close>

definition global_command :: "('c, cmd) queue_ops \<Rightarrow> 'c command" where
  "global_command Q = new_command Q init_config"

definition enqueue_cmd :: "('c, cmd) queue_ops \<Rightarrow> cmd \<Rightarrow> 'c command \<Rightarrow> 'c command \<times> bool" where
  "enqueue_cmd Q c cm =
     (if c = [] then (cm, False) else (cm\<lparr>cmds := q_enq Q (cmds cm) c\<rparr>, True))"

definition enqueue :: "('c, cmd) queue_ops \<Rightarrow> string \<Rightarrow> 'c command \<Rightarrow> 'c command \<times> bool" where
  "enqueue Q line cm =
     (let c = tokenize line in
      if c = [] then (cm, False) else (cm\<lparr>cmds := q_enq Q (cmds cm) c\<rparr>, True))"

fun enqueue_lines :: "('c, cmd) queue_ops \<Rightarrow> string list \<Rightarrow> nat \<Rightarrow> 'c command \<Rightarrow> 'c command \<times> nat" where
  "enqueue_lines Q [] n cm = (cm, n)"
| "enqueue_lines Q (l # ls) n cm =
     (case enqueue Q l cm of (cm', ok) \<Rightarrow> enqueue_lines Q ls (if ok then Suc n else n) cm')"

definition read_file :: "('c, cmd) queue_ops \<Rightarrow> (string \<Rightarrow> string option) \<Rightarrow> string \<Rightarrow> 'c command \<Rightarrow> 'c command" where
  "read_file Q fs file cm =
     (case fs file of
        None \<Rightarrow> cm
      | Some text \<Rightarrow>
          (case enqueue_lines Q (getline_all CHR 0x0A text) 0 cm of (cm', line_count) \<Rightarrow>
            if is_file cm' then fst (enqueue Q ''exit'' cm') else cm'))"

text \<open>\<^verbatim>\<open>dequeue\<close>: false, true with a command, or waiting for ever when nobody enqueues.\<close>

datatype 'c dequeued = Deq_False "'c command" | Deq_True cmd "'c command" | Deq_Waits "'c command"

definition dequeue :: "('c, cmd) queue_ops \<Rightarrow> 'c command \<Rightarrow> 'c dequeued result" where
  "dequeue Q cm =
     (if is_file cm \<and> q_size Q (cmds cm) = 0 then Inr (Deq_False cm)
      else case q_deq Q (cmds cm) of
        None \<Rightarrow> Inr (Deq_Waits cm)
      | Some (c, q) \<Rightarrow>
          and_then (get_cmd c) (\<lambda>w.
            Inr (if w = ''exit'' then Deq_False (cm\<lparr>cmds := q\<rparr>) else Deq_True c (cm\<lparr>cmds := q\<rparr>))))"

section \<open>\<^verbatim>\<open>Repl\<close>\<close>

text \<open>The prompt: a string, or null when the input is no terminal.\<close>

definition repl_prompt :: "bool \<Rightarrow> string option" where
  "repl_prompt is_tty =
     (if is_tty then Some ([CHR 0x1B] @ ''[1;36m(REPL) '' @ [CHR 0x1B] @ ''[0m'') else None)"

text \<open>\<^verbatim>\<open>Repl::readline\<close> on the lines that are typed, then the end of the input. Beside the commands it yields
  the history and the lines that are never freed.\<close>

fun repl_loop ::
  "('c, cmd) queue_ops \<Rightarrow> (string \<Rightarrow> string option) \<Rightarrow> string list \<Rightarrow> 'c command \<times> string list \<times> string list \<Rightarrow>
     ('c command \<times> string list \<times> string list) result" where
  "repl_loop Q fs [] (cm, hist, leaked) = Inr (cm, hist, leaked)"
| "repl_loop Q fs (line # lines) (cm, hist, leaked) =
     (let c = tokenize line in
      if c = [] then repl_loop Q fs lines (cm, hist, leaked @ [line])
      else if hd c = ''file'' then
        and_then (check_prompt_invalid c 2 [] False) (\<lambda>(ok, _).
          if \<not> ok then repl_loop Q fs lines (cm, hist @ [line], leaked @ [line])
          else repl_loop Q fs lines (read_file Q fs (c ! 1) cm, hist @ [line], leaked @ [line]))
      else if hd c = ''exit'' then Inr (cm, hist @ [line], leaked @ [line])
      else repl_loop Q fs lines (fst (enqueue_cmd Q c cm), hist @ [line], leaked))"

definition repl_readline ::
  "('c, cmd) queue_ops \<Rightarrow> (string \<Rightarrow> string option) \<Rightarrow> string list \<Rightarrow> 'c command \<Rightarrow>
     ('c command \<times> string list \<times> string list) result" where
  "repl_readline Q fs lines cm =
     and_then (repl_loop Q fs lines (cm, [], [])) (\<lambda>(cm', hist, leaked).
       Inr (fst (enqueue Q ''exit'' cm'), hist, leaked))"

section \<open>Lemmas\<close>

lemma tokenize_exit: "tokenize ''exit'' = [''exit'']"
  by (simp add: tokenize_def)

definition commands_of :: "string \<Rightarrow> cmd list" where
  "commands_of text = filter (\<lambda>c. c \<noteq> []) (map tokenize (getline_all CHR 0x0A text))"

lemma enqueue_contents:
  "fifo Q cont \<Longrightarrow> cont (cmds (fst (enqueue Q l cm))) =
     cont (cmds cm) @ (if tokenize l = [] then [] else [tokenize l])"
  "is_file (fst (enqueue Q l cm)) = is_file cm" "snd (enqueue Q l cm) = (tokenize l \<noteq> [])"
  by (simp_all add: enqueue_def Let_def fifo_enq)

lemma enqueue_cmd_contents:
  "fifo Q cont \<Longrightarrow> cont (cmds (fst (enqueue_cmd Q c cm))) = cont (cmds cm) @ (if c = [] then [] else [c])"
  "is_file (fst (enqueue_cmd Q c cm)) = is_file cm"
  by (simp_all add: enqueue_cmd_def fifo_enq)

lemma enqueue_lines_contents:
  assumes "fifo Q cont"
  shows "enqueue_lines Q ls n cm = (cm', k) \<Longrightarrow>
    cont (cmds cm') = cont (cmds cm) @ filter (\<lambda>c. c \<noteq> []) (map tokenize ls) \<and> is_file cm' = is_file cm \<and>
    k = n + length (filter (\<lambda>c. c \<noteq> []) (map tokenize ls))"
proof (induction ls arbitrary: n cm)
  case Nil
  then show ?case by simp
next
  case (Cons l ls)
  obtain cm1 ok where e: "enqueue Q l cm = (cm1, ok)" by fastforce
  have c: "cont (cmds cm1) = cont (cmds cm) @ (if tokenize l = [] then [] else [tokenize l])"
    "is_file cm1 = is_file cm" "ok = (tokenize l \<noteq> [])"
    using enqueue_contents(1) [OF assms, of l cm] enqueue_contents(2,3) [of Q l cm] e by simp_all
  have "enqueue_lines Q ls (if ok then Suc n else n) cm1 = (cm', k)" using Cons.prems e by simp
  from Cons.IH [OF this] c show ?case by simp
qed

lemma read_file_contents:
  assumes "fifo Q cont"
  shows "cont (cmds (read_file Q fs file cm)) = cont (cmds cm) @
      (case fs file of None \<Rightarrow> []
       | Some text \<Rightarrow> commands_of text @ (if is_file cm then [[''exit'']] else []))"
    "is_file (read_file Q fs file cm) = is_file cm"
proof -
  have "cont (cmds (read_file Q fs file cm)) = cont (cmds cm) @
      (case fs file of None \<Rightarrow> []
       | Some text \<Rightarrow> commands_of text @ (if is_file cm then [[''exit'']] else [])) \<and>
    is_file (read_file Q fs file cm) = is_file cm"
  proof (cases "fs file")
    case None
    then show ?thesis by (simp add: read_file_def)
  next
    case (Some body)
    obtain cm' k where e: "enqueue_lines Q (getline_all CHR 0x0A body) 0 cm = (cm', k)" by fastforce
    then show ?thesis
      using Some enqueue_lines_contents [OF assms e] enqueue_contents(1) [OF assms, of "''exit''" cm']
        enqueue_contents(2) [of Q "''exit''" cm']
      by (simp add: read_file_def commands_of_def tokenize_exit)
  qed
  then show "cont (cmds (read_file Q fs file cm)) = cont (cmds cm) @
      (case fs file of None \<Rightarrow> []
       | Some text \<Rightarrow> commands_of text @ (if is_file cm then [[''exit'']] else []))"
    "is_file (read_file Q fs file cm) = is_file cm" by blast+
qed

text \<open>What the lines typed at the prompt mean.\<close>

definition line_commands :: "bool \<Rightarrow> (string \<Rightarrow> string option) \<Rightarrow> string \<Rightarrow> cmd list" where
  "line_commands in_file fs line =
     (let c = tokenize line in
      if c = [] then []
      else if hd c = ''file'' then
        (if length c = 2
         then (case fs (c ! 1) of None \<Rightarrow> []
           | Some text \<Rightarrow> commands_of text @ (if in_file then [[''exit'']] else []))
         else [])
      else [c])"

definition is_exit_line :: "string \<Rightarrow> bool" where
  "is_exit_line line \<longleftrightarrow> tokenize line \<noteq> [] \<and> hd (tokenize line) = ''exit''"

lemma repl_loop_contents:
  assumes "fifo Q cont"
  shows "\<exists>cm' hist' leaked'. repl_loop Q fs lines (cm, hist, leaked) = Inr (cm', hist', leaked') \<and>
    cont (cmds cm') = cont (cmds cm) @
      concat (map (line_commands (is_file cm) fs) (takeWhile (\<lambda>l. \<not> is_exit_line l) lines)) \<and>
    is_file cm' = is_file cm"
proof (induction lines arbitrary: cm hist leaked)
  case Nil
  then show ?case by simp
next
  case (Cons l lines)
  define c where "c = tokenize l"
  have ex: "is_exit_line l \<longleftrightarrow> c \<noteq> [] \<and> hd c = ''exit''" by (simp add: is_exit_line_def c_def)
  consider "c = []" | "c \<noteq> []" "hd c = ''file''" "length c \<noteq> 2" | "c \<noteq> []" "hd c = ''file''" "length c = 2"
    | "c \<noteq> []" "hd c = ''exit''" | "c \<noteq> []" "hd c \<noteq> ''file''" "hd c \<noteq> ''exit''" by blast
  then show ?case
  proof cases
    case 1
    then have "line_commands (is_file cm) fs l = []" by (simp add: line_commands_def c_def)
    with 1 Cons.IH [of cm hist "leaked @ [l]"] show ?thesis by (simp add: ex Let_def c_def [symmetric])
  next
    case 2
    then have "line_commands (is_file cm) fs l = []" by (simp add: line_commands_def c_def)
    with 2 Cons.IH [of cm "hist @ [l]" "leaked @ [l]"] show ?thesis
      by (simp add: ex Let_def c_def [symmetric] check_prompt_invalid_def)
  next
    case 3
    then have "line_commands (is_file cm) fs l = (case fs (c ! 1) of None \<Rightarrow> []
        | Some text \<Rightarrow> commands_of text @ (if is_file cm then [[''exit'']] else []))"
      by (simp add: line_commands_def c_def)
    with 3 Cons.IH [of "read_file Q fs (c ! 1) cm" "hist @ [l]" "leaked @ [l]"]
      read_file_contents [OF assms, of fs "c ! 1" cm]
    show ?thesis by (simp add: ex Let_def c_def [symmetric] check_prompt_invalid_def)
  next
    case 4
    then show ?thesis by (simp add: ex Let_def c_def [symmetric])
  next
    case 5
    then have "line_commands (is_file cm) fs l = [c]" by (simp add: line_commands_def c_def)
    with 5 Cons.IH [of "fst (enqueue_cmd Q c cm)" "hist @ [l]" leaked]
      enqueue_cmd_contents(1) [OF assms, of c cm] enqueue_cmd_contents(2) [of Q c cm]
    show ?thesis by (simp add: ex Let_def c_def [symmetric])
  qed
qed

section \<open>Properties\<close>

text \<open>C26: Whatever is typed at the prompt, the queue of commands gets exactly what the lines mean, in order, up to
  the first \<^verbatim>\<open>exit\<close> or the end of the input, and then one \<^verbatim>\<open>exit\<close>, so that the reading thread ends; a
  \<^verbatim>\<open>file\<close> line stands for the commands of the file.\<close>

theorem repl_enqueues_lines:
  assumes "fifo Q cont"
  shows "\<exists>cm' hist leaked. repl_readline Q fs lines (global_command Q) = Inr (cm', hist, leaked) \<and>
    cont (cmds cm') =
      concat (map (line_commands False fs) (takeWhile (\<lambda>l. \<not> is_exit_line l) lines)) @ [[''exit'']]"
proof -
  let ?g = "global_command Q"
  have g: "is_file ?g = False" "cont (cmds ?g) = []"
    by (simp_all add: global_command_def new_command_def init_config_def fifo_empty [OF assms])
  obtain cm' hist leaked where l: "repl_loop Q fs lines (?g, [], []) = Inr (cm', hist, leaked)"
    "cont (cmds cm') = concat (map (line_commands False fs) (takeWhile (\<lambda>l. \<not> is_exit_line l) lines))"
    using repl_loop_contents [OF assms, of fs lines ?g "[]" "[]"] g by auto
  then show ?thesis
    using enqueue_contents(1) [OF assms, of "''exit''" cm'] by (simp add: repl_readline_def tokenize_exit)
qed

theorem repl_enqueues_lines_witness:
  "\<exists>cm' hist leaked. repl_readline list_queue (\<lambda>_. None) [''status'', ''exit'', ''status''] (global_command list_queue) =
    Inr (cm', hist, leaked) \<and> cmds cm' = [[''status''], [''exit'']]"
proof -
  have t: "tokenize ''status'' = [''status'']" by (simp add: tokenize_def)
  have "takeWhile (\<lambda>l. \<not> is_exit_line l) [''status'', ''exit'', ''status''] = [''status'']"
    by (simp add: is_exit_line_def tokenize_exit t)
  then show ?thesis
    using repl_enqueues_lines [OF fifo_list_queue, of "\<lambda>_. None" "[''status'', ''exit'', ''status'']"]
    by (simp add: line_commands_def t)
qed

end
