(* ===== verification/Net_Commands.thy ===== *)
theory Net_Commands
  imports Net_Connect Command_Queue
begin

text \<open>
  The operator's side of \<^verbatim>\<open>TcpNetwork\<close>: \<^verbatim>\<open>partition\<close>, \<^verbatim>\<open>recover\<close>, \<^verbatim>\<open>clear_msgs\<close>, \<^verbatim>\<open>send_cmd\<close>, \<^verbatim>\<open>print_status\<close> and
  the loop \<^verbatim>\<open>run_read_cmd\<close> of \<^verbatim>\<open>tproxy/TcpNetwork.cpp\<close>. A partition tags connections, so that what they
  receive is dropped and nothing is delivered to them; a recovery closes them and empties their queues.
\<close>

section \<open>Operations\<close>

definition channel_to_string :: "config \<Rightarrow> channel \<Rightarrow> string" where
  "channel_to_string c ch =
     get_node_name_with_addr c (ch_first ch) @ '' -> '' @ get_node_name_with_addr c (ch_second ch)"

text \<open>\<^verbatim>\<open>for (; msgs.pop(); count++)\<close>, with the size of the queue as the bound.\<close>

fun pop_all :: "('q, msg) queue_ops \<Rightarrow> nat \<Rightarrow> 'q \<Rightarrow> 'q" where
  "pop_all Q 0 q = q"
| "pop_all Q (Suc n) q = (case q_deq Q q of None \<Rightarrow> q | Some (_, q') \<Rightarrow> pop_all Q n q')"

definition clear_msgs :: "('q, msg) queue_ops \<Rightarrow> channel \<Rightarrow> 'q net \<Rightarrow> 'q net" where
  "clear_msgs Q ch s =
     (case network s (chan_key ch) of
        None \<Rightarrow> s
      | Some q \<Rightarrow> s\<lparr>network := (network s)(chan_key ch \<mapsto> pop_all Q (Suc (q_size Q q)) q)\<rparr>)"

text \<open>The two loops of \<^verbatim>\<open>partition\<close>. The first one visits the entries in the order of their descriptors; it
  never adds or erases one.\<close>

fun partition_scan ::
  "('q, msg) queue_ops \<Rightarrow> sockaddr_in \<Rightarrow> bool \<Rightarrow> bool \<Rightarrow> fd list \<Rightarrow> fd list \<Rightarrow> 'q net \<Rightarrow> (fd list \<times> 'q net) result" where
  "partition_scan Q addr clear_msg is_recover [] fd_to_close s = Inr (fd_to_close, s)"
| "partition_scan Q addr clear_msg is_recover (fd # fds) fd_to_close s =
     and_then (deref fd s) (\<lambda>cs.
       if cmp_addr_equal (ch_first (cs_channel cs)) addr then
         and_then (if is_recover then Inr (set_disconnected fd False s) else close_connection fd True True s) (\<lambda>s1.
           partition_scan Q addr clear_msg is_recover fds (if is_recover then fd_to_close @ [fd] else fd_to_close)
             (if clear_msg then clear_msgs Q (cs_channel cs) s1 else s1))
       else partition_scan Q addr clear_msg is_recover fds fd_to_close s)"

fun close_all :: "fd list \<Rightarrow> 'q net \<Rightarrow> 'q net result" where
  "close_all [] s = Inr s"
| "close_all (fd # fds) s = and_then (close_connection fd False True s) (close_all fds)"

definition partition_node ::
  "('q, msg) queue_ops \<Rightarrow> config \<Rightarrow> string \<Rightarrow> bool \<Rightarrow> bool \<Rightarrow> 'q net \<Rightarrow> 'q net result" where
  "partition_node Q c node clear_msg is_recover s =
     (let addr = get_node_addr c node in
      if sin_port addr = bad_port then Inr s
      else and_then (partition_scan Q addr clear_msg is_recover (om_keys (chan_status s)) [] s)
        (\<lambda>(fd_to_close, s1). close_all fd_to_close s1))"

definition recover_node :: "('q, msg) queue_ops \<Rightarrow> config \<Rightarrow> string \<Rightarrow> 'q net \<Rightarrow> 'q net result" where
  "recover_node Q c node s = partition_node Q c node True True s"

definition send_cmd :: "config \<Rightarrow> string \<Rightarrow> string \<Rightarrow> 'q net \<Rightarrow> 'q net" where
  "send_cmd c node command_line s =
     (let addr = get_node_addr c node in
      if sin_port addr = bad_port then s
      else case om_find (client_to_fd s) (key_of addr) of
        None \<Rightarrow> s
      | Some fd \<Rightarrow>
          (case k_write fd (cmd_frame command_line) (length (cmd_frame command_line)) s of (r, s1) \<Rightarrow>
            if r = - 1 then
              let s2 = k_close fd s1 in
              s2\<lparr>fd_to_client := (fd_to_client s2)(fd := None),
                 client_to_fd := om_erase (client_to_fd s2) (key_of addr)\<rparr>
            else s1))"

text \<open>\<^verbatim>\<open>print_status\<close>: the lines it prints, and the queues that \<^verbatim>\<open>network[...]\<close> makes on the way.\<close>

definition client_line :: "config \<Rightarrow> addr_key \<times> fd \<Rightarrow> string" where
  "client_line c p = (case p of (k, fd) \<Rightarrow>
     ''FD: '' @ to_string fd @ '', '' @
     get_node_name_with_addr c \<lparr>sin_family = AF_INET, sin_port = key_port k, s_addr = key_ip k\<rparr> @
     '' <-> '' @ get_node_name_with_addr c (router_addr c))"

definition status_line :: "config \<Rightarrow> fd \<Rightarrow> channel_status \<Rightarrow> nat \<Rightarrow> string" where
  "status_line c fd cs n =
     ''FD: '' @ to_string fd @ '', '' @ channel_to_string c (cs_channel cs) @ '', '' @
     (if cs_disconnected cs then ''disconnected'' else ''connnected'') @ '', msgs: '' @ to_string (int n)"

fun status_scan ::
  "('q, msg) queue_ops \<Rightarrow> config \<Rightarrow> (fd \<times> channel_status) list \<Rightarrow> string list \<Rightarrow> 'q net \<Rightarrow> string list \<times> 'q net" where
  "status_scan Q c [] out s = (out, s)"
| "status_scan Q c ((fd, cs) # es) out s =
     (let k = chan_key (cs_channel cs); q = queue_of Q s k in
      status_scan Q c es (out @ [status_line c fd cs (q_size Q q)]) (s\<lparr>network := (network s)(k \<mapsto> q)\<rparr>))"

definition print_status :: "('q, msg) queue_ops \<Rightarrow> config \<Rightarrow> 'q net \<Rightarrow> string list \<times> 'q net" where
  "print_status Q c s =
     (case status_scan Q c (chan_status s) (map (client_line c) (client_to_fd s)) s of (out, s1) \<Rightarrow>
       (if out = [] then [''(empty network buffer)''] else out, s1))"

section \<open>\<^verbatim>\<open>run_read_cmd\<close>\<close>

text \<open>One command. An invalid one is only reported; the state stays.\<close>

definition checked :: "cmd \<Rightarrow> nat \<Rightarrow> bool \<Rightarrow> 'q net result \<Rightarrow> 'q net \<Rightarrow> 'q net result" where
  "checked c argc at_least body s =
     and_then (check_prompt_invalid c argc [] at_least) (\<lambda>(ok, _). if ok then body else Inr s)"

definition cmd_deliver :: "('q, msg) queue_ops \<Rightarrow> config \<Rightarrow> cmd \<Rightarrow> 'q net \<Rightarrow> 'q net result" where
  "cmd_deliver Q cf c s =
     (let channel = \<lparr>ch_first = get_node_addr cf (c ! 1), ch_second = get_node_addr cf (c ! 2)\<rparr> in
      if \<not> channel_ok channel
      then and_then (prompt_invalid c ''cannot find a valid channel'') (\<lambda>_. Inr s)
      else deliver_msg Q channel None s)"

definition run_cmd :: "('q, msg) queue_ops \<Rightarrow> config \<Rightarrow> 'q net \<Rightarrow> cmd \<Rightarrow> 'q net result" where
  "run_cmd Q cf s c =
     and_then (get_cmd c) (\<lambda>w.
       if w = ''deliver'' then checked c 3 False (cmd_deliver Q cf c s) s
       else if w = ''status'' then checked c 1 False (Inr (snd (print_status Q cf s))) s
       else if w = ''partition'' then checked c 2 False (partition_node Q cf (c ! 1) False False s) s
       else if w = ''recover'' then checked c 2 False (recover_node Q cf (c ! 1) s) s
       else if w = ''cmd'' then
         checked c 3 True (and_then (get_args_from c 2) (\<lambda>l. Inr (send_cmd cf (c ! 1) l s))) s
       else Inr s)"

text \<open>The loop, with the number of commands in the queue as the bound. \<open>Loop_Waits\<close> is a thread that waits in
  \<^verbatim>\<open>wait_dequeue\<close> for ever, unless somebody enqueues a command.\<close>

datatype loop_end = Loop_Returns | Loop_Waits

fun read_cmd_loop ::
  "('c, cmd) queue_ops \<Rightarrow> ('q, msg) queue_ops \<Rightarrow> config \<Rightarrow> nat \<Rightarrow> 'c command \<Rightarrow> 'q net \<Rightarrow>
     ('c command \<times> 'q net \<times> loop_end) result" where
  "read_cmd_loop C Q cf 0 cm s = Inr (cm, s, Loop_Waits)"
| "read_cmd_loop C Q cf (Suc n) cm s =
     and_then (dequeue C cm) (\<lambda>d. case d of
       Deq_False cm' \<Rightarrow> Inr (cm', s, Loop_Returns)
     | Deq_Waits cm' \<Rightarrow> Inr (cm', s, Loop_Waits)
     | Deq_True c cm' \<Rightarrow> and_then (run_cmd Q cf s c) (read_cmd_loop C Q cf n cm'))"

definition run_read_cmd ::
  "('c, cmd) queue_ops \<Rightarrow> ('q, msg) queue_ops \<Rightarrow> config \<Rightarrow> 'c command \<Rightarrow> 'q net \<Rightarrow>
     ('c command \<times> 'q net \<times> loop_end) result" where
  "run_read_cmd C Q cf cm s = read_cmd_loop C Q cf (Suc (q_size C (cmds cm))) cm s"

section \<open>Lemmas\<close>

lemma pop_all_enough: "fifo Q cont \<Longrightarrow> length (cont q) < n \<Longrightarrow> cont (pop_all Q n q) = []"
proof (induction n arbitrary: q)
  case 0
  then show ?case by simp
next
  case (Suc n)
  show ?case
  proof (cases "q_deq Q q")
    case None
    then show ?thesis using fifo_deq_None [OF Suc.prems(1), of q] by simp
  next
    case (Some p)
    obtain m q' where "p = (m, q')" by fastforce
    then show ?thesis using Some Suc fifo_deq_Some [OF Suc.prems(1), of q m q'] by simp
  qed
qed

lemma clear_msgs_frame [net_simps]:
  "sockets (clear_msgs Q ch s) = sockets s" "cells (clear_msgs Q ch s) = cells s"
  "chan_status (clear_msgs Q ch s) = chan_status s" "status_of (clear_msgs Q ch s) g = status_of s g"
  "next_cell (clear_msgs Q ch s) = next_cell s" "fd_to_client (clear_msgs Q ch s) = fd_to_client s"
  "bad_closes (clear_msgs Q ch s) = bad_closes s" "is_direct (clear_msgs Q ch s) = is_direct s"
  by (simp_all add: clear_msgs_def status_of_def split: option.splits)

lemma clear_msgs_wf [simp]: "wf_net (clear_msgs Q ch s) = wf_net s"
  by (simp add: clear_msgs_def split: option.splits)

lemma clear_msgs_contents:
  assumes "fifo Q cont"
  shows "cont (queue_of Q (clear_msgs Q ch s) k) = (if k = chan_key ch then [] else cont (queue_of Q s k))"
proof (cases "network s (chan_key ch)")
  case None
  then show ?thesis using fifo_empty [OF assms] by (auto simp: clear_msgs_def queue_of_def)
next
  case (Some q)
  have "cont (pop_all Q (Suc (q_size Q q)) q) = []"
    by (rule pop_all_enough [OF assms]) (simp add: fifo_size [OF assms])
  then show ?thesis using Some by (simp add: clear_msgs_def queue_of_def)
qed

lemma msgs_ok_queue_of:
  "fifo Q cont \<Longrightarrow> msgs_ok cont s \<Longrightarrow> m \<in> set (cont (queue_of Q s k)) \<Longrightarrow> m_fd m < next_cell s"
  by (rule queue_of_msgs)

lemma msgs_ok_by_queues:
  assumes "\<And>k m. m \<in> set (cont (queue_of Q s k)) \<Longrightarrow> m_fd m < next_cell s"
  shows "msgs_ok cont s"
proof (rule msgs_okI)
  fix k q m
  assume "network s k = Some q" "m \<in> set (cont q)"
  then show "m_fd m < next_cell s" using assms [of m k] by (simp add: queue_of_def)
qed

lemma clear_msgs_ok:
  assumes "fifo Q cont" and "msgs_ok cont s"
  shows "msgs_ok cont (clear_msgs Q ch s)"
  by (rule msgs_ok_by_queues [where Q=Q])
    (use msgs_ok_queue_of [OF assms] in \<open>auto simp: clear_msgs_contents [OF assms(1)] net_simps split: if_splits\<close>)

section \<open>Lemmas: which entries a node touches\<close>

definition starts_at :: "'q net \<Rightarrow> sockaddr_in \<Rightarrow> fd \<Rightarrow> bool" where
  "starts_at s addr f =
     (case status_of s f of None \<Rightarrow> False | Some cs \<Rightarrow> cmp_addr_equal (ch_first (cs_channel cs)) addr)"

definition peer_of :: "'q net \<Rightarrow> fd \<Rightarrow> fd" where
  "peer_of s f = (case status_of s f of None \<Rightarrow> - 1 | Some cs \<Rightarrow> cells s (cs_fd cs))"

definition touches :: "'q net \<Rightarrow> sockaddr_in \<Rightarrow> fd \<Rightarrow> bool" where
  "touches s addr g \<longleftrightarrow> starts_at s addr g \<or> starts_at s addr (peer_of s g)"

definition tagged :: "'q net \<Rightarrow> sockaddr_in \<Rightarrow> fd list \<Rightarrow> fd \<Rightarrow> bool" where
  "tagged s addr fds g \<longleftrightarrow> (\<exists>f \<in> set fds. starts_at s addr f \<and> (g = f \<or> g = peer_of s f))"

text \<open>The other end of the other end.\<close>

lemma peer_of_peer:
  assumes "wf_net s" and "status_of s f = Some cs" and "status_of s (peer_of s f) = Some p"
  shows "peer_of s (peer_of s f) = f"
proof -
  have p: "status_of s (cells s (cs_fd cs)) = Some p" using assms(2,3) by (simp add: peer_of_def)
  have "cs_fd p = cs_self cs" by (rule peer_other(3) [OF assms(1,2) p])
  then show ?thesis
    using assms(2) p entry_owned(3) [OF assms(1,2)] by (simp add: peer_of_def)
qed

lemma starts_at_live: "starts_at s addr f \<Longrightarrow> status_of s f \<noteq> None"
  by (auto simp: starts_at_def split: option.splits)

lemma tagged_all:
  assumes "wf_net s" and "status_of s g \<noteq> None" and "\<forall>f. status_of s f \<noteq> None \<longrightarrow> f \<in> set fds"
  shows "tagged s addr fds g = touches s addr g"
proof
  assume "tagged s addr fds g"
  then obtain f where f: "f \<in> set fds" "starts_at s addr f" "g = f \<or> g = peer_of s f"
    by (auto simp: tagged_def)
  obtain cs where cs: "status_of s f = Some cs" using starts_at_live [OF f(2)] by auto
  show "touches s addr g"
  proof (cases "g = f")
    case False
    then have g: "g = peer_of s f" using f(3) by simp
    then have "peer_of s g = f" using peer_of_peer [OF assms(1) cs] assms(2) by auto
    then show ?thesis using f(2) by (simp add: touches_def)
  qed (use f(2) in \<open>simp add: touches_def\<close>)
next
  assume t: "touches s addr g"
  show "tagged s addr fds g"
  proof (cases "starts_at s addr g")
    case True
    then show ?thesis using assms(2,3) unfolding tagged_def by blast
  next
    case False
    then have st: "starts_at s addr (peer_of s g)" using t by (simp add: touches_def)
    obtain cs where "status_of s g = Some cs" using assms(2) by auto
    from peer_of_peer [OF assms(1) this] starts_at_live [OF st]
    have "peer_of s (peer_of s g) = g" by auto
    then show ?thesis using st starts_at_live [OF st] assms(3) unfolding tagged_def by metis
  qed
qed

definition same_links :: "'q net \<Rightarrow> 'q net \<Rightarrow> bool" where
  "same_links s s' \<longleftrightarrow> cells s' = cells s \<and>
     (\<forall>g. map_option (\<lambda>cs. (cs_channel cs, cs_self cs, cs_fd cs)) (status_of s' g) =
       map_option (\<lambda>cs. (cs_channel cs, cs_self cs, cs_fd cs)) (status_of s g))"

lemma same_links_cong:
  assumes "same_links s s'"
  shows "starts_at s' addr f = starts_at s addr f" "peer_of s' f = peer_of s f"
    "tagged s' addr fds f = tagged s addr fds f"
proof -
  have e: "map_option (\<lambda>cs. (cs_channel cs, cs_self cs, cs_fd cs)) (status_of s' g) =
      map_option (\<lambda>cs. (cs_channel cs, cs_self cs, cs_fd cs)) (status_of s g)" for g
    using assms by (simp add: same_links_def)
  have c: "cells s' = cells s" using assms by (simp add: same_links_def)
  have st: "starts_at s' addr g = starts_at s addr g" for g
    using e [of g] by (auto simp: starts_at_def split: option.splits)
  have pe: "peer_of s' g = peer_of s g" for g
    using e [of g] by (auto simp: peer_of_def c split: option.splits)
  show "starts_at s' addr f = starts_at s addr f" "peer_of s' f = peer_of s f"
    "tagged s' addr fds f = tagged s addr fds f"
    by (simp_all add: st pe tagged_def)
qed

lemma same_links_set [simp]: "same_links s (set_disconnected fd d s)"
  by (simp add: same_links_def net_simps option.map_comp comp_def)

lemma same_links_trans: "same_links a b \<Longrightarrow> same_links b c \<Longrightarrow> same_links a c"
  by (simp add: same_links_def)

section \<open>Lemmas: the scan of a partition\<close>

definition flags_only :: "'q net \<Rightarrow> 'q net \<Rightarrow> bool" where
  "flags_only s s' \<longleftrightarrow> s\<lparr>chan_status := chan_status s'\<rparr> = s'"

lemma flags_only_trans:
  assumes "flags_only a b" and "flags_only b c"
  shows "flags_only a c"
proof -
  have "a\<lparr>chan_status := chan_status c\<rparr> = a\<lparr>chan_status := chan_status b\<rparr>\<lparr>chan_status := chan_status c\<rparr>" by simp
  also have "\<dots> = c" using assms by (simp add: flags_only_def)
  finally show ?thesis by (simp add: flags_only_def)
qed

lemma flags_only_set: "flags_only s (set_disconnected fd d s)"
  by (simp add: flags_only_def set_disconnected_def)

lemma flags_onlyD:
  assumes "flags_only s s'"
  shows "sockets s' = sockets s" "cells s' = cells s" "network s' = network s" "next_cell s' = next_cell s"
    "bad_closes s' = bad_closes s" "is_direct s' = is_direct s" "fd_to_client s' = fd_to_client s"
  by (subst assms [unfolded flags_only_def, symmetric], simp)+

lemma close_tagged_links:
  assumes "status_of s fd = Some cs"
  shows "same_links s (close_result fd True True s)" "flags_only s (close_result fd True True s)"
proof -
  have e: "close_result fd True True s =
      set_disconnected (cells s (cs_fd cs)) True (set_disconnected fd True s)"
    using assms by (simp add: close_result_def Let_def)
  show "same_links s (close_result fd True True s)"
    unfolding e by (rule same_links_trans [OF same_links_set same_links_set])
  show "flags_only s (close_result fd True True s)"
    unfolding e by (rule flags_only_trans [OF flags_only_set flags_only_set])
qed

lemma partition_scan_tags:
  "wf_net s \<Longrightarrow> \<forall>f \<in> set fds. status_of s f \<noteq> None \<Longrightarrow>
    \<exists>s'. partition_scan Q addr False False fds acc s = Inr (acc, s') \<and> wf_net s' \<and> flags_only s s' \<and>
      (\<forall>g. status_of s' g = map_option (\<lambda>cs. cs\<lparr>cs_disconnected := cs_disconnected cs \<or> tagged s addr fds g\<rparr>)
        (status_of s g))"
proof (induction fds arbitrary: s)
  case Nil
  have "flags_only s s" by (simp add: flags_only_def)
  moreover have "status_of s g = map_option (\<lambda>cs. cs\<lparr>cs_disconnected := cs_disconnected cs \<or> tagged s addr [] g\<rparr>)
      (status_of s g)" for g
    by (cases "status_of s g") (simp_all add: tagged_def)
  ultimately show ?case using Nil.prems(1) by simp
next
  case (Cons f fds)
  obtain cs where cs: "status_of s f = Some cs" using Cons.prems(2) by auto
  show ?case
  proof (cases "cmp_addr_equal (ch_first (cs_channel cs)) addr")
    case False
    then have t: "tagged s addr (f # fds) g = tagged s addr fds g" for g
      using cs by (simp add: tagged_def starts_at_def)
    show ?thesis using Cons False cs by (simp add: deref_def t)
  next
    case True
    define s1 where "s1 = close_result f True True s"
    note w = close_connection_eq [OF Cons.prems(1), of f True True, folded s1_def]
      and w1 = close_result_keeps_wf [OF Cons.prems(1) cs, of True True, folded s1_def]
      and l = close_tagged_links [OF cs, folded s1_def]
      and g1 = close_result_tagged(1) [OF cs, of True, folded s1_def]
    have live: "\<forall>h \<in> set fds. status_of s1 h \<noteq> None" using Cons.prems(2) by (auto simp: g1)
    obtain s' where s': "partition_scan Q addr False False fds acc s1 = Inr (acc, s')" "wf_net s'" "flags_only s1 s'"
      "\<forall>g. status_of s' g = map_option (\<lambda>cs. cs\<lparr>cs_disconnected := cs_disconnected cs \<or> tagged s1 addr fds g\<rparr>)
        (status_of s1 g)"
      using Cons.IH [OF w1 live] by blast
    have t: "tagged s addr (f # fds) g \<longleftrightarrow> g = f \<or> g = cells s (cs_fd cs) \<or> tagged s1 addr fds g" for g
      using cs True by (auto simp: same_links_cong(3) [OF l(1)]) (auto simp: tagged_def starts_at_def peer_of_def)
    have "status_of s' g = map_option (\<lambda>cs. cs\<lparr>cs_disconnected := cs_disconnected cs \<or> tagged s addr (f # fds) g\<rparr>)
        (status_of s g)" for g
      using s'(4) by (cases "status_of s g") (auto simp: g1 t)
    then show ?thesis
      using s'(1,2) flags_only_trans [OF l(2) s'(3)] cs True w by (simp add: deref_def)
  qed
qed

section \<open>Lemmas: the scan of a recovery and the closing behind it\<close>

definition flags_and_queues :: "'q net \<Rightarrow> 'q net \<Rightarrow> bool" where
  "flags_and_queues s s' \<longleftrightarrow> s\<lparr>chan_status := chan_status s', network := network s'\<rparr> = s'"

lemma flags_and_queues_trans:
  assumes "flags_and_queues a b" and "flags_and_queues b c"
  shows "flags_and_queues a c"
proof -
  have "a\<lparr>chan_status := chan_status c, network := network c\<rparr> =
      a\<lparr>chan_status := chan_status b, network := network b\<rparr>\<lparr>chan_status := chan_status c, network := network c\<rparr>"
    by simp
  also have "\<dots> = c" using assms unfolding flags_and_queues_def by simp
  finally show ?thesis by (simp add: flags_and_queues_def)
qed

lemma flags_and_queues_clear: "flags_and_queues s (clear_msgs Q ch (set_disconnected fd d s))"
  by (simp add: flags_and_queues_def clear_msgs_def set_disconnected_def split: option.splits)

lemma flags_and_queuesD:
  assumes "flags_and_queues s s'"
  shows "sockets s' = sockets s" "cells s' = cells s" "next_cell s' = next_cell s"
    "bad_closes s' = bad_closes s" "is_direct s' = is_direct s" "fd_to_client s' = fd_to_client s"
  by (subst assms [unfolded flags_and_queues_def, symmetric], simp)+

definition node_channel :: "'q net \<Rightarrow> sockaddr_in \<Rightarrow> fd list \<Rightarrow> chan_key \<Rightarrow> bool" where
  "node_channel s addr fds k \<longleftrightarrow>
     (\<exists>f \<in> set fds. starts_at s addr f \<and> map_option (\<lambda>cs. chan_key (cs_channel cs)) (status_of s f) = Some k)"

lemma node_channel_links:
  assumes "same_links s s'"
  shows "node_channel s' addr fds k = node_channel s addr fds k"
proof -
  have e: "map_option (\<lambda>cs. (cs_channel cs, cs_self cs, cs_fd cs)) (status_of s' g) =
      map_option (\<lambda>cs. (cs_channel cs, cs_self cs, cs_fd cs)) (status_of s g)" for g
    using assms by (simp add: same_links_def)
  have "map_option (\<lambda>cs. chan_key (cs_channel cs)) (status_of s' g) =
      map_option (\<lambda>cs. chan_key (cs_channel cs)) (status_of s g)" for g
    using e [of g] by (cases "status_of s' g"; cases "status_of s g") simp_all
  then show ?thesis by (simp add: node_channel_def same_links_cong(1) [OF assms])
qed

text \<open>What a recovery does to one entry of the node, before the closings.\<close>

lemma recover_entry:
  assumes "fifo Q cont" and "wf_net s" and "status_of s f = Some cs"
  defines "s1 \<equiv> clear_msgs Q (cs_channel cs) (set_disconnected f False s)"
  shows "wf_net s1" "same_links s s1" "flags_and_queues s s1"
    "status_of s1 g = (if g = f then map_option (\<lambda>cs. cs\<lparr>cs_disconnected := False\<rparr>) (status_of s g) else status_of s g)"
    "cont (queue_of Q s1 k) = (if k = chan_key (cs_channel cs) then [] else cont (queue_of Q s k))"
proof -
  show "wf_net s1" using wf_set_disconnected [OF assms(2)] by (simp add: s1_def)
  show "same_links s s1" by (simp add: same_links_def s1_def net_simps option.map_comp comp_def)
  show "flags_and_queues s s1" unfolding s1_def by (rule flags_and_queues_clear)
  show "status_of s1 g = (if g = f then map_option (\<lambda>cs. cs\<lparr>cs_disconnected := False\<rparr>) (status_of s g) else status_of s g)"
    by (simp add: s1_def net_simps)
  have "queue_of Q (set_disconnected f False s) k = queue_of Q s k" by (simp add: queue_of_def net_simps)
  then show "cont (queue_of Q s1 k) = (if k = chan_key (cs_channel cs) then [] else cont (queue_of Q s k))"
    unfolding s1_def clear_msgs_contents [OF assms(1)] by simp
qed

lemma partition_scan_recovers:
  assumes "fifo Q cont"
  shows "wf_net s \<Longrightarrow> \<forall>f \<in> set fds. status_of s f \<noteq> None \<Longrightarrow>
    \<exists>s'. partition_scan Q addr True True fds acc s = Inr (acc @ filter (starts_at s addr) fds, s') \<and>
      wf_net s' \<and> same_links s s' \<and> flags_and_queues s s' \<and>
      (\<forall>g. g \<notin> set fds \<or> \<not> starts_at s addr g \<longrightarrow> status_of s' g = status_of s g) \<and>
      (\<forall>k. cont (queue_of Q s' k) = (if node_channel s addr fds k then [] else cont (queue_of Q s k)))"
proof (induction fds arbitrary: s acc)
  case Nil
  then show ?case by (simp add: same_links_def flags_and_queues_def node_channel_def)
next
  case (Cons f fds)
  obtain cs where cs: "status_of s f = Some cs" using Cons.prems(2) by auto
  have live: "\<forall>h \<in> set fds. status_of s h \<noteq> None" using Cons.prems(2) by simp
  show ?case
  proof (cases "cmp_addr_equal (ch_first (cs_channel cs)) addr")
    case False
    then have n: "\<not> starts_at s addr f" using cs by (simp add: starts_at_def)
    then have k: "node_channel s addr (f # fds) j = node_channel s addr fds j" for j
      by (simp add: node_channel_def)
    have e: "partition_scan Q addr True True (f # fds) acc s = partition_scan Q addr True True fds acc s"
      using False cs by (simp add: deref_def)
    show ?thesis unfolding e k using Cons.IH [OF Cons.prems(1) live, of acc] n by auto
  next
    case True
    define s1 where "s1 = clear_msgs Q (cs_channel cs) (set_disconnected f False s)"
    note r = recover_entry [OF assms Cons.prems(1) cs, folded s1_def]
    have st: "starts_at s addr f" using True cs by (simp add: starts_at_def)
    have "\<forall>h \<in> set fds. status_of s1 h \<noteq> None" using live by (auto simp: r(4))
    then obtain s' where s': "partition_scan Q addr True True fds (acc @ [f]) s1 =
        Inr ((acc @ [f]) @ filter (starts_at s1 addr) fds, s')"
      "wf_net s'" "same_links s1 s'" "flags_and_queues s1 s'"
      "\<forall>g. g \<notin> set fds \<or> \<not> starts_at s1 addr g \<longrightarrow> status_of s' g = status_of s1 g"
      "\<forall>k. cont (queue_of Q s' k) = (if node_channel s1 addr fds k then [] else cont (queue_of Q s1 k))"
      using Cons.IH [OF r(1), of "acc @ [f]"] by blast
    have e: "partition_scan Q addr True True (f # fds) acc s = partition_scan Q addr True True fds (acc @ [f]) s1"
      using True cs by (simp add: deref_def s1_def)
    have fl: "filter (starts_at s1 addr) fds = filter (starts_at s addr) fds"
      by (rule filter_cong [OF refl same_links_cong(1) [OF r(2)]])
    have nc: "node_channel s addr (f # fds) k \<longleftrightarrow> k = chan_key (cs_channel cs) \<or> node_channel s1 addr fds k" for k
      unfolding node_channel_links [OF r(2)] using cs st by (auto simp: node_channel_def)
    show ?thesis
      unfolding e
      by (intro exI [of _ s'])
        (use s' st fl nc r(5) same_links_trans [OF r(2) s'(3)] flags_and_queues_trans [OF r(3) s'(4)] in
          \<open>auto simp: same_links_cong(1) [OF r(2)] r(4)\<close>)
  qed
qed

definition closed_by :: "'q net \<Rightarrow> fd list \<Rightarrow> fd \<Rightarrow> bool" where
  "closed_by s fds g \<longleftrightarrow> (\<exists>f \<in> set fds. status_of s f \<noteq> None \<and> (g = f \<or> g = peer_of s f))"

lemma close_untracked:
  "status_of s f = None \<Longrightarrow> close_connection f False True s = Inr (k_close f s)"
  by (simp add: close_connection_def)

text \<open>Closing one connection, seen from the others.\<close>

lemma peer_of_other_closed:
  assumes "wf_net s" and "status_of s f = Some cs" and "status_of s h = Some d" and "h \<noteq> f" and "h \<noteq> peer_of s f"
    and "\<And>c. cells s' c = (if c = cs_self cs \<or> c = cs_fd cs then - 1 else cells s c)"
    and "status_of s' h = Some d"
  shows "peer_of s' h = peer_of s h"
proof (rule ccontr)
  assume ne: "peer_of s' h \<noteq> peer_of s h"
  then have c: "cs_fd d = cs_self cs \<or> cs_fd d = cs_fd cs" and live: "cells s (cs_fd d) \<noteq> - 1"
    using assms(3,6,7) by (auto simp: peer_of_def split: if_splits)
  have "cs_fd d < next_cell s" using entry_owned(1) [OF assms(1,3)] by (simp add: entry_ok_def)
  from live_cell [OF assms(1) this live] obtain p where p: "status_of s (cells s (cs_fd d)) = Some p" by blast
  note po = peer_other [OF assms(1,3) p]
  note own = entry_owned(3) [OF assms(1,2)] entry_owned(3) [OF assms(1,3)]
  show False
  proof (cases "cs_fd d = cs_self cs")
    case True
    then have "p = cs" using p own(1) assms(2) by simp
    then have "cs_fd cs = cs_self d" using po(3) by simp
    then show False using own(2) assms(2,5) by (simp add: peer_of_def)
  next
    case False
    then have e: "cs_fd d = cs_fd cs" using c by simp
    have "cs_fd p = cs_self cs" using peer_other(3) [OF assms(1,2), of p] p e by simp
    then have "cs_self d = cs_self cs" using po(3) by simp
    then show False using own assms(4) by simp
  qed
qed

lemma closed_by_step:
  assumes "wf_net s" and "status_of s f = Some cs" and "status_of s g \<noteq> None"
  defines "s1 \<equiv> close_result f False True s"
  shows "closed_by s (f # fds) g \<longleftrightarrow> g = f \<or> g = peer_of s f \<or> closed_by s1 fds g"
proof (cases "g = f \<or> g = peer_of s f")
  case True
  then show ?thesis using assms(2) by (auto simp: closed_by_def)
next
  case False
  have pf: "cells s (cs_fd cs) = peer_of s f" using assms(2) by (simp add: peer_of_def)
  note c = close_result_closed [OF assms(1,2), folded s1_def, unfolded pf]
  have pe: "peer_of s1 h = peer_of s h" if h: "status_of s h \<noteq> None" "h \<noteq> f" "h \<noteq> peer_of s f" for h
  proof -
    obtain d where d: "status_of s h = Some d" using h(1) by auto
    then have "status_of s1 h = Some d" using h(2,3) by (simp add: c(1))
    from peer_of_other_closed [OF assms(1,2) d h(2,3) c(2) this] show ?thesis .
  qed
  have out: "g \<noteq> peer_of s h" if h: "status_of s h \<noteq> None" "h = f \<or> h = peer_of s f" for h
    using peer_of_peer [OF assms(1,2)] h False by auto
  have "closed_by s fds g = closed_by s1 fds g"
  proof
    assume "closed_by s fds g"
    then obtain h where h: "h \<in> set fds" "status_of s h \<noteq> None" "g = h \<or> g = peer_of s h"
      by (auto simp: closed_by_def)
    then have "h \<noteq> f" "h \<noteq> peer_of s f" using False out by blast+
    then show "closed_by s1 fds g" using h pe c(1) unfolding closed_by_def by metis
  next
    assume "closed_by s1 fds g"
    then obtain h where h: "h \<in> set fds" "status_of s1 h \<noteq> None" "g = h \<or> g = peer_of s1 h"
      by (auto simp: closed_by_def)
    then have "h \<noteq> f" "h \<noteq> peer_of s f" "status_of s h \<noteq> None" by (auto simp: c(1) split: if_splits)
    then show "closed_by s fds g" using h pe unfolding closed_by_def by metis
  qed
  moreover have "closed_by s (f # fds) g = closed_by s fds g" using False by (auto simp: closed_by_def)
  ultimately show ?thesis using False by simp
qed

lemma dead_after:
  assumes "wf_net s" and "wf_net s'" and "cells_mono s s'" and "status_of s g = Some cs" and "status_of s' g = None"
  shows "cells s' (cs_self cs) = - 1"
proof (rule ccontr)
  assume d: "cells s' (cs_self cs) \<noteq> - 1"
  have lt: "cs_self cs < next_cell s" "cells s (cs_self cs) = g"
    using entry_owned(1) [OF assms(1,4)] by (simp_all add: entry_ok_def)
  then have "cells s' (cs_self cs) = g" "cs_self cs < next_cell s'"
    using assms(3) d by (auto simp: cells_mono_def)
  then show False using live_cell [OF assms(2) _ d] assms(5) by auto
qed

text \<open>The effect of a sequence of closings, stated for the state before them.\<close>

definition closes :: "'q net \<Rightarrow> fd list \<Rightarrow> 'q net \<Rightarrow> bool" where
  "closes s fds s' \<longleftrightarrow> wf_net s' \<and> cells_mono s s' \<and> network s' = network s \<and> next_cell s' = next_cell s \<and>
     is_direct s' = is_direct s \<and> fd_to_client s' = fd_to_client s \<and>
     (\<forall>g. status_of s' g = (if closed_by s fds g then None else status_of s g)) \<and>
     (\<forall>g. sockets s' g = (if g \<in> set fds \<or> closed_by s fds g \<and> status_of s g \<noteq> None then None else sockets s g)) \<and>
     (distinct fds \<and> (\<forall>f \<in> set fds. status_of s f \<noteq> None \<and> peer_of s f \<notin> set fds) \<longrightarrow> bad_closes s' = bad_closes s)"

lemma closesD:
  assumes "closes s fds s'"
  shows "wf_net s'" "cells_mono s s'" "network s' = network s" "next_cell s' = next_cell s"
    "is_direct s' = is_direct s" "fd_to_client s' = fd_to_client s"
    "status_of s' g = (if closed_by s fds g then None else status_of s g)"
    "sockets s' g = (if g \<in> set fds \<or> closed_by s fds g \<and> status_of s g \<noteq> None then None else sockets s g)"
    "distinct fds \<Longrightarrow> \<forall>f \<in> set fds. status_of s f \<noteq> None \<and> peer_of s f \<notin> set fds \<Longrightarrow> bad_closes s' = bad_closes s"
  using assms unfolding closes_def by blast+

lemma closes_Cons_untracked:
  assumes "status_of s f = None" and "closes (close_result f False True s) fds s'"
  shows "closes s (f # fds) s'"
proof -
  define s1 where "s1 = close_result f False True s"
  have k: "s1 = k_close f s" using assms(1) by (simp add: s1_def close_result_def)
  note c = closesD [OF assms(2), folded s1_def] and fr = close_result_frame [of f False True s, folded s1_def]
  have m: "cells_mono s s1" unfolding s1_def by (rule close_result_mono)
  have cb: "closed_by s (f # fds) g = closed_by s1 fds g" for g
    using assms(1) by (auto simp: closed_by_def peer_of_def k net_simps)
  show ?thesis
    unfolding closes_def
    using c(1-8) cells_mono_trans [OF m c(2)] assms(1) by (auto simp: fr cb k net_simps)
qed

lemma closes_Cons_tracked:
  assumes "wf_net s" and "status_of s f = Some cs" and "closes (close_result f False True s) fds s'"
  shows "closes s (f # fds) s'"
proof -
  define s1 where "s1 = close_result f False True s"
  note c = closesD [OF assms(3), folded s1_def] and fr = close_result_frame [of f False True s, folded s1_def]
  have m: "cells_mono s s1" unfolding s1_def by (rule close_result_mono)
  have pf: "cells s (cs_fd cs) = peer_of s f" using assms(2) by (simp add: peer_of_def)
  note r = close_result_closed [OF assms(1,2), folded s1_def, unfolded pf]
  note cb = closed_by_step [OF assms(1,2), folded s1_def]
  have st: "status_of s' g = (if closed_by s (f # fds) g then None else status_of s g)" for g
    using c(7) [of g] cb [of g] r(1) [of g] by (cases "status_of s g") auto
  have so: "sockets s' g = (if g \<in> set (f # fds) \<or> closed_by s (f # fds) g \<and> status_of s g \<noteq> None then None
      else sockets s g)" for g
    using c(8) [of g] cb [of g] r(1) [of g] r(3) [of g] by (cases "status_of s g") (auto split: if_splits)
  have bc: "bad_closes s' = bad_closes s"
    if d: "distinct (f # fds)" "\<forall>h \<in> set (f # fds). status_of s h \<noteq> None \<and> peer_of s h \<notin> set (f # fds)"
  proof -
    have "status_of s1 h \<noteq> None \<and> peer_of s1 h \<notin> set fds" if "h \<in> set fds" for h
    proof -
      have n: "h \<noteq> f" "h \<noteq> peer_of s f" using d \<open>h \<in> set fds\<close> by auto
      obtain q where q: "status_of s h = Some q" using d(2) \<open>h \<in> set fds\<close> by auto
      then have q1: "status_of s1 h = Some q" using n by (simp add: r(1))
      from peer_of_other_closed [OF assms(1,2) q n r(2) q1]
      show ?thesis using d(2) \<open>h \<in> set fds\<close> q1 by auto
    qed
    then show ?thesis using c(9) d(1) by (simp add: r(4))
  qed
  show ?thesis unfolding closes_def using c(1-6) cells_mono_trans [OF m c(2)] st so bc by (simp add: fr)
qed

lemma close_all_closes:
  "wf_net s \<Longrightarrow> \<forall>f \<in> set fds. fd_to_client s f = None \<Longrightarrow> \<exists>s'. close_all fds s = Inr s' \<and> closes s fds s'"
proof (induction fds arbitrary: s)
  case Nil
  then show ?case by (simp add: closes_def closed_by_def)
next
  case (Cons f fds)
  define s1 where "s1 = close_result f False True s"
  have e: "close_connection f False True s = Inr s1"
    using close_connection_eq [OF Cons.prems(1)] by (simp add: s1_def)
  have w1: "wf_net s1" using close_result_wf [OF Cons.prems(1)] Cons.prems(2) by (simp add: s1_def)
  have "\<forall>h \<in> set fds. fd_to_client s1 h = None"
    using Cons.prems(2) by (simp add: close_result_frame [of f False True s, folded s1_def])
  then obtain s' where s': "close_all fds s1 = Inr s'" "closes s1 fds s'" using Cons.IH [OF w1] by blast
  have "closes s (f # fds) s'"
    using s'(2) closes_Cons_untracked closes_Cons_tracked [OF Cons.prems(1)] unfolding s1_def by (cases "status_of s f") blast+
  then show ?case using e s'(1) by simp
qed

section \<open>Lemmas: whole commands\<close>

lemma live_keys: "status_of s f \<noteq> None \<longleftrightarrow> f \<in> set (om_keys (chan_status s))"
  by (auto simp: status_of_def om_keys_def om_find_None_iff dest: om_find_in_set)

lemma distinct_keys: "wf_net s \<Longrightarrow> distinct (om_keys (chan_status s))"
  using wf_netD(1) [of s] by (simp add: om_ok_def om_keys_def strict_sorted_iff)

lemma partition_outcome:
  assumes "wf_net s"
  shows "\<exists>s'. partition_node Q c node False False s = Inr s' \<and> wf_net s' \<and> flags_only s s' \<and>
    (sin_port (get_node_addr c node) \<noteq> bad_port \<longrightarrow> (\<forall>g. status_of s' g =
      map_option (\<lambda>cs. cs\<lparr>cs_disconnected := cs_disconnected cs \<or> touches s (get_node_addr c node) g\<rparr>) (status_of s g)))"
proof (cases "sin_port (get_node_addr c node) = bad_port")
  case True
  then show ?thesis using assms by (simp add: partition_node_def flags_only_def)
next
  case False
  let ?addr = "get_node_addr c node" and ?keys = "om_keys (chan_status s)"
  have live: "\<forall>f \<in> set ?keys. status_of s f \<noteq> None" by (simp only: live_keys) simp
  obtain s' where s': "partition_scan Q ?addr False False ?keys [] s = Inr ([], s')" "wf_net s'" "flags_only s s'"
    "\<forall>g. status_of s' g = map_option (\<lambda>cs. cs\<lparr>cs_disconnected := cs_disconnected cs \<or> tagged s ?addr ?keys g\<rparr>)
        (status_of s g)"
    using partition_scan_tags [OF assms live, of Q ?addr "[]"] by blast
  have t: "tagged s ?addr ?keys g = touches s ?addr g" if "status_of s g = Some cs" for g cs
    by (rule tagged_all [OF assms]) (use that in \<open>auto simp: live_keys [symmetric]\<close>)
  have "status_of s' g = map_option (\<lambda>cs. cs\<lparr>cs_disconnected := cs_disconnected cs \<or> touches s ?addr g\<rparr>)
      (status_of s g)" for g
    using s'(4) by (cases "status_of s g") (simp_all add: t)
  then show ?thesis using s'(1-3) False by (simp add: partition_node_def)
qed

lemma recover_outcome:
  assumes "fifo Q cont" and "wf_net s" and "sin_port (get_node_addr c node) \<noteq> bad_port"
  defines "addr \<equiv> get_node_addr c node" and "keys \<equiv> om_keys (chan_status s)"
  shows "\<exists>s1 s'. recover_node Q c node s = Inr s' \<and> wf_net s1 \<and> same_links s s1 \<and> flags_and_queues s s1 \<and>
    (\<forall>g. \<not> starts_at s addr g \<longrightarrow> status_of s1 g = status_of s g) \<and>
    (\<forall>k. cont (queue_of Q s1 k) = (if node_channel s addr keys k then [] else cont (queue_of Q s k))) \<and>
    closes s1 (filter (starts_at s addr) keys) s'"
proof -
  have live: "\<forall>f \<in> set keys. status_of s f \<noteq> None" unfolding keys_def by (simp only: live_keys) simp
  obtain s1 where s1: "partition_scan Q addr True True keys [] s = Inr ([] @ filter (starts_at s addr) keys, s1)"
    "wf_net s1" "same_links s s1" "flags_and_queues s s1"
    "\<forall>g. g \<notin> set keys \<or> \<not> starts_at s addr g \<longrightarrow> status_of s1 g = status_of s g"
    "\<forall>k. cont (queue_of Q s1 k) = (if node_channel s addr keys k then [] else cont (queue_of Q s k))"
    using partition_scan_recovers [OF assms(1,2) live, of addr "[]"] by blast
  have "fd_to_client s1 f = None" if "f \<in> set (filter (starts_at s addr) keys)" for f
  proof -
    have "status_of s f \<noteq> None" using that live by simp
    then have "fd_to_client s f = None" using entry_owned(5) [OF assms(2)] by blast
    then show ?thesis using flags_and_queuesD(6) [OF s1(4)] by simp
  qed
  then obtain s' where "close_all (filter (starts_at s addr) keys) s1 = Inr s'"
    "closes s1 (filter (starts_at s addr) keys) s'"
    using close_all_closes [OF s1(2)] by blast
  then show ?thesis
    using s1 assms(3) unfolding recover_node_def partition_node_def addr_def keys_def by auto
qed

lemma wf_drop_client:
  assumes "wf_net s" and "fd_to_client s fd = Some a"
  shows "wf_net ((k_close fd s)\<lparr>fd_to_client := (fd_to_client s)(fd := None),
    client_to_fd := om_erase (client_to_fd s) (key_of a)\<rparr>)"
proof -
  let ?t = "(k_close fd s)\<lparr>fd_to_client := (fd_to_client s)(fd := None),
    client_to_fd := om_erase (client_to_fd s) (key_of a)\<rparr>"
  have st: "status_of ?t g = status_of s g" for g by (simp add: status_of_def net_simps)
  have c: "clients_ok s" by (rule wf_netD(5) [OF assms(1)])
  show ?thesis
  proof (rule wf_netI; (unfold st)?)
    show "entry_ok ?t g cs" if g: "status_of s g = Some cs" for g cs
    proof -
      have "g \<noteq> fd" using entry_owned(5) [OF assms(1) g] assms(2) by auto
      then show ?thesis using entry_owned(1) [OF assms(1) g]
        by (simp add: entry_ok_def peer_ok_def st) (simp add: net_simps)
    qed
    show "owned ?t k" if "k < next_cell ?t" for k
    proof -
      have e: "cells ?t = cells s" "next_cell ?t = next_cell s" by (simp_all add: net_simps)
      show ?thesis using wf_netD(2) [OF assms(1), of k] that unfolding owned_def st e by blast
    qed
    have "\<exists>b. fd_to_client s f = Some b \<and> key_of b = k \<and> f \<noteq> fd"
      if "om_find (client_to_fd s) k = Some f" "k \<noteq> key_of a" for k f
      using c that assms(2) unfolding clients_ok_def by (metis option.inject)
    then show "clients_ok ?t"
      using c by (auto simp: clients_ok_def net_simps om_find_erase om_ok_erase)
  qed (use wf_netD [OF assms(1)] in \<open>auto simp: net_simps\<close>)
qed

lemma send_cmd_outcome:
  assumes "wf_net s"
  shows "wf_net (send_cmd c node l s) \<and> network (send_cmd c node l s) = network s \<and>
    cells (send_cmd c node l s) = cells s \<and> next_cell (send_cmd c node l s) = next_cell s \<and>
    is_direct (send_cmd c node l s) = is_direct s"
proof (cases "sin_port (get_node_addr c node) = bad_port \<or>
    om_find (client_to_fd s) (key_of (get_node_addr c node)) = None")
  case True
  then show ?thesis using assms by (auto simp: send_cmd_def Let_def)
next
  case False
  define k where "k = key_of (get_node_addr c node)"
  obtain fd where fd: "om_find (client_to_fd s) k = Some fd" using False by (auto simp: k_def)
  obtain a where a: "fd_to_client s fd = Some a" "key_of a = k"
    using wf_netD(5) [OF assms] fd unfolding clients_ok_def by blast
  obtain r s1 where w: "k_write fd (cmd_frame l) (length (cmd_frame l)) s = (r, s1)" by fastforce
  note sb = k_write_frame(1) [OF w]
  note q = same_but_sockets_simps [OF sb] and w1 = same_but_sockets_wf [OF sb assms]
  note d = wf_drop_client [OF w1, of fd a]
  have "send_cmd c node l s = (if r = - 1 then (k_close fd s1)\<lparr>fd_to_client := (fd_to_client s1)(fd := None),
      client_to_fd := om_erase (client_to_fd s1) k\<rparr> else s1)"
    using False fd w by (simp add: send_cmd_def k_def [symmetric] net_simps)
  then show ?thesis using w1 d a q by (simp add: net_simps)
qed

lemma status_scan_outcome:
  assumes "fifo Q cont"
  shows "status_scan Q c es out s = (out', s') \<Longrightarrow>
    (\<exists>n. s' = s\<lparr>network := n\<rparr>) \<and> (\<forall>k. cont (queue_of Q s' k) = cont (queue_of Q s k)) \<and>
    out' = out @ map (\<lambda>(fd, cs). status_line c fd cs (length (cont (queue_of Q s (chan_key (cs_channel cs)))))) es"
proof (induction es arbitrary: out s)
  case Nil
  then have "s' = s\<lparr>network := network s\<rparr>" by simp
  then show ?case using Nil by (intro conjI exI) (assumption, simp_all)
next
  case (Cons e es)
  obtain fd cs where e: "e = (fd, cs)" by fastforce
  define k where "k = chan_key (cs_channel cs)"
  define s1 where "s1 = s\<lparr>network := (network s)(k \<mapsto> queue_of Q s k)\<rparr>"
  have q: "queue_of Q s1 j = queue_of Q s j" for j by (simp add: s1_def queue_of_def)
  have "status_scan Q c es (out @ [status_line c fd cs (q_size Q (queue_of Q s k))]) s1 = (out', s')"
    using Cons.prems by (simp add: e Let_def k_def s1_def)
  from Cons.IH [OF this] show ?case
    by (auto simp: q e k_def fifo_size [OF assms]) (simp add: s1_def, metis)
qed

text \<open>What every command keeps; the one fault left is the one of an empty message.\<close>

definition command_sound :: "('q \<Rightarrow> msg list) \<Rightarrow> 'q net \<Rightarrow> 'q net result \<Rightarrow> bool" where
  "command_sound cont s r \<longleftrightarrow>
     (case r of
        Inl e \<Rightarrow> e = Undefined Uninit_Read
      | Inr s' \<Rightarrow> wf_net s' \<and> msgs_ok cont s' \<and> cells_mono s s' \<and> is_direct s' = is_direct s)"

lemma msgs_ok_same:
  "msgs_ok cont s \<Longrightarrow> network s' = network s \<Longrightarrow> next_cell s' = next_cell s \<Longrightarrow> msgs_ok cont s'"
  by (simp add: msgs_ok_def)

lemma partition_sound:
  assumes "wf_net s" and "msgs_ok cont s"
  shows "command_sound cont s (partition_node Q c node False False s)"
proof -
  obtain s' where s': "partition_node Q c node False False s = Inr s'" "wf_net s'" "flags_only s s'"
    using partition_outcome [OF assms(1)] by blast
  note f = flags_onlyD [OF s'(3)]
  show ?thesis
    using s'(1,2) msgs_ok_same [OF assms(2) f(3,4)] f by (simp add: command_sound_def cells_mono_same)
qed

lemma recover_sound:
  assumes "fifo Q cont" and "wf_net s" and "msgs_ok cont s"
  shows "command_sound cont s (recover_node Q c node s)"
proof (cases "sin_port (get_node_addr c node) = bad_port")
  case True
  then show ?thesis using assms by (simp add: recover_node_def partition_node_def command_sound_def)
next
  case False
  obtain s1 s' fds where s': "recover_node Q c node s = Inr s'" "flags_and_queues s s1" "closes s1 fds s'"
    and q: "\<forall>k. \<exists>P. cont (queue_of Q s1 k) = (if P then [] else cont (queue_of Q s k))"
    using recover_outcome [OF assms(1,2) False] by blast
  note f = flags_and_queuesD [OF s'(2)]
  have "msgs_ok cont s1"
  proof (rule msgs_ok_by_queues [where Q=Q])
    show "m_fd m < next_cell s1" if m: "m \<in> set (cont (queue_of Q s1 k))" for k m
    proof -
      obtain P where "cont (queue_of Q s1 k) = (if P then [] else cont (queue_of Q s k))" using q by blast
      then have "m \<in> set (cont (queue_of Q s k))" using m by (simp split: if_splits)
      then show ?thesis using msgs_ok_queue_of [OF assms(1,3)] f(3) by simp
    qed
  qed
  then have "msgs_ok cont s'" using msgs_ok_same s'(3) by (auto simp: closes_def)
  moreover have "cells_mono s s1" using f by (simp add: cells_mono_same)
  then have "cells_mono s s'" using s'(3) cells_mono_trans by (auto simp: closes_def)
  ultimately show ?thesis using s'(1,3) f by (simp add: command_sound_def closes_def)
qed

lemma print_status_sound:
  assumes "fifo Q cont" and "wf_net s" and "msgs_ok cont s"
  shows "command_sound cont s (Inr (snd (print_status Q c s)))"
proof -
  obtain out s' where o': "status_scan Q c (chan_status s) (map (client_line c) (client_to_fd s)) s = (out, s')"
    by fastforce
  note r = status_scan_outcome [OF assms(1) o']
  obtain n where n: "s' = s\<lparr>network := n\<rparr>" using r by blast
  have "msgs_ok cont s'"
    by (rule msgs_ok_by_queues [where Q=Q]) (use r n msgs_ok_queue_of [OF assms(1,3)] in auto)
  then show ?thesis using o' n assms(2) by (simp add: print_status_def command_sound_def cells_mono_same)
qed

lemma deliver_sound:
  assumes "fifo Q cont" and "wf_net s" and "msgs_ok cont s"
  shows "command_sound cont s (deliver_msg Q ch None s)"
  using deliver_msg_wf [OF assms(1,2), of ch None] deliver_msg_msgs_ok [OF assms, of ch]
    deliver_msg_mono [OF assms(1,2), of ch]
  by (cases "deliver_msg Q ch None s") (simp_all add: command_sound_def)

lemma send_cmd_sound:
  "wf_net s \<Longrightarrow> msgs_ok cont s \<Longrightarrow> command_sound cont s (Inr (send_cmd c node l s))"
  using send_cmd_outcome [of s c node l] msgs_ok_same [of cont s "send_cmd c node l s"]
  by (simp add: command_sound_def cells_mono_same)

lemma same_sound: "wf_net s \<Longrightarrow> msgs_ok cont s \<Longrightarrow> command_sound cont s (Inr s)"
  by (simp add: command_sound_def)

lemma checked_sound:
  assumes "c \<noteq> []" and "command_sound cont s (Inr s)"
    and "(if at_least then argc \<le> length c else argc = length c) \<Longrightarrow> command_sound cont s body"
  shows "command_sound cont s (checked c argc at_least body s)"
  using assms by (auto simp: checked_def check_prompt_invalid_def Let_def)

lemma run_cmd_sound:
  assumes "fifo Q cont" and "wf_net s" and "msgs_ok cont s" and "c \<noteq> []"
  shows "command_sound cont s (run_cmd Q cf s c)"
proof -
  note same = same_sound [OF assms(2,3)]
  have d: "command_sound cont s (cmd_deliver Q cf c s)"
    using same deliver_sound [OF assms(1-3)] assms(4)
    by (auto simp: cmd_deliver_def Let_def prompt_invalid_def check_prompt_invalid_def)
  have m: "command_sound cont s (and_then (get_args_from c 2) (\<lambda>l. Inr (send_cmd cf (c ! 1) l s)))"
    if "3 \<le> length c"
    using that send_cmd_sound [OF assms(2,3)] by (simp add: get_args_from_def)
  note ck = checked_sound [OF assms(4) same]
  show ?thesis
    using ck [OF d] ck [OF print_status_sound [OF assms(1-3)]] ck [OF partition_sound [OF assms(2,3)]]
      ck [OF recover_sound [OF assms(1-3)]] ck [of True 3, OF m] same assms(4)
    by (simp add: run_cmd_def get_cmd_def)
qed

end
