(* ===== verification/Net_Operator.thy ===== *)
theory Net_Operator
  imports Net_Commands
begin

text \<open>
  What the operator can rely on: a partition silences a node in both directions and breaks nothing, a
  recovery removes all connections and messages of a node, commands run one after the other up to
  \<^verbatim>\<open>exit\<close>, and an invalid command does nothing; and two ways in which the code does not do what it
  is meant to do.
\<close>

section \<open>Partition\<close>

text \<open>A partition of a node the configuration knows tags exactly the connections from and to it as
  disconnected, in both directions, and changes nothing else: no connection is closed, no message is
  lost, no other connection is tagged.\<close>

theorem partition_tags_node:
  assumes "wf_net s" and "sin_port (get_node_addr c node) \<noteq> bad_port"
  shows "\<exists>s'. partition_node Q c node False False s = Inr s' \<and> s\<lparr>chan_status := chan_status s'\<rparr> = s' \<and>
    (\<forall>g. status_of s' g = map_option (\<lambda>cs. cs\<lparr>cs_disconnected := cs_disconnected cs \<or>
      touches s (get_node_addr c node) g\<rparr>) (status_of s g))"
  using partition_outcome [OF assms(1), of Q c node] assms(2) unfolding flags_only_def by blast

definition example_node :: sockaddr_in where
  "example_node = \<lparr>sin_family = AF_INET, sin_port = 0, s_addr = 1\<rparr>"

definition example_nodes :: config where
  "example_nodes = init_config\<lparr>node_to_addr := [''n1'' \<mapsto> example_node]\<rparr>"

lemma example_nodes_addr [simp]: "get_node_addr example_nodes ''n1'' = example_node"
  "sin_port example_node \<noteq> bad_port"
  by (simp_all add: example_nodes_def get_node_addr_def example_node_def bad_port_def)

lemma example_starts: "starts_at (example_net k q) example_node 5"
  using example_status(1) [of k q]
  by (simp add: starts_at_def example_channel_def example_node_def cmp_addr_equal_def)

lemma example_peers: "peer_of (example_net k q) 5 = 6" "peer_of (example_net k q) 6 = 5"
  using example_status(1,2) [of k q] by (simp_all add: peer_of_def) (simp_all add: example_net_def)

lemma example_touches: "touches (example_net k q) example_node 5" "touches (example_net k q) example_node 6"
  using example_starts example_peers by (simp_all add: touches_def)

theorem partition_tags_node_witness:
  "\<exists>s'. partition_node list_queue example_nodes ''n1'' False False (example_net new_sock []) = Inr s' \<and>
    map_option cs_disconnected (status_of s' 6) = Some True"
  using partition_tags_node [OF example_wf [of new_sock "[]"], of example_nodes "''n1''" list_queue]
    example_touches(2) example_status(2) by fastforce



section \<open>Recovery\<close>

text \<open>The connections that a recovery closes are those the node touches.\<close>

lemma closed_is_touched:
  assumes "wf_net s" and "same_links s s1" and "status_of s g \<noteq> None"
  shows "closed_by s1 (filter (starts_at s addr) (om_keys (chan_status s))) g \<longleftrightarrow> touches s addr g"
proof -
  have live: "status_of s1 h = None \<longleftrightarrow> status_of s h = None" for h
    using assms(2) by (auto simp: same_links_def dest!: spec [where x=h])
  have "closed_by s1 (filter (starts_at s addr) (om_keys (chan_status s))) g \<longleftrightarrow>
      tagged s addr (om_keys (chan_status s)) g"
    using starts_at_live [of s addr]
    by (auto simp: closed_by_def tagged_def same_links_cong(2) [OF assms(2)] live)
  also have "\<dots> \<longleftrightarrow> touches s addr g"
    by (rule tagged_all [OF assms(1,3)]) (use live_keys in blast)
  finally show ?thesis .
qed

lemma node_channel_starts:
  "starts_at s addr g \<Longrightarrow> status_of s g = Some cs \<Longrightarrow>
    node_channel s addr (om_keys (chan_status s)) (chan_key (cs_channel cs))"
  using live_keys [of s g] unfolding node_channel_def by (intro bexI [of _ g]) simp_all

text \<open>Everything a recovery does.\<close>

lemma recover_effect:
  assumes "fifo Q cont" and "wf_net s" and "sin_port (get_node_addr c node) \<noteq> bad_port"
  defines "addr \<equiv> get_node_addr c node"
  shows "\<exists>s'. recover_node Q c node s = Inr s' \<and> wf_net s' \<and> cells_mono s s' \<and> next_cell s' = next_cell s \<and>
    is_direct s' = is_direct s \<and>
    (\<forall>g. status_of s' g = (if touches s addr g then None else status_of s g)) \<and>
    (\<forall>g. sockets s' g = (if touches s addr g \<and> status_of s g \<noteq> None then None else sockets s g)) \<and>
    (\<forall>k. cont (queue_of Q s' k) =
      (if node_channel s addr (om_keys (chan_status s)) k then [] else cont (queue_of Q s k))) \<and>
    ((\<forall>g. starts_at s addr g \<longrightarrow> \<not> starts_at s addr (peer_of s g)) \<longrightarrow> bad_closes s' = bad_closes s)"
proof -
  define fds where "fds = filter (starts_at s addr) (om_keys (chan_status s))"
  obtain s1 s' where r: "recover_node Q c node s = Inr s'" "wf_net s1" "same_links s s1" "flags_and_queues s s1"
    "\<forall>g. \<not> starts_at s addr g \<longrightarrow> status_of s1 g = status_of s g"
    "\<forall>k. cont (queue_of Q s1 k) = (if node_channel s addr (om_keys (chan_status s)) k then [] else cont (queue_of Q s k))"
    "closes s1 fds s'"
    using recover_outcome [OF assms(1-3)] unfolding fds_def addr_def by blast
  note fq = flags_and_queuesD [OF r(4)] and l = same_links_cong [OF r(3)]
  have cl: "wf_net s'" "cells_mono s1 s'" "network s' = network s1" "next_cell s' = next_cell s1"
    "is_direct s' = is_direct s1"
    "\<And>g. status_of s' g = (if closed_by s1 fds g then None else status_of s1 g)"
    "\<And>g. sockets s' g = (if g \<in> set fds \<or> closed_by s1 fds g \<and> status_of s1 g \<noteq> None then None else sockets s1 g)"
    "distinct fds \<and> (\<forall>f \<in> set fds. status_of s1 f \<noteq> None \<and> peer_of s1 f \<notin> set fds) \<longrightarrow> bad_closes s' = bad_closes s1"
    using r(7) unfolding closes_def by blast+
  have live: "status_of s1 g = None \<longleftrightarrow> status_of s g = None" for g
    using r(3) by (auto simp: same_links_def dest!: spec [where x=g])
  have fds: "f \<in> set fds \<longleftrightarrow> starts_at s addr f" for f
    using starts_at_live [of s addr f] live_keys [of s f] by (auto simp: fds_def)
  have tg: "closed_by s1 fds g \<longleftrightarrow> touches s addr g" if "status_of s g \<noteq> None" for g
    unfolding fds_def by (rule closed_is_touched [OF assms(2) r(3) that])
  have untouched: "status_of s1 g = status_of s g" if "\<not> touches s addr g" for g
    using r(5) that by (simp add: touches_def)
  have st: "status_of s' g = (if touches s addr g then None else status_of s g)" for g
    using tg [of g] cl(6) [of g] untouched [of g] live [of g] by (cases "status_of s g") auto
  have sk: "sockets s' g = (if touches s addr g \<and> status_of s g \<noteq> None then None else sockets s g)" for g
    using cl(7) [of g] tg [of g] live [of g] fds [of g] starts_at_live [of s addr g] fq(1)
    by (auto simp: touches_def)
  have "queue_of Q s' k = queue_of Q s1 k" for k using cl(3) by (simp add: queue_of_def)
  then have q: "cont (queue_of Q s' k) = (if node_channel s addr (om_keys (chan_status s)) k then [] else cont (queue_of Q s k))"
    for k using spec [OF r(6), of k] by simp
  have bad: "bad_closes s' = bad_closes s" if "\<forall>g. starts_at s addr g \<longrightarrow> \<not> starts_at s addr (peer_of s g)"
  proof -
    have "distinct fds" using distinct_keys [OF assms(2)] by (simp add: fds_def)
    then show ?thesis using cl(8) that starts_at_live [of s addr] by (simp add: fds l(2) live fq)
  qed
  have "cells_mono s s'" "next_cell s' = next_cell s" "is_direct s' = is_direct s"
    using cl(2,4,5) fq by (simp_all add: cells_mono_def)
  then show ?thesis using r(1) cl(1) st sk q bad by (intro exI [of _ s'] conjI allI impI)
qed



text \<open>A node that is connected to itself is closed once too often: both ends of the connection start at the
  node, the first closing closes both, and the second one calls \<^verbatim>\<open>close\<close> on a descriptor that another
  thread may have opened again meanwhile.\<close>

theorem recover_self_connection_closes_twice:
  assumes "fifo Q cont" and "wf_net s" and "sin_port (get_node_addr c node) \<noteq> bad_port"
    and "om_keys (chan_status s) = [f, g]" and "peer_of s f = g"
    and "starts_at s (get_node_addr c node) f" and "starts_at s (get_node_addr c node) g"
  shows "\<exists>s'. recover_node Q c node s = Inr s' \<and> bad_closes s' = bad_closes s @ [g]"
proof -
  let ?addr = "get_node_addr c node"
  have fl: "filter (starts_at s ?addr) (om_keys (chan_status s)) = [f, g]" using assms(4,6,7) by simp
  have live: "\<forall>h \<in> set (om_keys (chan_status s)). status_of s h \<noteq> None" by (simp only: live_keys) simp
  obtain s1 where s1: "partition_scan Q ?addr True True (om_keys (chan_status s)) [] s = Inr ([f, g], s1)"
    "wf_net s1" "same_links s s1" "flags_and_queues s s1"
    using partition_scan_recovers [OF assms(1,2) live, of ?addr "[]", unfolded fl] by auto
  note l = same_links_cong(2) [OF s1(3)]
  have "status_of s1 f \<noteq> None"
    using s1(3) starts_at_live [OF assms(6)] by (auto simp: same_links_def dest!: spec [where x=f])
  then obtain cs where cs: "status_of s1 f = Some cs" by auto
  have pg: "cells s1 (cs_fd cs) = g" using assms(5) l [of f] cs by (simp add: peer_of_def)
  have gl: "status_of s1 g \<noteq> None"
    using s1(3) starts_at_live [OF assms(7)] by (auto simp: same_links_def dest!: spec [where x=g])
  define s2 where "s2 = close_result f False True s1"
  note c1 = close_result_closed [OF s1(2) cs, folded s2_def, unfolded pg]
  have "close_connection g False True s2 = Inr (s2\<lparr>bad_closes := bad_closes s2 @ [g]\<rparr>)"
    using c1(1) [of g] c1(3) [of g] gl by (simp add: close_connection_def k_close_def)
  moreover have "close_connection f False True s1 = Inr s2"
    using close_connection_eq [OF s1(2)] by (simp add: s2_def)
  ultimately have "recover_node Q c node s = Inr (s2\<lparr>bad_closes := bad_closes s2 @ [g]\<rparr>)"
    using s1(1) assms(3) by (simp add: recover_node_def partition_node_def)
  then show ?thesis using c1(4) flags_and_queuesD(4) [OF s1(4)] by simp
qed

definition example_loop :: "msg list net" where
  "example_loop = (let ch = \<lparr>ch_first = example_node, ch_second = example_node\<rparr> in
     (example_net new_sock [])\<lparr>chan_status :=
       [(5, \<lparr>cs_channel = ch, cs_self = 0, cs_fd = 1, cs_disconnected = False\<rparr>),
        (6, \<lparr>cs_channel = ch, cs_self = 1, cs_fd = 0, cs_disconnected = False\<rparr>)]\<rparr>)"

lemma example_loop_status:
  "status_of example_loop g =
    (if g = 5 then Some \<lparr>cs_channel = \<lparr>ch_first = example_node, ch_second = example_node\<rparr>, cs_self = 0, cs_fd = 1, cs_disconnected = False\<rparr>
     else if g = 6 then Some \<lparr>cs_channel = \<lparr>ch_first = example_node, ch_second = example_node\<rparr>, cs_self = 1, cs_fd = 0, cs_disconnected = False\<rparr>
     else None)"
  by (simp add: status_of_def example_loop_def om_find_def Let_def)

lemma example_loop_wf: "wf_net example_loop"
proof (rule wf_netI)
  have f: "sockets example_loop = [5 \<mapsto> new_sock, 6 \<mapsto> new_sock]" "next_cell example_loop = 2"
    "cells example_loop = (\<lambda>c. if c = 0 then 5 else if c = 1 then 6 else - 1)"
    "fd_to_client example_loop = Map.empty" "unintercepted example_loop = {}"
    by (simp_all add: example_loop_def Let_def example_net_def fun_eq_iff)
  show "om_ok (chan_status example_loop)" by (simp add: example_loop_def Let_def)
  show "owned example_loop c" if "c < next_cell example_loop" for c
    using that by (auto simp: owned_def example_loop_status f)
  show "entry_ok example_loop g cs" if st: "status_of example_loop g = Some cs" for g cs
  proof -
    have "g = 5 \<or> g = 6" using st by (auto simp: example_loop_status split: if_splits)
    then show ?thesis
      using st by (auto simp: example_loop_status entry_ok_def peer_ok_def paired_def f)
  qed
  show "status_of example_loop g \<noteq> None" if "g \<in> unintercepted example_loop" for g
    using that by (simp add: f)
  show "clients_ok example_loop" by (simp add: clients_ok_def example_loop_def example_net_def Let_def)
qed

theorem recover_self_connection_closes_twice_witness:
  "\<exists>s'. recover_node list_queue example_nodes ''n1'' example_loop = Inr s' \<and> bad_closes s' = [6]"
proof -
  have a: "starts_at example_loop example_node 5" "starts_at example_loop example_node 6"
    by (simp_all add: starts_at_def example_loop_status cmp_addr_equal_def)
  have "peer_of example_loop 5 = 6" by (simp add: peer_of_def example_loop_status) (simp add: example_loop_def Let_def example_net_def)
  moreover have "om_keys (chan_status example_loop) = [5, 6]" "bad_closes example_loop = []"
    by (simp_all add: example_loop_def Let_def om_keys_def example_net_def)
  ultimately show ?thesis
    using recover_self_connection_closes_twice [OF fifo_list_queue example_loop_wf, of example_nodes "''n1''" 5 6] a by simp
qed

section \<open>The loop over the commands\<close>

lemma read_cmd_loop_runs:
  assumes "fifo C contC"
  shows "length (contC (cmds cm)) < n \<Longrightarrow> [] \<notin> set (contC (cmds cm)) \<Longrightarrow>
    (case run (run_cmd Q cf) s (takeWhile (\<lambda>c. hd c \<noteq> ''exit'') (contC (cmds cm))) of
       Inl e \<Rightarrow> read_cmd_loop C Q cf n cm s = Inl e
     | Inr s' \<Rightarrow> \<exists>cm'. read_cmd_loop C Q cf n cm s = Inr (cm', s',
         if is_file cm \<or> (\<exists>c \<in> set (contC (cmds cm)). hd c = ''exit'') then Loop_Returns else Loop_Waits) \<and>
         contC (cmds cm') = tl (dropWhile (\<lambda>c. hd c \<noteq> ''exit'') (contC (cmds cm))))"
proof (induction n arbitrary: cm s)
  case 0
  then show ?case by simp
next
  case (Suc n)
  show ?case
  proof (cases "contC (cmds cm)")
    case Nil
    then have "q_deq C (cmds cm) = None" "q_size C (cmds cm) = 0"
      using fifo_deq_None [OF assms] fifo_size [OF assms] by simp_all
    then show ?thesis using Nil by (simp add: dequeue_def)
  next
    case (Cons c cs)
    obtain q where q: "q_deq C (cmds cm) = Some (c, q)" "contC q = cs"
      using fifo_deq_Cons [OF assms Cons] by blast
    have c: "c \<noteq> []" "q_size C (cmds cm) \<noteq> 0" using Suc.prems(2) Cons fifo_size [OF assms] by auto
    let ?cm = "cm\<lparr>cmds := q\<rparr>"
    have d: "dequeue C cm = Inr (if hd c = ''exit'' then Deq_False ?cm else Deq_True c ?cm)"
      using q c by (simp add: dequeue_def get_cmd_def)
    show ?thesis
    proof (cases "hd c = ''exit''")
      case True
      then show ?thesis using d Cons q(2) by simp
    next
      case False
      have cmq: "is_file ?cm = is_file cm" "contC (cmds ?cm) = cs" using q(2) by simp_all
      have i: "length (contC (cmds ?cm)) < n" "[] \<notin> set (contC (cmds ?cm))"
        using Suc.prems Cons q(2) by simp_all
      show ?thesis
      proof (cases "run_cmd Q cf s c")
        case (Inl e)
        then show ?thesis using d Cons False by simp
      next
        case (Inr t)
        have e: "read_cmd_loop C Q cf (Suc n) cm s = read_cmd_loop C Q cf n ?cm t"
          using d False Inr by simp
        have ih: "case run (run_cmd Q cf) t (takeWhile (\<lambda>c. hd c \<noteq> ''exit'') cs) of
            Inl e \<Rightarrow> read_cmd_loop C Q cf n ?cm t = Inl e
          | Inr s' \<Rightarrow> \<exists>cm'. read_cmd_loop C Q cf n ?cm t = Inr (cm', s',
              if is_file cm \<or> (\<exists>c \<in> set cs. hd c = ''exit'') then Loop_Returns else Loop_Waits) \<and>
              contC (cmds cm') = tl (dropWhile (\<lambda>c. hd c \<noteq> ''exit'') cs)"
          by (rule Suc.IH [OF i, of t, unfolded cmq])
        have x: "run (run_cmd Q cf) s (takeWhile (\<lambda>c. hd c \<noteq> ''exit'') (c # cs)) =
            run (run_cmd Q cf) t (takeWhile (\<lambda>c. hd c \<noteq> ''exit'') cs)"
          "(\<exists>b \<in> set (c # cs). hd b = ''exit'') = (\<exists>b \<in> set cs. hd b = ''exit'')"
          "dropWhile (\<lambda>c. hd c \<noteq> ''exit'') (c # cs) = dropWhile (\<lambda>c. hd c \<noteq> ''exit'') cs"
          using False Inr by simp_all
        show ?thesis unfolding e Cons x by (rule ih)
      qed
    qed
  qed
qed

text \<open>C20: \<^verbatim>\<open>run_read_cmd\<close> runs the commands of the queue one after the other on the state that the one before
  left, up to the first \<^verbatim>\<open>exit\<close>; it returns when there is one, and otherwise waits for more.\<close>

theorem read_cmd_runs_commands:
  assumes "fifo C contC" and "[] \<notin> set (contC (cmds cm))" and "\<not> is_file cm"
    and "run (run_cmd Q cf) s (takeWhile (\<lambda>c. hd c \<noteq> ''exit'') (contC (cmds cm))) = Inr s'"
  shows "\<exists>cm'. run_read_cmd C Q cf cm s = Inr (cm', s',
      if \<exists>c \<in> set (contC (cmds cm)). hd c = ''exit'' then Loop_Returns else Loop_Waits) \<and>
    contC (cmds cm') = tl (dropWhile (\<lambda>c. hd c \<noteq> ''exit'') (contC (cmds cm)))"
proof -
  have "length (contC (cmds cm)) < Suc (q_size C (cmds cm))" by (simp add: fifo_size [OF assms(1)])
  from read_cmd_loop_runs [OF assms(1) this assms(2), of Q cf s] show ?thesis
    using assms(3,4) by (simp add: run_read_cmd_def)
qed

theorem read_cmd_runs_commands_witness:
  "\<exists>cm'. run_read_cmd list_queue list_queue example_nodes \<lparr>cmds = [[''foo''], [''exit''], [''bar'']], is_file = False\<rparr>
      (example_net new_sock []) = Inr (cm', example_net new_sock [], Loop_Returns) \<and> cmds cm' = [[''bar'']]"
proof -
  let ?cm = "\<lparr>cmds = [[''foo''], [''exit''], [''bar'']], is_file = False\<rparr>"
  have "run (run_cmd list_queue example_nodes) (example_net new_sock [])
      (takeWhile (\<lambda>c. hd c \<noteq> ''exit'') (id (cmds ?cm))) = Inr (example_net new_sock [])"
    by (simp add: run_cmd_def get_cmd_def)
  from read_cmd_runs_commands [OF fifo_list_queue _ _ this] show ?thesis by simp
qed

text \<open>What the router does with the file of the option \<^verbatim>\<open>file\<close>: all its commands up to an \<^verbatim>\<open>exit\<close>.\<close>

lemma file_commands_run:
  assumes "fifo C contC" and "fs path = Some text"
    and "run (run_cmd Q cf) s (takeWhile (\<lambda>c. hd c \<noteq> ''exit'') (commands_of text)) = Inr s'"
  shows "\<exists>cm'. run_read_cmd C Q cf (read_file C fs path (global_command C)) s = Inr (cm', s',
    if \<exists>c \<in> set (commands_of text). hd c = ''exit'' then Loop_Returns else Loop_Waits)"
proof -
  let ?cm = "read_file C fs path (global_command C)"
  have g: "is_file (global_command C) = False" "contC (cmds (global_command C)) = []"
    by (simp_all add: global_command_def new_command_def init_config_def fifo_empty [OF assms(1)])
  have c: "contC (cmds ?cm) = commands_of text" "is_file ?cm = False"
    using read_file_contents [OF assms(1), of fs path "global_command C"] g assms(2) by simp_all
  have n: "[] \<notin> set (contC (cmds ?cm))" by (simp add: c commands_of_def)
  have l: "length (contC (cmds ?cm)) < Suc (q_size C (cmds ?cm))" by (simp add: fifo_size [OF assms(1)])
  have "\<exists>cm'. read_cmd_loop C Q cf (Suc (q_size C (cmds ?cm))) ?cm s = Inr (cm', s',
      if False \<or> (\<exists>c \<in> set (commands_of text). hd c = ''exit'') then Loop_Returns else Loop_Waits)"
    using read_cmd_loop_runs [OF assms(1) l n, of Q cf s, unfolded c assms(3) sum.case] by blast
  then show ?thesis by (simp add: run_read_cmd_def del: read_cmd_loop.simps)
qed

text \<open>C39: In the mode \<^verbatim>\<open>file\<close> the router never ends by itself: the object \<^verbatim>\<open>command\<close> asks the configuration for its
  mode before any file has been loaded, so that \<^verbatim>\<open>is_file\<close> is always false, \<^verbatim>\<open>read_file\<close> adds no
  \<^verbatim>\<open>exit\<close>, and after the last command of a file without one the thread waits for ever.\<close>

theorem file_mode_never_ends:
  assumes "fifo C contC" and "fs file = Some text" and "\<forall>c \<in> set (commands_of text). hd c \<noteq> ''exit''"
    and "run (run_cmd Q cf) s (commands_of text) = Inr s'"
  shows "\<exists>cm'. run_read_cmd C Q cf (read_file C fs file (global_command C)) s = Inr (cm', s', Loop_Waits)"
proof -
  have t: "takeWhile (\<lambda>c. hd c \<noteq> ''exit'') (commands_of text) = commands_of text"
    using assms(3) by (simp add: takeWhile_eq_all_conv)
  have n: "\<not> (\<exists>c \<in> set (commands_of text). hd c = ''exit'')" using assms(3) by blast
  from file_commands_run [where fs=fs and path="file", OF assms(1,2), unfolded t, OF assms(4)] n show ?thesis by simp
qed

theorem file_mode_never_ends_witness:
  "\<exists>cm' s'. run_read_cmd list_queue list_queue example_nodes
      (read_file list_queue [''f'' \<mapsto> ''foo''] ''f'' (global_command list_queue)) (example_net new_sock []) =
    Inr (cm', s', Loop_Waits)"
proof -
  have t: "commands_of ''foo'' = [[''foo'']]" by (simp add: commands_of_def tokenize_def)
  have "run (run_cmd list_queue example_nodes) (example_net new_sock []) (commands_of ''foo'') =
      Inr (example_net new_sock [])"
    by (simp add: t run_cmd_def get_cmd_def)
  from file_mode_never_ends [OF fifo_list_queue, of "[''f'' \<mapsto> ''foo'']" "''f''" "''foo''", OF _ _ this] show ?thesis
    by (simp add: t) blast
qed

end
