(* ===== verification/Net_Run.thy ===== *)
theory Net_Run
  imports Net_Operator
begin

text \<open>
  The router as a whole: the events of \<^verbatim>\<open>run_epoll\<close> (\<^verbatim>\<open>tproxy/TcpNetwork.cpp\<close>), interleaved with the
  operator's commands of the other thread and with what the network does. A step of the machine is one
  event of \<^verbatim>\<open>epoll_wait\<close>, one command, or a change of a socket by the kernel; the handlers are taken as
  atomic, although the code uses no lock between its two threads. The invariant of \<open>Net_State\<close> holds in
  every reachable state.
\<close>

section \<open>\<^verbatim>\<open>run_epoll\<close>\<close>

definition check_connection_is_active :: "fd \<Rightarrow> 'q net \<Rightarrow> bool" where
  "check_connection_is_active fd s =
     (case k_peek fd 1 s of (r, again, _) \<Rightarrow> \<not> (r = 0 \<or> (r = - 1 \<and> \<not> again)))"

definition close_client :: "fd \<Rightarrow> sockaddr_in \<Rightarrow> 'q net \<Rightarrow> 'q net" where
  "close_client fd a s =
     (let s1 = k_close fd s;
          s2 = s1\<lparr>client_to_fd := om_erase (client_to_fd s1) (key_of a)\<rparr>
      in s2\<lparr>fd_to_client := (fd_to_client s2)(fd := None)\<rparr>)"

definition handle_event :: "('q, msg) queue_ops \<Rightarrow> config \<Rightarrow> fd \<Rightarrow> 'q net \<Rightarrow> fd \<times> world \<Rightarrow> 'q net result" where
  "handle_event Q c listen_fd s ev = (case ev of (fd, w) \<Rightarrow>
     if fd = listen_fd then on_listen c w listen_fd s
     else case fd_to_client s fd of
            Some a \<Rightarrow> Inr (if check_connection_is_active fd s then s else close_client fd a s)
          | None \<Rightarrow> do_receive Q fd s)"

definition max_events :: nat where "max_events = 10"

datatype epoll_answer = Ep_Events "(fd \<times> world) list" | Ep_Interrupted | Ep_Failed

definition epoll_round :: "('q, msg) queue_ops \<Rightarrow> config \<Rightarrow> fd \<Rightarrow> 'q net \<Rightarrow> epoll_answer \<Rightarrow> 'q net result" where
  "epoll_round Q c listen_fd s r =
     (case r of
        Ep_Events evs \<Rightarrow> run (handle_event Q c listen_fd) s (take max_events evs)
      | Ep_Interrupted \<Rightarrow> Inr s
      | Ep_Failed \<Rightarrow> Inl (Uncaught (System_Error ''epoll_wait'')))"

text \<open>\<^verbatim>\<open>run_epoll\<close> never returns; this is its state after the given answers of \<^verbatim>\<open>epoll_wait\<close>.\<close>

definition run_epoll :: "('q, msg) queue_ops \<Rightarrow> config \<Rightarrow> fd \<Rightarrow> 'q net \<Rightarrow> epoll_answer list \<Rightarrow> 'q net result" where
  "run_epoll Q c listen_fd = run (epoll_round Q c listen_fd)"

section \<open>The machine\<close>

datatype action =
    Act_Event fd world
  | Act_Command cmd
  | Act_Arrive fd "u8 list" rx_end
  | Act_Writes fd "write_outcome list"

definition router_act :: "('q, msg) queue_ops \<Rightarrow> config \<Rightarrow> fd \<Rightarrow> 'q net \<Rightarrow> action \<Rightarrow> 'q net result" where
  "router_act Q c listen_fd s a =
     (case a of
        Act_Event fd w \<Rightarrow> handle_event Q c listen_fd s (fd, w)
      | Act_Command cm \<Rightarrow> run_cmd Q c s cm
      | Act_Arrive fd bs e \<Rightarrow>
          Inr (s\<lparr>sockets := (sockets s)(fd := map_option (\<lambda>k. k\<lparr>rx := rx k @ bs, rx_then := e\<rparr>) (sockets s fd))\<rparr>)
      | Act_Writes fd p \<Rightarrow>
          Inr (s\<lparr>sockets := (sockets s)(fd := map_option (\<lambda>k. k\<lparr>plan := p\<rparr>) (sockets s fd))\<rparr>))"

text \<open>What can happen: new descriptors are new, commands have words, nothing arrives behind the end.\<close>

definition possible :: "'q net \<Rightarrow> action \<Rightarrow> bool" where
  "possible s a \<longleftrightarrow>
     (case a of
        Act_Event fd w \<Rightarrow> fresh_fds w s
      | Act_Command cm \<Rightarrow> cm \<noteq> []
      | Act_Arrive fd bs e \<Rightarrow> (\<exists>k. sockets s fd = Some k \<and> rx_then k = Rx_Open)
      | Act_Writes fd p \<Rightarrow> True)"

inductive router_step :: "('q, msg) queue_ops \<Rightarrow> config \<Rightarrow> fd \<Rightarrow> 'q net \<Rightarrow> 'q net \<Rightarrow> bool"
  for Q c listen_fd where
  step: "possible s a \<Longrightarrow> router_act Q c listen_fd s a = Inr s' \<Longrightarrow> router_step Q c listen_fd s s'"

inductive_cases router_stepE: "router_step Q c listen_fd s s'"

inductive reachable :: "('q, msg) queue_ops \<Rightarrow> config \<Rightarrow> fd \<Rightarrow> 'q net \<Rightarrow> bool" for Q c listen_fd where
  start: "tcp_network c w epoll_ok listen_fd = Inr s \<Longrightarrow> reachable Q c listen_fd s"
| more: "reachable Q c listen_fd s \<Longrightarrow> router_step Q c listen_fd s s' \<Longrightarrow> reachable Q c listen_fd s'"

text \<open>The same as a machine over lists of actions: what is not possible does not happen.\<close>

definition router_machine :: "('q, msg) queue_ops \<Rightarrow> config \<Rightarrow> fd \<Rightarrow> 'q net \<Rightarrow> action \<Rightarrow> 'q net result" where
  "router_machine Q c listen_fd s a = (if possible s a then router_act Q c listen_fd s a else Inr s)"

section \<open>Lemmas\<close>

definition router_inv :: "('q, msg) queue_ops \<Rightarrow> ('q \<Rightarrow> msg list) \<Rightarrow> 'q net \<Rightarrow> bool" where
  "router_inv Q cont s \<longleftrightarrow> fifo Q cont \<and> wf_net s \<and> msgs_ok cont s"

lemma close_client_outcome:
  assumes "wf_net s" and "fd_to_client s fd = Some a"
  shows "wf_net (close_client fd a s) \<and> network (close_client fd a s) = network s \<and>
    cells (close_client fd a s) = cells s \<and> next_cell (close_client fd a s) = next_cell s"
proof -
  have "close_client fd a s = (k_close fd s)\<lparr>fd_to_client := (fd_to_client s)(fd := None),
      client_to_fd := om_erase (client_to_fd s) (key_of a)\<rparr>"
    by (simp add: close_client_def net_simps)
  then show ?thesis using wf_drop_client [OF assms] by (simp add: net_simps)
qed

lemma handle_event_keeps:
  assumes "router_inv Q cont s" and "fresh_fds w s" and "handle_event Q c l s (fd, w) = Inr s'"
  shows "wf_net s' \<and> msgs_ok cont s' \<and> cells_mono s s'"
proof -
  have i: "fifo Q cont" "wf_net s" "msgs_ok cont s" using assms(1) by (simp_all add: router_inv_def)
  consider "fd = l" | a where "fd \<noteq> l" "fd_to_client s fd = Some a" | "fd \<noteq> l" "fd_to_client s fd = None"
    by (cases "fd_to_client s fd") auto
  then show ?thesis
  proof cases
    case 1
    then have "on_listen c w l s = Inr s'" using assms(3) by (simp add: handle_event_def)
    from on_listen_outcome [OF i(2) assms(2) this] show ?thesis
      using i(3) by (fastforce simp: cells_mono_def msgs_ok_def)
  next
    case (2 a)
    then have "s' = (if check_connection_is_active fd s then s else close_client fd a s)"
      using assms(3) by (simp add: handle_event_def)
    then show ?thesis using i close_client_outcome [OF i(2) 2(2)] msgs_ok_same [OF i(3)]
      by (auto simp: cells_mono_same)
  next
    case 3
    then have d: "do_receive Q fd s = Inr s'" using assms(3) by (simp add: handle_event_def)
    show ?thesis
    proof (cases "status_of s fd")
      case None
      then have "s' = close_result fd False True s"
        using d close_connection_eq [OF i(2)] by (simp add: do_receive_def)
      then show ?thesis
        using close_result_wf [OF i(2) 3(2)] close_result_mono msgs_ok_same [OF i(3)] by (simp add: net_simps)
    next
      case (Some cf)
      then have "receiving cont fd s" using i 3(2) by (simp add: receiving_def live_or_closed_def)
      from do_receive_sound [OF i(1) this] d show ?thesis by (simp add: sound_def keeps_def receiving_def)
    qed
  qed
qed

lemma router_act_keeps:
  assumes "router_inv Q cont s" and "possible s a" and "router_act Q c l s a = Inr s'"
  shows "router_inv Q cont s' \<and> cells_mono s s'"
proof -
  have i: "fifo Q cont" "wf_net s" "msgs_ok cont s" using assms(1) by (simp_all add: router_inv_def)
  have k: "router_inv Q cont (s\<lparr>sockets := (sockets s)(fd := map_option f (sockets s fd))\<rparr>) \<and>
      cells_mono s (s\<lparr>sockets := (sockets s)(fd := map_option f (sockets s fd))\<rparr>)" for fd f
  proof -
    let ?t = "s\<lparr>sockets := (sockets s)(fd := map_option f (sockets s fd))\<rparr>"
    have "same_but_sockets s ?t" by (simp add: same_but_sockets_def)
    then show ?thesis
      using same_but_sockets_wf i by (simp add: router_inv_def msgs_ok_def cells_mono_same)
  qed
  show ?thesis
  proof (cases a)
    case (Act_Event fd w)
    then show ?thesis
      using handle_event_keeps [OF assms(1)] assms(2,3) i(1) by (simp add: router_act_def possible_def router_inv_def)
  next
    case (Act_Command cm)
    then show ?thesis
      using run_cmd_sound [OF i, of cm c] assms(2,3) i(1)
      by (simp add: router_act_def possible_def router_inv_def command_sound_def)
  qed (use assms(3) k in \<open>auto simp: router_act_def\<close>)
qed

lemma router_step_keeps:
  "router_inv Q cont s \<Longrightarrow> router_step Q c l s s' \<Longrightarrow> router_inv Q cont s' \<and> cells_mono s s'"
  by (erule router_stepE) (rule router_act_keeps)

interpretation router: safe_machine "router_machine Q c l" "router_inv Q cont"
  by unfold_locales (use router_act_keeps in \<open>fastforce simp: router_machine_def split: if_splits\<close>)

interpretation dead_cell: safe_machine "router_machine Q c l"
    "\<lambda>s. router_inv Q cont s \<and> k < next_cell s \<and> cells s k = - 1"
proof unfold_locales
  fix s a s'
  assume i: "router_inv Q cont s \<and> k < next_cell s \<and> cells s k = - 1" and r: "router_machine Q c l s a = Inr s'"
  then have "router_inv Q cont s' \<and> cells_mono s s'"
    using router_act_keeps [of Q cont s a c l s'] by (auto simp: router_machine_def split: if_splits)
  then show "router_inv Q cont s' \<and> k < next_cell s' \<and> cells s' k = - 1"
    using i by (auto simp: cells_mono_def)
qed

lemma tcp_network_start:
  assumes "tcp_network c w epoll_ok l = Inr s"
  shows "wf_net s" "msgs_ok cont s"
proof -
  have s: "chan_status s = []" "next_cell s = 0" "network s = Map.empty" "client_to_fd s = []"
    "fd_to_client s = Map.empty" "unintercepted s = {}"
    using assms by (auto simp: tcp_network_def add_monitor_fd_def split: if_splits)
  have "status_of s g = None" for g by (simp add: status_of_def s)
  then show "wf_net s" by (simp add: wf_net_def clients_ok_def s)
  show "msgs_ok cont s" by (simp add: msgs_ok_def s)
qed

section \<open>Properties\<close>

text \<open>C7: In every state that the router can reach from its start, by any interleaving of events, commands and
  network traffic, the maps are consistent: every entry has an open descriptor of its own, the two
  ends of a connection point at each other with opposite channels, every shared cell holds -1 or the
  descriptor of the entry that owns it, and the buffered messages hold allocated cells.\<close>

theorem reachable_states_ok:
  assumes "fifo Q cont" and "reachable Q c listen_fd s"
  shows "wf_net s \<and> msgs_ok cont s"
  using assms(2)
proof (induction rule: reachable.induct)
  case (start w epoll_ok s)
  then show ?case using tcp_network_start by blast
next
  case (more s s')
  then show ?case using router_step_keeps [of Q cont s c listen_fd s'] assms(1) by (simp add: router_inv_def)
qed

theorem reachable_states_ok_witness:
  "\<exists>s. tcp_network init_config (example_world\<lparr>w_epoll_add := (\<lambda>_. True)\<rparr>) True 3 = Inr s \<and> wf_net s \<and> msgs_ok id s"
proof -
  let ?w = "example_world\<lparr>w_epoll_add := (\<lambda>_. True)\<rparr>"
  obtain s :: "msg list net" where s: "tcp_network init_config ?w True 3 = Inr s" by (simp add: tcp_network_def add_monitor_fd_def)
  from reachable_states_ok [OF fifo_list_queue reachable.start [OF s]] s show ?thesis by blast
qed

text \<open>C6: A message whose connection has been closed is never delivered: once its cell is dead, then after
  any further sequence of events, commands and traffic, whatever descriptors are opened and reused,
  handing the message to \<^verbatim>\<open>deliver_msg\<close> sends nothing and changes nothing.\<close>

theorem closed_messages_stay_dead:
  assumes "fifo Q cont" and "wf_net s" and "msgs_ok cont s"
    and "m_fd m < next_cell s" and "cells s (m_fd m) = - 1"
    and "run (router_machine Q c listen_fd) s actions = Inr s'"
  shows "deliver_to_fd m s' = Inr s'"
proof -
  have "router_inv Q cont s' \<and> m_fd m < next_cell s' \<and> cells s' (m_fd m) = - 1"
    by (rule dead_cell.run_inv [OF _ assms(6)]) (use assms(1-5) in \<open>simp add: router_inv_def\<close>)
  then show ?thesis using status_minus [of s'] by (simp add: deliver_to_fd_def router_inv_def)
qed

text \<open>The connection of the example is closed, and a new one gets the descriptor 6.\<close>

definition reuse_world :: world where
  "reuse_world = example_world\<lparr>w_accept := Some (6, \<lparr>sin_family = AF_INET, sin_port = 80, s_addr = 1\<rparr>),
     w_sockname := [6 \<mapsto> \<lparr>sin_family = AF_INET, sin_port = 9, s_addr = 2\<rparr>]\<rparr>"

theorem closed_messages_stay_dead_witness:
  "\<exists>s'. run (router_machine list_queue init_config 3) (close_result 6 False True (example_net new_sock []))
      [Act_Event 3 reuse_world] = Inr s' \<and> status_of s' 6 \<noteq> None \<and>
    deliver_to_fd \<lparr>m_fd = 1, m_size = 1, m_content = frame [9]\<rparr> s' = Inr s'"
proof -
  let ?s = "example_net new_sock []" and ?m = "\<lparr>m_fd = 1, m_size = 1, m_content = frame [9]\<rparr>"
  define t where "t = close_result 6 False True ?s"
  note c = close_result_closed [OF example_wf example_status(2), of new_sock "[]", folded t_def]
  have t: "wf_net t" unfolding t_def by (rule close_result_keeps_wf [OF example_wf example_status(2)])
  have m: "msgs_ok id t" unfolding t_def
    by (rule msgs_ok_same [OF example_msgs_ok [of "[]" new_sock]]) (simp_all add: net_simps)
  have d: "m_fd ?m < next_cell t" "cells t (m_fd ?m) = - 1"
    using c(2) by (simp_all add: t_def net_simps) (simp add: example_net_def)
  have "sockets t 6 = None" "sockets t 8 = None" using c(3) by (simp_all add: example_net_def)
  then have fr: "fresh_fds reuse_world t" by (simp add: fresh_fds_def reuse_world_def example_world_def)
  have w: "w_accept reuse_world = Some (6, \<lparr>sin_family = AF_INET, sin_port = 80, s_addr = 1\<rparr>)"
    "w_sockname reuse_world 6 = Some \<lparr>sin_family = AF_INET, sin_port = 9, s_addr = 2\<rparr>"
    "w_socket reuse_world = Some 8" "w_setsockopt reuse_world n 8" "w_bind reuse_world 8 a"
    "w_connect reuse_world 8 a" "w_epoll_add reuse_world g" for n a g
    by (simp_all add: reuse_world_def example_world_def)
  obtain s' where s': "on_listen init_config reuse_world 3 t = Inr s'" "status_of s' 6 \<noteq> None"
    using on_listen_pair [OF t fr, of 3, OF _ w(1,2) example_world_ok(3) example_masquerade w(3-6) w(7) w(7)] by auto
  then have r: "run (router_machine list_queue init_config 3) t [Act_Event 3 reuse_world] = Inr s'"
    using fr by (simp add: router_machine_def possible_def router_act_def handle_event_def)
  from closed_messages_stay_dead [OF fifo_list_queue t m d r] r s'(2) show ?thesis unfolding t_def by blast
qed

text \<open>C19: In the modes with a queue, no event on a connection can fault: only the listening descriptor can end the
  router with an exception. The state stays consistent.\<close>

theorem events_never_fault:
  assumes "fifo Q cont" and "wf_net s" and "msgs_ok cont s" and "\<not> is_direct s" and "fd \<noteq> listen_fd"
    and "fresh_fds w s"
  shows "\<exists>s'. handle_event Q c listen_fd s (fd, w) = Inr s' \<and> wf_net s' \<and> msgs_ok cont s'"
proof -
  have i: "router_inv Q cont s" using assms by (simp add: router_inv_def)
  have "\<exists>s'. handle_event Q c listen_fd s (fd, w) = Inr s'"
  proof (cases "fd_to_client s fd")
    case (Some a)
    then show ?thesis using assms(5) by (simp add: handle_event_def)
  next
    case None
    then have e: "handle_event Q c listen_fd s (fd, w) = do_receive Q fd s"
      using assms(5) by (simp add: handle_event_def)
    show ?thesis
    proof (cases "status_of s fd")
      case n: None
      then show ?thesis unfolding e using close_connection_eq [OF assms(2)] by (simp add: do_receive_def)
    next
      case (Some cf)
      then have "receiving cont fd s" using assms None by (simp add: receiving_def live_or_closed_def)
      from do_receive_sound [OF assms(1) this] show ?thesis
        unfolding e using assms(4) by (cases "do_receive Q fd s") (auto simp: sound_def)
    qed
  qed
  then show ?thesis using handle_event_keeps [OF i assms(6)] by blast
qed

theorem events_never_fault_witness:
  "\<exists>s'. handle_event list_queue init_config 3 (example_net (new_sock\<lparr>rx := [0, 1, 2, 3, 4, 5, 6, 7, 8]\<rparr>) []) (6, example_world) =
    Inr s' \<and> wf_net s'"
proof -
  let ?s = "example_net (new_sock\<lparr>rx := [0, 1, 2, 3, 4, 5, 6, 7, 8]\<rparr>) []"
  have "\<not> is_direct ?s" by (simp add: example_net_def)
  from events_never_fault [OF fifo_list_queue example_wf example_msgs_ok this _ example_fresh, of 6 3] show ?thesis
    by (auto simp: example_net_def)
qed

text \<open>When both ends of a connection report their end in one batch of events, the event of the second one is
  stale: the first closes both descriptors, and the second closes a descriptor that is not open any
  more, or that another thread has got meanwhile.\<close>

theorem stale_event_closes_again:
  assumes "wf_net s" and "status_of s f = Some cs" and "f \<notin> unintercepted s"
    and "status_of s g = Some p" and "peer_of s f = g"
    and "sockets s f = Some k" and "rx k = []" and "rx_then k = Rx_Eof"
    and "listen_fd \<noteq> f" and "listen_fd \<noteq> g"
  shows "\<exists>s'. epoll_round Q c listen_fd s (Ep_Events [(f, w), (g, v)]) = Inr s' \<and>
    bad_closes s' = bad_closes s @ [g]"
proof -
  have pg: "cells s (cs_fd cs) = g" using assms(2,5) by (simp add: peer_of_def)
  define t where "t = close_result f False True s"
  note c1 = close_result_closed [OF assms(1,2), folded t_def, unfolded pg]
  have cl: "fd_to_client s f = None" "fd_to_client s g = None"
    using entry_owned(5) [OF assms(1,2)] entry_owned(5) [OF assms(1,4)] by simp_all
  have "k_peek f header_size s = (0, False, [])" using assms(6-8) by (simp add: k_peek_def)
  then have "receive_loop Q f zero_header s = Inr (s, Stopped 0 False (recv_header [] zero_header))"
    by (rule receive_loop_stops) (simp add: header_size_def)
  then have "do_receive Q f s = Inr t"
    using assms(2,3) close_connection_eq [OF assms(1)] by (simp add: do_receive_def t_def)
  then have e1: "handle_event Q c listen_fd s (f, w) = Inr t"
    using assms(9) cl(1) by (simp add: handle_event_def)
  have "fd_to_client t g = None" using cl(2) by (simp add: t_def net_simps)
  then have e2: "handle_event Q c listen_fd t (g, v) = Inr (t\<lparr>bad_closes := bad_closes t @ [g]\<rparr>)"
    using assms(4,10) c1(1) [of g] c1(3) [of g]
    by (simp add: handle_event_def do_receive_def close_connection_def k_close_def)
  have "epoll_round Q c listen_fd s (Ep_Events [(f, w), (g, v)]) = Inr (t\<lparr>bad_closes := bad_closes t @ [g]\<rparr>)"
    using e1 e2 by (simp add: epoll_round_def max_events_def)
  then show ?thesis using c1(4) by simp
qed

theorem stale_event_closes_again_witness:
  "\<exists>s'. epoll_round list_queue init_config 3 (example_net (new_sock\<lparr>rx_then := Rx_Eof\<rparr>) [])
      (Ep_Events [(6, example_world), (5, example_world)]) = Inr s' \<and> bad_closes s' = [5]"
proof -
  let ?k = "new_sock\<lparr>rx_then := Rx_Eof\<rparr>"
  have "6 \<notin> unintercepted (example_net ?k [])" "sockets (example_net ?k []) 6 = Some ?k"
    "bad_closes (example_net ?k []) = []"
    by (simp_all add: example_net_def)
  then show ?thesis
    using stale_event_closes_again [OF example_wf example_status(2), of ?k "[]" 5 _ ?k 3 list_queue init_config
      example_world example_world] example_status(1) [of ?k "[]"] example_peers(2) [of ?k "[]"]
    by (simp add: new_sock_def)
qed

text \<open>C38: When a client connects to the router again before the end of its old connection is noticed, the router
  loses the new one: closing the old descriptor erases the entry of the address, which stands for the new
  descriptor by then, so that commands for the node are refused although its connection is open.\<close>

theorem reconnect_is_forgotten:
  assumes "wf_net s" and "fd_to_client s old = Some a" and "om_find (client_to_fd s) (key_of a) = Some new"
    and "new \<noteq> old" and "old \<noteq> listen_fd" and "\<not> check_connection_is_active old s"
    and "key_of (get_node_addr c node) = key_of a"
  shows "\<exists>s'. handle_event Q c listen_fd s (old, w) = Inr s' \<and> fd_to_client s' new = fd_to_client s new \<and>
    sockets s' new \<noteq> None \<and> fd_to_client s' new \<noteq> None \<and> send_cmd c node l s' = s'"
proof -
  let ?t = "close_client old a s"
  have e: "handle_event Q c listen_fd s (old, w) = Inr ?t"
    using assms(2,5,6) by (simp add: handle_event_def)
  have c: "fd_to_client s new \<noteq> None" "sockets s new \<noteq> None"
    using wf_netD(5) [OF assms(1)] assms(3) unfolding clients_ok_def by blast+
  have "om_find (client_to_fd ?t) (key_of a) = None"
    by (simp add: close_client_def net_simps om_find_erase)
  then have "send_cmd c node l ?t = ?t" using assms(7) by (simp add: send_cmd_def Let_def)
  then show ?thesis using e c assms(4) by (intro exI [of _ ?t]) (simp add: close_client_def net_simps)
qed

definition example_clients :: "msg list net" where
  "example_clients = (example_net new_sock [])\<lparr>
     sockets := [5 \<mapsto> new_sock, 6 \<mapsto> new_sock, 7 \<mapsto> new_sock\<lparr>rx_then := Rx_Eof\<rparr>, 8 \<mapsto> new_sock],
     fd_to_client := [7 \<mapsto> example_node, 8 \<mapsto> example_node], client_to_fd := [(key_of example_node, 8)]\<rparr>"

lemma example_clients_wf: "wf_net example_clients"
proof -
  let ?n = "example_net new_sock []"
  have w0: "wf_net (k_open 8 (k_open 7 ?n))" by (intro wf_k_open example_wf)
  have "wf_net (add_client 7 example_node (k_open 8 (k_open 7 ?n)))"
  proof (rule wf_add_client [OF w0])
    show "status_of (k_open 8 (k_open 7 ?n)) 7 = None"
      by (simp add: net_simps) (simp add: status_of_def example_net_def om_find_def)
  qed (simp_all add: net_simps, simp add: example_net_def)
  then have "wf_net (add_client 8 example_node (add_client 7 example_node (k_open 8 (k_open 7 ?n))))"
  proof (rule wf_add_client)
    show "status_of (add_client 7 example_node (k_open 8 (k_open 7 ?n))) 8 = None"
      by (simp add: add_client_def status_of_def net_simps) (simp add: example_net_def om_find_def)
  qed (simp_all add: add_client_def net_simps, simp add: example_net_def)
  moreover have "same_but_sockets (add_client 8 example_node (add_client 7 example_node (k_open 8 (k_open 7 ?n)))) example_clients"
    by (auto simp: same_but_sockets_def example_clients_def add_client_def k_open_def example_net_def)
  ultimately show ?thesis using same_but_sockets_wf by blast
qed

theorem reconnect_is_forgotten_witness:
  "\<exists>s'. handle_event list_queue example_nodes 3 example_clients (7, example_world) = Inr s' \<and>
    fd_to_client s' 8 \<noteq> None \<and> send_cmd example_nodes ''n1'' ''x'' s' = s'"
proof -
  have a: "fd_to_client example_clients 7 = Some example_node"
    "om_find (client_to_fd example_clients) (key_of example_node) = Some 8"
    "\<not> check_connection_is_active 7 example_clients"
    by (simp_all add: example_clients_def om_find_def check_connection_is_active_def k_peek_def new_sock_def)
  show ?thesis
    using reconnect_is_forgotten [OF example_clients_wf a(1,2) _ _ a(3), of 3 example_nodes "''n1''" list_queue
      example_world "''x''"] by auto
qed

end
