(* ===== verification/Redirect.thy ===== *)
theory Redirect
  imports Net_Run
begin

text \<open>
  The mode without a strategy and the start of the program: \<^verbatim>\<open>tproxy/SimpleRedirect.cpp\<close>, which passes one
  request and its response between a client and its peer, and \<^verbatim>\<open>tproxy/main.cpp\<close>. What the two
  connections answer to \<^verbatim>\<open>read\<close> and \<^verbatim>\<open>write\<close> is a \<open>redirect_io\<close>: \<open>None\<close> is a failed read or a time-out,
  \<open>Some []\<close> the end of the stream.
\<close>

section \<open>\<^verbatim>\<open>SimpleRedirect\<close>\<close>

record redirect_io =
  io_request :: "u8 list option"
  io_peer_write :: write_outcome
  io_responses :: "u8 list option list"
  io_client_writes :: "write_outcome list"

record redirected =
  rd_peer_fd :: fd
  rd_to_peer :: "u8 list"
  rd_to_client :: "u8 list"

definition RECV_BUFF :: nat where "RECV_BUFF = 1024"

text \<open>The result of \<^verbatim>\<open>write(fd, buf, n)\<close> and the bytes that went out.\<close>

definition io_write :: "write_outcome \<Rightarrow> u8 list \<Rightarrow> int \<times> u8 list" where
  "io_write w bs =
     (case w of
        W_All \<Rightarrow> (int (length bs), bs)
      | W_Part m \<Rightarrow> (int (min m (length bs)), take m bs)
      | W_Err \<Rightarrow> (- 1, []))"

text \<open>The loop over the response: the last value of \<^verbatim>\<open>num_read\<close>, the variable \<^verbatim>\<open>num_write\<close> (\<open>None\<close> as long as it
  has no value) and the bytes that the client got.\<close>

fun respond ::
  "u8 list option list \<Rightarrow> write_outcome list \<Rightarrow> int option \<Rightarrow> u8 list \<Rightarrow> int \<times> int option \<times> u8 list" where
  "respond [] ws num_write out = (- 1, num_write, out)"
| "respond (None # rs) ws num_write out = (- 1, num_write, out)"
| "respond (Some bs # rs) ws num_write out =
     (let buf = take (RECV_BUFF - 1) bs; num_read = int (length buf) in
      if num_read = 0 then (0, num_write, out)
      else case io_write (case ws of [] \<Rightarrow> W_All | w # _ \<Rightarrow> w) buf of (n, sent) \<Rightarrow>
        if n \<noteq> num_read then (num_read, Some n, out @ sent)
        else respond rs (tl ws) (Some n) (out @ sent))"

definition simple_redirect :: "config \<Rightarrow> world \<Rightarrow> redirect_io \<Rightarrow> accept_data \<Rightarrow> redirected result" where
  "simple_redirect c w io client =
     (let nothing = (\<lambda>fd. \<lparr>rd_peer_fd = fd, rd_to_peer = [], rd_to_client = []\<rparr>) in
      if is_router_addr c (origin_addr client) then Inr (nothing (- 1))
      else case w_socket w of
        None \<Rightarrow> Inr (nothing (- 1))
      | Some fd \<Rightarrow>
          if \<not> w_setsockopt w ''SO_RCVTIMEO'' fd then Inr (nothing fd)
          else if \<not> w_setsockopt w ''SO_RCVTIMEO'' (acc_fd client) then Inr (nothing fd)
          else if \<not> w_connect w fd (masque_addr client) then Inr (nothing fd)
          else
            let request = (case io_request io of None \<Rightarrow> [] | Some bs \<Rightarrow> take (RECV_BUFF - 1) bs);
                to_peer = (if request = [] then [] else snd (io_write (io_peer_write io) request))
            in case respond (io_responses io) (io_client_writes io) None [] of
                 (num_read, None, out) \<Rightarrow> Inl (Undefined Uninit_Read)
               | (num_read, Some n, out) \<Rightarrow> Inr \<lparr>rd_peer_fd = fd, rd_to_peer = to_peer, rd_to_client = out\<rparr>)"

text \<open>The destructor closes a descriptor that is greater than 0.\<close>

definition redirect_closes :: "redirected \<Rightarrow> fd list" where
  "redirect_closes r = (if rd_peer_fd r > 0 then [rd_peer_fd r] else [])"

section \<open>\<^verbatim>\<open>main\<close>\<close>

record options =
  opt_help :: bool
  opt_verbose :: bool
  opt_detail :: bool
  opt_config :: string
  opt_bind :: int
  opt_argc :: nat      \<comment> \<open>what \<^verbatim>\<open>ParseCommandLineNonHelpFlags\<close> leaves of \<^verbatim>\<open>argc\<close>\<close>

definition shown_verbose :: "options \<Rightarrow> bool" where
  "shown_verbose p = (opt_verbose p \<or> opt_detail p)"

definition colour :: "bool \<Rightarrow> string \<Rightarrow> string \<Rightarrow> string" where
  "colour is_tty code s = (if is_tty then [CHR 0x1B] @ code @ s @ [CHR 0x1B] @ ''[0m'' else s)"

definition info_str :: "bool \<Rightarrow> string" where "info_str is_tty = colour is_tty ''[1;32m'' ''[INFO] ''"
definition warn_str :: "bool \<Rightarrow> string" where "warn_str is_tty = colour is_tty ''[1;31m'' ''[WARN] ''"
definition detail_str :: "bool \<Rightarrow> string" where "detail_str is_tty = colour is_tty ''[1;34m'' ''[DETL] ''"

text \<open>One turn of the loop of the mode without a strategy: the client's descriptor is closed first, the destructor
  runs at the end of the block.\<close>

definition redirect_round :: "config \<Rightarrow> fd \<Rightarrow> 'q net \<Rightarrow> world \<times> redirect_io \<Rightarrow> 'q net result" where
  "redirect_round c listen_fd s p = (case p of (w, io) \<Rightarrow>
     and_then (tcp_accept c w listen_fd (- 1) s) (\<lambda>(client, s1).
       and_then (simple_redirect c w io client) (\<lambda>r.
         let s2 = (if rd_peer_fd r = - 1 then s1 else k_open (rd_peer_fd r) s1);
             s3 = k_close (acc_fd client) s2
         in Inr (foldl (\<lambda>t fd. k_close fd t) s3 (redirect_closes r)))))"

datatype ('c, 'q) program =
    Exit_With nat
  | Redirects fd config
  | Runs_Epoll fd config "'q net"
  | Runs_File fd config "'q net" "'c command"
  | Runs_Prompt fd config "'q net" "'c command"

definition main ::
  "('c, cmd) queue_ops \<Rightarrow> options \<Rightarrow> world \<Rightarrow> (string \<Rightarrow> string option) \<Rightarrow> bool \<Rightarrow> ('c, 'q) program result" where
  "main C p w fs epoll_ok =
     (if opt_help p \<or> opt_argc p \<noteq> 1 then Inr (Exit_With 1)
      else and_then (tcp_socket w (opt_bind p)) (\<lambda>(fd, _).
        and_then (load init_config (opt_config p) (fs (opt_config p))) (\<lambda>c.
          if strategy c = Strategy_Not_Set then Inr (Redirects fd c)
          else and_then (tcp_network c w epoll_ok fd) (\<lambda>s.
            case strategy c of
              Strategy_Direct \<Rightarrow> Inr (Runs_Epoll fd c s)
            | Strategy_File \<Rightarrow> Inr (Runs_File fd c s (read_file C fs (cmd_file c) (global_command C)))
            | Strategy_Cmd \<Rightarrow> Inr (Runs_Prompt fd c s (global_command C))
            | _ \<Rightarrow> Inl Assert_Failed))))"

section \<open>Lemmas\<close>

lemma respond_whole:
  "\<forall>b \<in> set bs. b \<noteq> [] \<and> length b < RECV_BUFF \<Longrightarrow> r = Some [] \<or> r = None \<Longrightarrow>
    respond (map Some bs @ [r]) [] nw out =
      (if r = None then - 1 else 0,
       if bs = [] then nw else Some (int (length (last bs))), out @ concat bs)"
  by (induction bs arbitrary: nw out) (auto simp: io_write_def RECV_BUFF_def Let_def)

section \<open>Properties\<close>

text \<open>Without a strategy the program passes one request of at most 1023 bytes and the whole response: when every
  write takes all of its bytes and at least one part of a response comes, the client gets exactly
  the parts in order.\<close>

theorem redirect_passes_response:
  assumes "\<not> is_router_addr c (origin_addr client)" and "w_socket w = Some fd"
    and "w_setsockopt w ''SO_RCVTIMEO'' fd" and "w_setsockopt w ''SO_RCVTIMEO'' (acc_fd client)"
    and "w_connect w fd (masque_addr client)"
    and "request \<noteq> []" and "length request < RECV_BUFF"
    and "bs \<noteq> []" and "\<forall>b \<in> set bs. b \<noteq> [] \<and> length b < RECV_BUFF"
  shows "simple_redirect c w \<lparr>io_request = Some request, io_peer_write = W_All,
      io_responses = map Some bs @ [Some []], io_client_writes = []\<rparr> client =
    Inr \<lparr>rd_peer_fd = fd, rd_to_peer = request, rd_to_client = concat bs\<rparr>"
proof -
  have "respond (map Some bs @ [Some []]) [] None [] = (0, Some (int (length (last bs))), concat bs)"
    using respond_whole [OF assms(9), of "Some []" None "[]"] assms(8) by simp
  then show ?thesis
    using assms(1-7) by (simp add: simple_redirect_def Let_def io_write_def RECV_BUFF_def)
qed

definition example_client :: accept_data where
  "example_client = \<lparr>acc_fd = 7, client_addr = zero_addr, origin_addr = \<lparr>sin_family = AF_INET, sin_port = 9, s_addr = 2\<rparr>,
     masque_addr = zero_addr\<rparr>"

theorem redirect_passes_response_witness:
  "simple_redirect init_config example_world \<lparr>io_request = Some [1, 2], io_peer_write = W_All,
      io_responses = [Some [3], Some [4, 5], Some []], io_client_writes = []\<rparr> example_client =
    Inr \<lparr>rd_peer_fd = 8, rd_to_peer = [1, 2], rd_to_client = [3, 4, 5]\<rparr>"
proof -
  have e: "\<not> is_router_addr init_config (origin_addr example_client)" "w_socket example_world = Some 8"
    "w_setsockopt example_world o1 x" "w_connect example_world x a" for o1 x a
    by (simp_all add: example_client_def is_router_addr_def init_config_def zero_addr_def cmp_addr_equal_def
        example_world_def)
  show ?thesis
    using redirect_passes_response [OF e(1,2) e(3) e(3) e(4), of "[1, 2]" "[[3], [4, 5]]"]
    by (simp add: RECV_BUFF_def)
qed

text \<open>When the peer closes or times out without a response, the constructor tests a variable that was never
  written.\<close>

theorem silent_peer_reads_uninitialised:
  assumes "\<not> is_router_addr c (origin_addr client)" and "w_socket w = Some fd"
    and "w_setsockopt w ''SO_RCVTIMEO'' fd" and "w_setsockopt w ''SO_RCVTIMEO'' (acc_fd client)"
    and "w_connect w fd (masque_addr client)" and "io_responses io = r # rs" and "r = None \<or> r = Some []"
  shows "simple_redirect c w io client = Inl (Undefined Uninit_Read)"
  using assms by (auto simp: simple_redirect_def Let_def)

theorem silent_peer_reads_uninitialised_witness:
  "simple_redirect init_config example_world \<lparr>io_request = Some [1], io_peer_write = W_All,
      io_responses = [None], io_client_writes = []\<rparr> example_client = Inl (Undefined Uninit_Read)"
proof -
  have e: "\<not> is_router_addr init_config (origin_addr example_client)" "w_socket example_world = Some 8"
    "w_setsockopt example_world o1 x" "w_connect example_world x a" for o1 x a
    by (simp_all add: example_client_def is_router_addr_def init_config_def zero_addr_def cmp_addr_equal_def
        example_world_def)
  show ?thesis
    using silent_peer_reads_uninitialised [OF e(1,2) e(3) e(3) e(4), where r=None and rs="[]"] by simp
qed

lemma simple_redirect_peer:
  "simple_redirect c w io client = Inr r \<Longrightarrow> rd_peer_fd r = - 1 \<or> w_socket w = Some (rd_peer_fd r)"
  by (cases "respond (io_responses io) (io_client_writes io) None []")
    (auto simp: simple_redirect_def Let_def split: if_splits option.splits)

text \<open>A round of the loop that ends leaves no descriptor behind, unless the kernel gives the peer's connection the
  number 0, which the destructor takes for none.\<close>

theorem redirect_round_closes:
  assumes "fresh_fds w s" and "w_socket w \<noteq> Some 0" and "redirect_round c l s (w, io) = Inr s'"
  shows "sockets s' = sockets s \<and> chan_status s' = chan_status s"
proof -
  obtain client s1 r where a: "tcp_accept c w l (- 1) s = Inr (client, s1)" "simple_redirect c w io client = Inr r"
    "s' = foldl (\<lambda>t fd. k_close fd t) (k_close (acc_fd client) (if rd_peer_fd r = - 1 then s1 else k_open (rd_peer_fd r) s1))
      (redirect_closes r)"
    using assms(3) by (auto simp: redirect_round_def Let_def result_simps)
  have s1: "s1 = k_open (acc_fd client) s" "sockets s (acc_fd client) = None"
    using a(1) assms(1) by (auto simp: tcp_accept_def accept_client_def result_simps fresh_fds_def split: option.splits if_splits)
  have "rd_peer_fd r = - 1 \<or> 0 < rd_peer_fd r \<and> sockets s (rd_peer_fd r) = None"
    using simple_redirect_peer [OF a(2)] assms(1,2) by (auto simp: fresh_fds_def less_le)
  then show ?thesis using s1 a(3) by (auto simp: redirect_closes_def net_simps k_open_def fun_eq_iff)
qed

theorem redirect_round_closes_witness:
  "\<exists>s'. redirect_round init_config 3 (example_net new_sock [])
      (example_world, \<lparr>io_request = Some [1], io_peer_write = W_All, io_responses = [Some [2], Some []], io_client_writes = []\<rparr>) =
    Inr s' \<and> sockets s' = sockets (example_net new_sock [])"
proof -
  let ?io = "\<lparr>io_request = Some [1], io_peer_write = W_All, io_responses = [Some [2], Some []], io_client_writes = []\<rparr>"
  have a: "tcp_accept init_config example_world 3 (- 1) (example_net new_sock []) =
      Inr (example_client\<lparr>client_addr := \<lparr>sin_family = AF_INET, sin_port = 80, s_addr = 1\<rparr>,
        masque_addr := \<lparr>sin_family = AF_INET, sin_port = 9, s_addr = 2\<rparr>\<rparr>, k_open 7 (example_net new_sock []))"
    by (simp add: tcp_accept_def accept_client_def example_world_def example_client_def k_open_def
        get_masquerade_addr_def init_config_def)
  have "\<exists>s'. redirect_round init_config 3 (example_net new_sock []) (example_world, ?io) = Inr s'"
    unfolding redirect_round_def prod.case a and_then.simps
    by (simp add: simple_redirect_def example_world_def example_client_def is_router_addr_def init_config_def zero_addr_def
        cmp_addr_equal_def io_write_def RECV_BUFF_def Let_def)
  then obtain s' where s': "redirect_round init_config 3 (example_net new_sock []) (example_world, ?io) = Inr s'"
    by blast
  have "w_socket example_world \<noteq> Some 0" by (simp add: example_world_def)
  from redirect_round_closes [OF example_fresh this s'] s' show ?thesis by blast
qed

end
