(* ===== verification/Hooks.thy ===== *)
theory Hooks
  imports Concern Registry Wire
begin

text \<open>
  The intercepted socket and file functions of the library: \<^verbatim>\<open>mysendto.c\<close>, \<^verbatim>\<open>mysend.c\<close>, \<^verbatim>\<open>mywrite.c\<close>,
  \<^verbatim>\<open>myaccept.c\<close>, \<^verbatim>\<open>myaccept4.c\<close>, \<^verbatim>\<open>myconnect.c\<close>, \<^verbatim>\<open>myclose.c\<close>, \<^verbatim>\<open>mysocket.c\<close>, \<^verbatim>\<open>myopen.c\<close>, \<^verbatim>\<open>myopenat.c\<close>,
  \<^verbatim>\<open>mysendmsg.c\<close>, \<^verbatim>\<open>mysendfile.c\<close>, \<^verbatim>\<open>myrandom.c\<close> and the counter template of \<^verbatim>\<open>common.h\<close>, for one thread.

  A real function is an argument of the model. The sending ones are one function \<open>real\<close>, which
  answers the \<open>n\<close>-th call with the return value and \<^verbatim>\<open>errno\<close>; the bytes it accepts are appended to
  what the peer of the descriptor will read. The other functions are given by the outcome of the
  call, a return value and \<^verbatim>\<open>errno\<close>. The texts for the log are left out; among them is \<^verbatim>\<open>msg_buf\<close> of \<^verbatim>\<open>sendto\<close>, which only
  builds that log use, and which the default build fills through the pointer that \<^verbatim>\<open>addr_to_str\<close> should not return (\<open>Statistics\<close>).
\<close>

section \<open>State\<close>

definition SYS_write :: nat where "SYS_write = 1"
definition SYS_open :: nat where "SYS_open = 2"
definition SYS_close :: nat where "SYS_close = 3"
definition SYS_sendfile :: nat where "SYS_sendfile = 40"
definition SYS_socket :: nat where "SYS_socket = 41"
definition SYS_connect :: nat where "SYS_connect = 42"
definition SYS_accept :: nat where "SYS_accept = 43"
definition SYS_sendto :: nat where "SYS_sendto = 44"
definition SYS_sendmsg :: nat where "SYS_sendmsg = 46"
definition SYS_openat :: nat where "SYS_openat = 257"
definition SYS_accept4 :: nat where "SYS_accept4 = 288"

definition EINPROGRESS :: int where "EINPROGRESS = 115"

text \<open>\<^verbatim>\<open>lib_send\<close>, \<^verbatim>\<open>lib_random\<close> and \<^verbatim>\<open>lib_realloc\<close> are the variables \<^verbatim>\<open>LIB_send\<close>, \<^verbatim>\<open>LIB_random\<close> and
  \<^verbatim>\<open>LIB_realloc\<close>, set at registration; \<^verbatim>\<open>nr_send_syscall\<close> is thread-local.\<close>

record proc =
  reg :: registry
  con :: concern
  nr_send_syscall :: nat
  lib_send :: nat
  lib_random :: nat
  lib_realloc :: nat
  sent :: "fd \<Rightarrow> u8 list"
  send_calls :: nat

record send_args =
  sa_fd :: fd
  sa_buf :: "u8 list"
  sa_flags :: u32
  sa_dest :: "sockaddr option"
  sa_addrlen :: nat

type_synonym real_send = "nat \<Rightarrow> send_args \<Rightarrow> int \<times> int"

definition call_real :: "real_send \<Rightarrow> send_args \<Rightarrow> proc \<Rightarrow> proc \<times> int" where
  "call_real real a p =
     (case real (send_calls p) a of (ret, e) \<Rightarrow>
       (p\<lparr>sent := (sent p)(sa_fd a := sent p (sa_fd a) @ take (nat ret) (sa_buf a)),
          send_calls := send_calls p + 1,
          reg := (if ret = - 1 then (reg p)\<lparr>errno := e\<rparr> else reg p)\<rparr>, ret))"

section \<open>Sending\<close>

definition hack :: "real_send \<Rightarrow> send_args \<Rightarrow> proc \<Rightarrow> proc \<times> int" where
  "hack real a = call_real real (a\<lparr>sa_buf := hack_bytes (of_nat (length (sa_buf a)))\<rparr>)"

definition sendto :: "real_send \<Rightarrow> send_args \<Rightarrow> proc \<Rightarrow> (proc \<times> int) result" where
  "sendto real a p =
     (if \<not> check_intercept (reg p) SYS_sendto then Inr (call_real real a p)
      else
        let p1 = (if nr_send_syscall p = 0 then p\<lparr>nr_send_syscall := SYS_sendto\<rparr> else p);
            check_res = check_fd_is_concerned_with_addr (con p1) (sa_fd a)
        in and_then
          (if sin_port check_res \<noteq> 0 then Inr True
           else check_addr_is_concerned_with_len (con p1) (sa_dest a) (sa_addrlen a))
          (\<lambda>is_concerned.
            case (if is_concerned then hack real a p1 else (p1, 0)) of (p2, ret0) \<Rightarrow>
            if is_concerned \<and> ret0 = - 1 then Inr (p2, ret0)
            else
              case call_real real a p2 of (p3, ret) \<Rightarrow>
              case begin_intercept (nr_send_syscall p3) (reg p3) of (ok, r) \<Rightarrow>
              if \<not> ok then Inr (p3, ret)
              else
                let nr = nr_send_syscall p3;
                    r1 = (if is_concerned \<and> (nr = SYS_write \<or> nr = lib_send p3 \<or> nr = SYS_sendto)
                          then log_intercepted nr r else r)
                in Inr (p3\<lparr>reg := end_intercept r1, nr_send_syscall := 0\<rparr>, ret)))"

definition send :: "real_send \<Rightarrow> fd \<Rightarrow> u8 list \<Rightarrow> u32 \<Rightarrow> proc \<Rightarrow> (proc \<times> int) result" where
  "send real fd buf flags p =
     sendto real \<lparr>sa_fd = fd, sa_buf = buf, sa_flags = flags, sa_dest = None, sa_addrlen = 0\<rparr>
       (p\<lparr>nr_send_syscall := lib_send p\<rparr>)"

definition my_write :: "real_send \<Rightarrow> fd \<Rightarrow> u8 list \<Rightarrow> proc \<Rightarrow> (proc \<times> int) result" where
  "my_write real fd buf p =
     (let a = \<lparr>sa_fd = fd, sa_buf = buf, sa_flags = 0, sa_dest = None, sa_addrlen = 0\<rparr> in
      if \<not> check_intercept (reg p) SYS_write then Inr (call_real real a p)
      else if check_fd_is_concerned (con p) fd then
        sendto real a (p\<lparr>nr_send_syscall := SYS_write\<rparr>)
      else Inr (call_real real a (p\<lparr>reg := count_intercepted SYS_write (reg p)\<rparr>)))"

section \<open>Connections\<close>

text \<open>The outcome of a real call: the return value and, when it fails, \<^verbatim>\<open>errno\<close>.\<close>

type_synonym outcome = "int \<times> int"

definition after_real :: "outcome \<Rightarrow> proc \<Rightarrow> proc" where
  "after_real o' p = (if fst o' = - 1 then p\<lparr>reg := (reg p)\<lparr>errno := snd o'\<rparr>\<rparr> else p)"

text \<open>\<^verbatim>\<open>BEGIN_INTERCEPT\<close>, a body and \<^verbatim>\<open>END_INTERCEPT\<close> around a real call that has returned \<open>ret\<close>.\<close>

definition intercepted ::
  "nat \<Rightarrow> outcome \<Rightarrow> (proc \<Rightarrow> proc result) \<Rightarrow> proc \<Rightarrow> (proc \<times> int) result" where
  "intercepted nr o' body p =
     (let p1 = after_real o' p in
      case begin_intercept nr (reg p1) of (ok, r) \<Rightarrow>
      if \<not> ok then Inr (p1, fst o')
      else and_then (body (p1\<lparr>reg := r\<rparr>))
        (\<lambda>p2. Inr (p2\<lparr>reg := end_intercept (reg p2)\<rparr>, fst o')))"

text \<open>\<^verbatim>\<open>accept\<close> and \<^verbatim>\<open>accept4\<close>: \<open>addr\<close> is what the real call has stored, \<open>None\<close> for a null pointer, and
  \<open>addrlen\<close> is \<^verbatim>\<open>*addrlen\<close>, \<open>None\<close> for a null pointer.\<close>

definition accept_body ::
  "nat \<Rightarrow> int \<Rightarrow> sockaddr option \<Rightarrow> nat option \<Rightarrow> proc \<Rightarrow> proc result" where
  "accept_body nr ret addr addrlen p =
     (if ret = - 1 then Inr p
      else case addrlen of
        None \<Rightarrow> Inl (Undefined Null_Deref)
      | Some l \<Rightarrow> and_then (check_addr_is_concerned_with_len (con p) addr l) (\<lambda>yes.
          case addr of
            Some a \<Rightarrow> Inr (if yes then p\<lparr>con := add_concerned_fd ret a (con p),
                                       reg := log_intercepted nr (reg p)\<rparr> else p)
          | None \<Rightarrow> Inr p))"

definition accept ::
  "outcome \<Rightarrow> sockaddr option \<Rightarrow> nat option \<Rightarrow> proc \<Rightarrow> (proc \<times> int) result" where
  "accept o' addr addrlen =
     intercepted SYS_accept o' (accept_body SYS_accept (fst o') addr addrlen)"

definition accept4 ::
  "outcome \<Rightarrow> sockaddr option \<Rightarrow> nat option \<Rightarrow> proc \<Rightarrow> (proc \<times> int) result" where
  "accept4 o' addr addrlen =
     intercepted SYS_accept4 o' (accept_body SYS_accept4 (fst o') addr addrlen)"

definition connect_body ::
  "int \<Rightarrow> fd \<Rightarrow> sockaddr option \<Rightarrow> nat \<Rightarrow> proc \<Rightarrow> proc result" where
  "connect_body ret sockfd addr addrlen p =
     (if \<not> (ret \<noteq> - 1 \<or> saved_errno (reg p) = EINPROGRESS) then Inr p
      else and_then (check_addr_is_concerned_with_len (con p) addr addrlen) (\<lambda>yes.
        case addr of
          Some a \<Rightarrow> Inr (if yes then p\<lparr>con := add_concerned_fd sockfd a (con p),
                                     reg := log_intercepted SYS_connect (reg p)\<rparr> else p)
        | None \<Rightarrow> Inr p))"

definition connect ::
  "outcome \<Rightarrow> fd \<Rightarrow> sockaddr option \<Rightarrow> nat \<Rightarrow> proc \<Rightarrow> (proc \<times> int) result" where
  "connect o' sockfd addr addrlen =
     intercepted SYS_connect o' (connect_body (fst o') sockfd addr addrlen)"

definition close_body :: "fd \<Rightarrow> proc \<Rightarrow> proc result" where
  "close_body fd p =
     Inr (if sin_port (check_fd_is_concerned_with_addr (con p) fd) \<noteq> 0
          then p\<lparr>con := rm_concerned_fd fd (con p), reg := log_intercepted SYS_close (reg p)\<rparr>
          else p)"

definition my_close :: "outcome \<Rightarrow> fd \<Rightarrow> proc \<Rightarrow> (proc \<times> int) result" where
  "my_close o' fd = intercepted SYS_close o' (close_body fd)"

definition socket :: "outcome \<Rightarrow> proc \<Rightarrow> (proc \<times> int) result" where
  "socket o' =
     intercepted SYS_socket o' (\<lambda>p. Inr (p\<lparr>reg := log_intercepted SYS_socket (reg p)\<rparr>))"

section \<open>Files and counters\<close>

definition O_CREAT :: u32 where "O_CREAT = 0x40"
definition O_DIRECTORY :: u32 where "O_DIRECTORY = 0x10000"
definition O_TMPFILE :: u32 where "O_TMPFILE = 0x410000"

text \<open>\<^verbatim>\<open>open(pathname, flags, ...)\<close>: \<open>mode\<close> is the third argument, when the caller gives one; the last
  component is what the real \<^verbatim>\<open>open\<close> is called with.\<close>

definition open_mode :: "u32 \<Rightarrow> u32 option \<Rightarrow> u32 option result" where
  "open_mode flags mode =
     (if flags AND (O_CREAT OR O_TMPFILE) \<noteq> 0
      then (case mode of None \<Rightarrow> Inl (Undefined Uninit_Read) | Some m \<Rightarrow> Inr (Some m))
      else Inr None)"

definition my_open ::
  "(u32 \<Rightarrow> u32 option \<Rightarrow> outcome) \<Rightarrow> u32 \<Rightarrow> u32 option \<Rightarrow> proc \<Rightarrow> (proc \<times> int) result" where
  "my_open real_open flags mode p =
     and_then (open_mode flags mode) (\<lambda>m.
       intercepted SYS_open (real_open flags m) Inr p)"

text \<open>\<^verbatim>\<open>MAKE_COUNTER_TEMPLATE\<close>: the count, and then the real call.\<close>

definition counted :: "nat \<Rightarrow> outcome \<Rightarrow> proc \<Rightarrow> proc \<times> int" where
  "counted nr o' p =
     (after_real o' (p\<lparr>reg := snd (check_count_intercepted nr (reg p))\<rparr>), fst o')"

definition openat :: "outcome \<Rightarrow> proc \<Rightarrow> proc \<times> int" where "openat = counted SYS_openat"
definition sendmsg :: "outcome \<Rightarrow> proc \<Rightarrow> proc \<times> int" where "sendmsg = counted SYS_sendmsg"
definition sendfile :: "outcome \<Rightarrow> proc \<Rightarrow> proc \<times> int" where "sendfile = counted SYS_sendfile"

definition realloc :: "outcome \<Rightarrow> proc \<Rightarrow> proc \<times> int" where
  "realloc o' p = counted (lib_realloc p) o' p"

definition my_random :: "int \<Rightarrow> proc \<Rightarrow> proc \<times> int" where
  "my_random real p =
     (case check_count_intercepted (lib_random p) (reg p) of (ok, r) \<Rightarrow>
       if ok then (p\<lparr>reg := log_intercepted (lib_random p) r\<rparr>, 1) else (p\<lparr>reg := r\<rparr>, real))"

section \<open>Histories\<close>

datatype hook_event =
    Accept outcome "sockaddr option" "nat option"
  | Accept4 outcome "sockaddr option" "nat option"
  | Connect outcome fd "sockaddr option" nat
  | Close outcome fd
  | Socket outcome
  | Open "u32 \<Rightarrow> u32 option \<Rightarrow> outcome" u32 "u32 option"
  | Openat outcome
  | Sendmsg outcome
  | Sendfile outcome
  | Realloc outcome
  | Random int
  | Sendto real_send send_args
  | Send real_send fd "u8 list" u32
  | Write real_send fd "u8 list"

fun hook :: "hook_event \<Rightarrow> proc \<Rightarrow> (proc \<times> int) result" where
  "hook (Accept o' addr addrlen) p = accept o' addr addrlen p"
| "hook (Accept4 o' addr addrlen) p = accept4 o' addr addrlen p"
| "hook (Connect o' fd addr addrlen) p = connect o' fd addr addrlen p"
| "hook (Close o' fd) p = my_close o' fd p"
| "hook (Socket o') p = socket o' p"
| "hook (Open real flags mode) p = my_open real flags mode p"
| "hook (Openat o') p = Inr (openat o' p)"
| "hook (Sendmsg o') p = Inr (sendmsg o' p)"
| "hook (Sendfile o') p = Inr (sendfile o' p)"
| "hook (Realloc o') p = Inr (realloc o' p)"
| "hook (Random real) p = Inr (my_random real p)"
| "hook (Sendto real a) p = sendto real a p"
| "hook (Send real fd buf flags) p = send real fd buf flags p"
| "hook (Write real fd buf) p = my_write real fd buf p"

definition hook_step :: "proc \<Rightarrow> hook_event \<Rightarrow> proc result" where
  "hook_step p e = and_then (hook e p) (\<lambda>(p', _). Inr p')"

text \<open>The calls that only observe: the real function's outcome is known beforehand.\<close>

fun observed :: "hook_event \<Rightarrow> outcome option" where
  "observed (Accept o' _ _) = Some o'"
| "observed (Accept4 o' _ _) = Some o'"
| "observed (Connect o' _ _ _) = Some o'"
| "observed (Close o' _) = Some o'"
| "observed (Socket o') = Some o'"
| "observed (Open real flags mode) =
     Some (real flags (if flags AND (O_CREAT OR O_TMPFILE) \<noteq> 0 then mode else None))"
| "observed (Openat o') = Some o'"
| "observed (Sendmsg o') = Some o'"
| "observed (Sendfile o') = Some o'"
| "observed (Realloc o') = Some o'"
| "observed _ = None"

section \<open>Lemmas: the table\<close>

definition counts_ok :: "registry \<Rightarrow> bool" where
  "counts_ok r \<longleftrightarrow> (\<forall>nr. concerned_count (dict r nr) \<le> rf_count (dict r nr))"

definition same_states :: "registry \<Rightarrow> registry \<Rightarrow> bool" where
  "same_states r r' \<longleftrightarrow> (\<forall>nr. rf_state (dict r' nr) = rf_state (dict r nr))"

lemma same_states_intercept: "same_states r r' \<Longrightarrow> check_intercept r' nr = check_intercept r nr"
  by (simp add: same_states_def check_intercept_def)

lemma same_states_trans: "same_states a b \<Longrightarrow> same_states b c \<Longrightarrow> same_states a c"
  by (simp add: same_states_def)

text \<open>One intercepted call, counted and perhaps logged, with any value of \<^verbatim>\<open>errno\<close> behind it.\<close>

inductive table_step :: "registry \<Rightarrow> registry \<Rightarrow> bool" where
  same: "dict r' = dict r \<Longrightarrow> table_step r r'"
| count: "dict r' = dict (count_intercepted nr r) \<Longrightarrow> table_step r r'"
| concern: "dict r' = dict (count_concerned nr (count_intercepted nr r)) \<Longrightarrow> table_step r r'"

lemma table_step_ok:
  "table_step r r' \<Longrightarrow> (counts_ok r \<longrightarrow> counts_ok r') \<and> same_states r r'"
  by (induction rule: table_step.induct)
    (auto simp: counts_ok_def same_states_def count_intercepted_def count_concerned_def le_SucI)

lemma table_step_dict:
  "table_step r r' \<Longrightarrow> dict s = dict r \<Longrightarrow> dict s' = dict r' \<Longrightarrow> table_step s s'"
  by (induction rule: table_step.induct)
    (auto intro: table_step.intros simp: count_intercepted_def count_concerned_def)

lemma begin_dict:
  "begin_intercept nr r = (ok, r') \<Longrightarrow>
     dict r' = (if ok then dict (count_intercepted nr r) else dict r) \<and> ok = check_intercept r nr"
  by (auto simp: begin_intercept_def count_intercepted_def split: if_splits)

lemma log_dict:
  "dict (log_intercepted nr r) = dict r \<or> dict (log_intercepted nr r) = dict (count_concerned nr r)"
  by (simp add: log_intercepted_def)

lemma end_intercept_simps [simp]:
  "dict (end_intercept r) = dict r" "errno (end_intercept r) = saved_errno r"
  by (simp_all add: end_intercept_def)

lemma count_concerned_dict_cong: "dict r = dict s \<Longrightarrow> dict (count_concerned nr r) = dict (count_concerned nr s)"
  by (simp add: count_concerned_def)

lemma log_begun_step:
  assumes "begin_intercept nr r = (ok, r1)" and "r2 = r1 \<or> ok \<and> r2 = log_intercepted nr r1"
  shows "table_step r r2"
proof (cases ok)
  case False
  then show ?thesis using assms begin_dict [OF assms(1)] by (auto intro: table_step.same)
next
  case True
  then have d: "dict r1 = dict (count_intercepted nr r)" using begin_dict [OF assms(1)] by simp
  then have "dict r2 = dict r1 \<or> dict r2 = dict (count_concerned nr r1)"
    using assms(2) log_dict [of nr r1] by metis
  then show ?thesis
    using d count_concerned_dict_cong [OF d] by (metis table_step.count table_step.concern)
qed

section \<open>Lemmas: calls that observe\<close>

lemma after_real_simps [simp]:
  "dict (reg (after_real o' p)) = dict (reg p)" "con (after_real o' p) = con p"
  "errno (reg (after_real o' p)) = (if fst o' = - 1 then snd o' else errno (reg p))"
  by (simp_all add: after_real_def)

text \<open>What the bodies between \<^verbatim>\<open>BEGIN_INTERCEPT\<close> and \<^verbatim>\<open>END_INTERCEPT\<close> do to the table: nothing, or one
  \<^verbatim>\<open>LOG_INTERCEPTED\<close>.\<close>

definition logs_only :: "nat \<Rightarrow> (proc \<Rightarrow> proc result) \<Rightarrow> bool" where
  "logs_only nr body \<longleftrightarrow>
     (\<forall>p p'. body p = Inr p' \<longrightarrow> reg p' = reg p \<or> reg p' = log_intercepted nr (reg p))"

lemma log_errno [simp]:
  "saved_errno (log_intercepted nr r) = saved_errno r" "errno (log_intercepted nr r) = errno r"
  by (simp_all add: log_intercepted_def count_concerned_def)

lemma begin_errno:
  "begin_intercept nr r = (True, r') \<Longrightarrow> saved_errno r' = errno r"
  by (auto simp: begin_intercept_def count_intercepted_def split: if_splits)

lemma begin_not: "begin_intercept nr r = (False, r') \<Longrightarrow> r' = r"
  by (auto simp: begin_intercept_def split: if_splits)

lemma intercepted_spec:
  assumes "logs_only nr body" and "intercepted nr o' body p = Inr (p', ret)"
  shows "ret = fst o' \<and> errno (reg p') = errno (reg (after_real o' p)) \<and>
    table_step (reg p) (reg p')"
proof -
  obtain ok r where b: "begin_intercept nr (reg (after_real o' p)) = (ok, r)" by fastforce
  show ?thesis
  proof (cases ok)
    case False
    then show ?thesis using assms b by (auto simp: intercepted_def intro: table_step.same)
  next
    case True
    then obtain p2 where p2: "body (after_real o' p\<lparr>reg := r\<rparr>) = Inr p2" "ret = fst o'"
      "p' = p2\<lparr>reg := end_intercept (reg p2)\<rparr>"
      using assms(2) b by (auto simp: intercepted_def result_simps)
    then have l: "reg p2 = r \<or> reg p2 = log_intercepted nr r"
      using assms(1) unfolding logs_only_def by (metis proc.select_convs(1) proc.surjective proc.update_convs(1))
    then have "table_step (reg (after_real o' p)) (reg p2)"
      using log_begun_step [OF b] True by auto
    then have "table_step (reg p) (reg p')"
      by (rule table_step_dict) (simp_all add: p2)
    then show ?thesis using p2 l begin_errno b True by auto
  qed
qed

lemma logs_only_bodies:
  "logs_only nr (accept_body nr ret addr addrlen)"
  "logs_only SYS_connect (connect_body ret sockfd addr' addrlen')"
  "logs_only SYS_close (close_body fd)"
  "logs_only SYS_socket (\<lambda>p. Inr (p\<lparr>reg := log_intercepted SYS_socket (reg p)\<rparr>))"
  "logs_only nr Inr"
  by (auto simp: logs_only_def accept_body_def connect_body_def close_body_def result_simps split: if_splits option.splits)

lemma counted_spec:
  "counted nr o' p = (p', ret) \<Longrightarrow> ret = fst o' \<and> errno (reg p') = errno (reg (after_real o' p)) \<and>
    table_step (reg p) (reg p')"
  by (auto simp: counted_def check_count_intercepted_def count_intercepted_def after_real_def
      split: if_splits intro: table_step.same table_step.count)

lemma observed_spec:
  assumes "observed e = Some o'" and "hook e p = Inr (p', ret)"
  shows "ret = fst o' \<and> errno (reg p') = errno (reg (after_real o' p)) \<and>
    table_step (reg p) (reg p')"
proof (cases e)
  case (Open real flags mode)
  then have "intercepted SYS_open o' Inr p = Inr (p', ret)"
    using assms by (auto simp: my_open_def open_mode_def result_simps split: if_splits option.splits)
  then show ?thesis by (rule intercepted_spec [OF logs_only_bodies(5)])
qed (use assms in \<open>auto simp: accept_def accept4_def connect_def my_close_def socket_def
    openat_def sendmsg_def sendfile_def realloc_def
    dest: intercepted_spec [OF logs_only_bodies(1)] intercepted_spec [OF logs_only_bodies(2)]
      intercepted_spec [OF logs_only_bodies(3)] intercepted_spec [OF logs_only_bodies(4)]
      counted_spec\<close>)

section \<open>Lemmas: sending\<close>

lemma call_real_frame:
  assumes "call_real real a p = (p', ret)"
  shows "dict (reg p') = dict (reg p)" "con p' = con p" "nr_send_syscall p' = nr_send_syscall p"
    "lib_send p' = lib_send p" "send_calls p' = send_calls p + 1"
    "ret = fst (real (send_calls p) a)"
    "sent p' = (sent p)(sa_fd a := sent p (sa_fd a) @ take (nat ret) (sa_buf a))"
    "errno (reg p') = (if ret = - 1 then snd (real (send_calls p) a) else errno (reg p))"
  using assms by (auto simp: call_real_def split: prod.splits)

lemma check_intercept_dict: "dict r = dict s \<Longrightarrow> check_intercept r nr = check_intercept s nr"
  by (simp add: check_intercept_def)

text \<open>The last part of \<^verbatim>\<open>sendto\<close>: the real call, and the book-keeping behind it.\<close>

definition sendto_tail :: "real_send \<Rightarrow> send_args \<Rightarrow> bool \<Rightarrow> proc \<Rightarrow> (proc \<times> int) result" where
  "sendto_tail real a is_concerned p2 =
     (case call_real real a p2 of (p3, ret) \<Rightarrow>
      case begin_intercept (nr_send_syscall p3) (reg p3) of (ok, r) \<Rightarrow>
      if \<not> ok then Inr (p3, ret)
      else
        let nr = nr_send_syscall p3;
            r1 = (if is_concerned \<and> (nr = SYS_write \<or> nr = lib_send p3 \<or> nr = SYS_sendto)
                  then log_intercepted nr r else r)
        in Inr (p3\<lparr>reg := end_intercept r1, nr_send_syscall := 0\<rparr>, ret))"

lemma sendto_tail_total: "\<exists>p' ret. sendto_tail real a c p = Inr (p', ret)"
  unfolding sendto_tail_def Let_def by (auto split: prod.splits)

definition numbered :: "proc \<Rightarrow> proc" where
  "numbered p = (if nr_send_syscall p = 0 then p\<lparr>nr_send_syscall := SYS_sendto\<rparr> else p)"

lemma numbered_simps [simp]:
  "reg (numbered p) = reg p" "con (numbered p) = con p" "sent (numbered p) = sent p"
  "lib_send (numbered p) = lib_send p" "send_calls (numbered p) = send_calls p"
  "nr_send_syscall (numbered p) = (if nr_send_syscall p = 0 then SYS_sendto else nr_send_syscall p)"
  by (simp_all add: numbered_def)

definition target_concerned :: "proc \<Rightarrow> send_args \<Rightarrow> bool result" where
  "target_concerned p a =
     (if sin_port (check_fd_is_concerned_with_addr (con p) (sa_fd a)) \<noteq> 0 then Inr True
      else check_addr_is_concerned_with_len (con p) (sa_dest a) (sa_addrlen a))"

lemma sendto_eq:
  "sendto real a p =
     (if \<not> check_intercept (reg p) SYS_sendto then Inr (call_real real a p)
      else and_then (target_concerned p a) (\<lambda>is_c.
        if is_c then
          (case hack real a (numbered p) of (p2, ret0) \<Rightarrow>
            if ret0 = - 1 then Inr (p2, ret0) else sendto_tail real a True p2)
        else sendto_tail real a False (numbered p)))"
  unfolding sendto_def sendto_tail_def target_concerned_def numbered_def [symmetric]
  by (auto simp: Let_def intro!: arg_cong2 [where f = and_then] split: prod.splits)

lemma sendto_tail_table:
  assumes "sendto_tail real a c p = Inr (p', ret)"
  shows "table_step (reg p) (reg p') \<and> con p' = con p \<and> lib_send p' = lib_send p \<and>
    ret = fst (real (send_calls p) a) \<and>
    errno (reg p') = (if ret = - 1 then snd (real (send_calls p) a) else errno (reg p)) \<and>
    sent p' = (sent p)(sa_fd a := sent p (sa_fd a) @ take (nat ret) (sa_buf a))"
proof -
  obtain p3 ret3 where c: "call_real real a p = (p3, ret3)" by fastforce
  note f = call_real_frame [OF c]
  obtain ok r where b: "begin_intercept (nr_send_syscall p3) (reg p3) = (ok, r)" by fastforce
  show ?thesis
  proof (cases ok)
    case False
    then have "p' = p3" "ret = ret3" using assms c b by (simp_all add: sendto_tail_def)
    then show ?thesis using f by (simp add: table_step.same)
  next
    case True
    then obtain r1 where r1: "r1 = r \<or> r1 = log_intercepted (nr_send_syscall p3) r"
      "p' = p3\<lparr>reg := end_intercept r1, nr_send_syscall := 0\<rparr>" "ret = ret3"
      using assms c b unfolding sendto_tail_def Let_def by (auto split: if_splits)
    from r1(1) True have "table_step (reg p3) r1" using log_begun_step [OF b] by auto
    then have "table_step (reg p) (reg p')"
      by (rule table_step_dict) (simp_all add: r1 f)
    moreover have "errno (reg p') = errno (reg p3)"
      using r1 begin_errno b True by auto
    ultimately show ?thesis using r1 f by simp
  qed
qed

lemma sendto_table:
  assumes "sendto real a p = Inr (p', ret)"
  shows "table_step (reg p) (reg p') \<and> con p' = con p \<and> lib_send p' = lib_send p"
proof -
  obtain q qr where c: "call_real real a p = (q, qr)" by fastforce
  obtain h hr where h: "hack real a (numbered p) = (h, hr)" by fastforce
  note hf = call_real_frame [OF h [unfolded hack_def]]
  consider "(p', ret) = (q, qr)" | "(p', ret) = (h, hr)" | "sendto_tail real a True h = Inr (p', ret)"
    | "sendto_tail real a False (numbered p) = Inr (p', ret)"
    using assms c h by (auto simp: sendto_eq result_simps split: if_splits)
  then show ?thesis
  proof cases
    case 3
    have "table_step (reg p) (reg p')"
      by (rule table_step_dict [of "reg h" "reg p'"])
        (use sendto_tail_table [OF 3] hf in simp_all)
    then show ?thesis using sendto_tail_table [OF 3] hf by simp
  next
    case 4
    then show ?thesis using sendto_tail_table [OF 4] by simp
  qed (use call_real_frame [OF c] hf in \<open>simp_all add: table_step.same\<close>)
qed

lemma hook_table: "hook e p = Inr (p', ret) \<Longrightarrow> table_step (reg p) (reg p')"
proof (cases "observed e")
  case (Some o')
  then show "hook e p = Inr (p', ret) \<Longrightarrow> table_step (reg p) (reg p')"
    using observed_spec by blast
next
  case None
  assume h: "hook e p = Inr (p', ret)"
  have w: "table_step (reg p) (reg p')" if wr: "my_write real fd buf p = Inr (p', ret)" for real fd buf
  proof -
    define a where "a = \<lparr>sa_fd = fd, sa_buf = buf, sa_flags = 0, sa_dest = None, sa_addrlen = 0\<rparr>"
    obtain q qr where c: "call_real real a p = (q, qr)" by fastforce
    obtain q2 qr2 where c2: "call_real real a (p\<lparr>reg := count_intercepted SYS_write (reg p)\<rparr>) = (q2, qr2)"
      by fastforce
    consider "p' = q" | "sendto real a (p\<lparr>nr_send_syscall := SYS_write\<rparr>) = Inr (p', ret)" | "p' = q2"
      using wr c c2 by (auto simp: my_write_def a_def [symmetric] split: if_splits)
    then show ?thesis
      using call_real_frame(1) [OF c] call_real_frame(1) [OF c2]
        sendto_table [of real a "p\<lparr>nr_send_syscall := SYS_write\<rparr>"]
      by cases (auto intro: table_step.same table_step.count)
  qed
  from None h w show "table_step (reg p) (reg p')"
  proof (cases e)
    case (Random v)
    obtain ok r where b: "check_count_intercepted (lib_random p) (reg p) = (ok, r)" by fastforce
    then have d: "dict r = (if ok then dict (count_intercepted (lib_random p) (reg p)) else dict (reg p))"
      by (auto simp: check_count_intercepted_def split: if_splits)
    have "dict (reg p') = dict r \<or> dict (reg p') = dict (count_concerned (lib_random p) r) \<and> ok"
      using h Random b log_dict [of "lib_random p" r] by (auto simp: my_random_def split: if_splits)
    then show ?thesis
      using d count_concerned_dict_cong [of r "count_intercepted (lib_random p) (reg p)" "lib_random p"]
      by (cases ok) (auto intro: table_step.intros)
  qed (use sendto_table in \<open>fastforce simp: send_def\<close>)+
qed

interpretation hooks: safe_machine hook_step "\<lambda>p. counts_ok (reg p)"
  by unfold_locales (auto simp: hook_step_def result_simps dest!: hook_table table_step_ok)

definition port_known :: "proc \<Rightarrow> fd \<Rightarrow> bool" where
  "port_known p fd \<longleftrightarrow> sin_port (check_fd_is_concerned_with_addr (con p) fd) \<noteq> 0"

definition header_args :: "send_args \<Rightarrow> send_args" where
  "header_args a = a\<lparr>sa_buf := hack_bytes (of_nat (length (sa_buf a)))\<rparr>"

lemma sendto_concerned:
  assumes "check_intercept (reg p) SYS_sendto" and "port_known p (sa_fd a)"
  shows "\<exists>p' ret. sendto real a p = Inr (p', ret) \<and>
    (let h = fst (real (send_calls p) (header_args a));
         r = fst (real (send_calls p + 1) a)
     in ret = (if h = - 1 then - 1 else r) \<and>
        sent p' = (sent p)(sa_fd a := sent p (sa_fd a) @
          take (nat h) (hack_bytes (of_nat (length (sa_buf a)))) @
          (if h = - 1 then [] else take (nat r) (sa_buf a))))"
proof -
  have t: "target_concerned p a = Inr True" using assms(2) by (simp add: target_concerned_def port_known_def)
  obtain h hr where h: "call_real real (header_args a) (numbered p) = (h, hr)" by fastforce
  note hf = call_real_frame [OF h]
  show ?thesis
  proof (cases "hr = - 1")
    case True
    then show ?thesis using assms(1) t h hf
      by (simp add: sendto_eq hack_def header_args_def [symmetric] Let_def)
  next
    case False
    obtain p' ret where p': "sendto_tail real a True h = Inr (p', ret)"
      using sendto_tail_total by blast
    then show ?thesis using assms(1) t h hf False sendto_tail_table [OF p']
      by (simp add: sendto_eq hack_def header_args_def [symmetric] Let_def) (simp add: header_args_def)
  qed
qed

text \<open>A descriptor and a peer that take all bytes of every call, as a blocking socket does.\<close>

definition takes_all :: "real_send \<Rightarrow> bool" where
  "takes_all real \<longleftrightarrow> (\<forall>n a. fst (real n a) = int (length (sa_buf a)))"

lemma sendto_full:
  assumes "check_intercept (reg p) SYS_sendto" and "port_known p (sa_fd a)" and "takes_all real"
  shows "\<exists>p'. sendto real a p = Inr (p', int (length (sa_buf a))) \<and> con p' = con p \<and>
    same_states (reg p) (reg p') \<and> sent p' = (sent p)(sa_fd a := sent p (sa_fd a) @ frame (sa_buf a))"
proof -
  obtain p' ret where p': "sendto real a p = Inr (p', ret)"
    "ret = int (length (sa_buf a))" "sent p' = (sent p)(sa_fd a := sent p (sa_fd a) @ frame (sa_buf a))"
    using sendto_concerned [OF assms(1,2), of real] assms(3)
    by (auto simp: takes_all_def header_args_def frame_def Let_def)
  then show ?thesis using sendto_table [OF p'(1)] table_step_ok by auto
qed

fun payload :: "hook_event \<Rightarrow> (fd \<times> u8 list) option" where
  "payload (Sendto _ a) = Some (sa_fd a, sa_buf a)"
| "payload (Send _ fd buf _) = Some (fd, buf)"
| "payload (Write _ fd buf) = Some (fd, buf)"
| "payload _ = None"

fun event_real :: "hook_event \<Rightarrow> real_send \<Rightarrow> bool" where
  "event_real (Sendto real _) r = (real = r)"
| "event_real (Send real _ _ _) r = (real = r)"
| "event_real (Write real _ _) r = (real = r)"
| "event_real _ _ = False"

lemma send_event_full:
  assumes "event_real e real" and "payload e = Some (fd, buf)" and "takes_all real"
    and "check_intercept (reg p) SYS_sendto" and "check_intercept (reg p) SYS_write" and "port_known p fd"
  shows "\<exists>p'. hook_step p e = Inr p' \<and> con p' = con p \<and> same_states (reg p) (reg p') \<and>
    sent p' = (sent p)(fd := sent p fd @ frame buf)"
proof -
  have k: "check_fd_is_concerned (con p) fd"
    using assms(6) by (auto simp: port_known_def check_fd_is_concerned_def
        check_fd_is_concerned_with_addr_def zero_addr_def split: option.splits)
  have go: "\<exists>p'. (case sendto real a (p\<lparr>nr_send_syscall := n\<rparr>) of Inl x \<Rightarrow> Inl x | Inr (p', _) \<Rightarrow> Inr p') = Inr p' \<and>
      con p' = con p \<and> same_states (reg p) (reg p') \<and> sent p' = (sent p)(fd := sent p fd @ frame buf)"
    if "sa_fd a = fd" "sa_buf a = buf" for a n
    using sendto_full [of "p\<lparr>nr_send_syscall := n\<rparr>" a real] that assms(3,4,6)
    by (auto simp: port_known_def)
  have st: "hook_step p e = (case hook e p of Inl x \<Rightarrow> Inl x | Inr (p', _) \<Rightarrow> Inr p')"
    by (simp add: hook_step_def split: sum.splits)
  show ?thesis
  proof (cases e)
    case (Sendto r a)
    then show ?thesis using go [of a "nr_send_syscall p"] assms(1,2) st by simp
  next
    case (Send r f b flags)
    then show ?thesis using go assms(1,2) st by (simp add: send_def)
  next
    case (Write r f b)
    then show ?thesis using go assms(1,2,5) st k by (simp add: my_write_def)
  qed (use assms(1) in simp_all)
qed

lemma run_sends_framed:
  assumes "takes_all real" and "check_intercept (reg p) SYS_sendto" and "check_intercept (reg p) SYS_write"
    and "\<forall>e \<in> set es. event_real e real \<and> (\<exists>fd buf. payload e = Some (fd, buf) \<and> port_known p fd)"
  shows "\<exists>p'. run hook_step p es = Inr p' \<and>
    (\<forall>fd. sent p' fd = sent p fd @ concat (map (frame \<circ> snd)
       (filter (\<lambda>(f, _). f = fd) (map (the \<circ> payload) es))))"
  using assms
proof (induction es arbitrary: p)
  case Nil
  then show ?case by simp
next
  case (Cons e es)
  then obtain fd buf where e: "event_real e real" "payload e = Some (fd, buf)" "port_known p fd"
    by auto
  obtain p1 where p1: "hook_step p e = Inr p1" "con p1 = con p" "same_states (reg p) (reg p1)"
    "sent p1 = (sent p)(fd := sent p fd @ frame buf)"
    using send_event_full [OF e(1,2) Cons.prems(1,2,3) e(3)] by blast
  have "\<exists>p'. run hook_step p1 es = Inr p' \<and> (\<forall>fd. sent p' fd = sent p1 fd @ concat (map (frame \<circ> snd)
       (filter (\<lambda>(f, _). f = fd) (map (the \<circ> payload) es))))"
    using Cons.prems p1 same_states_intercept [OF p1(3)]
    by (intro Cons.IH) (auto simp: port_known_def)
  then show ?case using p1 e by (auto simp: comp_def)
qed

section \<open>Properties\<close>

text \<open>C13: Whatever mixture of \<^verbatim>\<open>write\<close>, \<^verbatim>\<open>send\<close> and \<^verbatim>\<open>sendto\<close> a program uses on descriptors that the library
  tracks, as long as the descriptors take whole buffers, each peer receives exactly the program's
  messages to it, in order, each behind an eight byte header with the magic number and its length,
  and no call fails.\<close>

theorem sends_are_framed:
  assumes "takes_all real" and "check_intercept (reg p) SYS_sendto" and "check_intercept (reg p) SYS_write"
    and "\<forall>e \<in> set es. event_real e real \<and> (\<exists>fd buf. payload e = Some (fd, buf) \<and> port_known p fd)"
  shows "\<exists>p'. run hook_step p es = Inr p' \<and>
    (\<forall>fd. sent p' fd = sent p fd @ concat (map (frame \<circ> snd)
       (filter (\<lambda>(f, _). f = fd) (map (the \<circ> payload) es))))"
  by (rule run_sends_framed [OF assms])

definition example_proc :: proc where
  "example_proc = \<lparr>reg = upd_func SYS_write (\<lambda>e. e\<lparr>rf_state := STATE_ENABLED\<rparr>)
       (upd_func SYS_sendto (\<lambda>e. e\<lparr>rf_state := STATE_ENABLED\<rparr>) registry_globals),
     con = concern_globals\<lparr>fd_map := [5 \<mapsto> \<lparr>sin_family = AF_INET, sin_port = 0x5000, s_addr = 1\<rparr>]\<rparr>,
     nr_send_syscall = 0, lib_send = 510, lib_random = 509, lib_realloc = 508,
     sent = (\<lambda>_. []), send_calls = 0\<rparr>"

definition full_real :: real_send where
  "full_real n a = (int (length (sa_buf a)), 0)"

lemma example_proc_ok:
  "check_intercept (reg example_proc) SYS_sendto" "check_intercept (reg example_proc) SYS_write"
  "port_known example_proc 5" "takes_all full_real" "sent example_proc fd = []"
  "nr_send_syscall example_proc = 0" "lib_send example_proc = 510"
  "\<not> check_intercept (reg example_proc) 510" "send_calls example_proc = 0"
  by (simp_all add: example_proc_def check_intercept_bit SYS_sendto_def SYS_write_def port_known_def
      check_fd_is_concerned_with_addr_def takes_all_def full_real_def concern_globals_def
      registry_globals_def empty_func_def state_defs)

theorem sends_are_framed_witness:
  "\<exists>p'. run hook_step example_proc [Write full_real 5 [1, 2], Send full_real 5 [3] 0] = Inr p' \<and>
     sent p' 5 = [0xde, 0xad, 0xbe, 0xef, 0, 0, 0, 2, 1, 2, 0xde, 0xad, 0xbe, 0xef, 0, 0, 0, 1, 3]"
proof -
  have f: "frame [1, 2] = [0xde, 0xad, 0xbe, 0xef, 0, 0, 0, 2, 1, 2]"
    "frame [3] = [0xde, 0xad, 0xbe, 0xef, 0, 0, 0, 1, 3]"
    by code_simp+
  show ?thesis
    using sends_are_framed [OF example_proc_ok(4,1,2), of "[Write full_real 5 [1, 2], Send full_real 5 [3] 0]"]
      example_proc_ok(3,5) f by fastforce
qed

text \<open>C37: A short send breaks the framing. On a tracked descriptor the header announces the whole buffer;
  when only \<open>k\<close> bytes of it go out and the program sends the rest, as it must, the rest gets a header
  of its own in the middle of the announced message, which is not the frame the receiver expects.\<close>

theorem short_send_breaks_framing:
  assumes "check_intercept (reg p) SYS_sendto" and "port_known p (sa_fd a)"
    and "0 < k" and "k < length (sa_buf a)"
    and "fst (real (send_calls p) (header_args a)) = 8"
    and "fst (real (send_calls p + 1) a) = int k"
    and "takes_all real2"
  shows "\<exists>p1 p2 n. sendto real a p = Inr (p1, int k) \<and>
    sendto real2 (a\<lparr>sa_buf := drop k (sa_buf a)\<rparr>) p1 = Inr (p2, n) \<and>
    sent p2 (sa_fd a) = sent p (sa_fd a) @ hack_bytes (of_nat (length (sa_buf a))) @
      take k (sa_buf a) @ frame (drop k (sa_buf a)) \<and>
    sent p2 (sa_fd a) \<noteq> sent p (sa_fd a) @ frame (sa_buf a)"
proof -
  obtain p1 where p1: "sendto real a p = Inr (p1, int k)"
    "sent p1 = (sent p)(sa_fd a := sent p (sa_fd a) @ hack_bytes (of_nat (length (sa_buf a))) @
       take k (sa_buf a))"
    using sendto_concerned [OF assms(1,2), of real] assms(5,6) by (auto simp: Let_def)
  have "check_intercept (reg p1) SYS_sendto" "port_known p1 (sa_fd a)"
    using sendto_table [OF p1(1)] table_step_ok [of "reg p" "reg p1"]
      same_states_intercept [of "reg p" "reg p1"] assms(1,2)
    by (auto simp: port_known_def)
  then obtain p2 n where p2: "sendto real2 (a\<lparr>sa_buf := drop k (sa_buf a)\<rparr>) p1 = Inr (p2, n)"
    "sent p2 = (sent p1)(sa_fd a := sent p1 (sa_fd a) @ frame (drop k (sa_buf a)))"
    using sendto_full [of p1 "a\<lparr>sa_buf := drop k (sa_buf a)\<rparr>" real2] assms(7) by auto
  have "length (sent p2 (sa_fd a)) \<noteq> length (sent p (sa_fd a) @ frame (sa_buf a))"
    using p1 p2 assms(4) by simp
  then have "sent p2 (sa_fd a) \<noteq> sent p (sa_fd a) @ frame (sa_buf a)" by metis
  with p1 p2 show ?thesis by (intro exI [of _ p1] exI [of _ p2] exI [of _ n]) simp
qed

definition short_real :: real_send where
  "short_real n a = (if n = 0 then 8 else 1, 0)"

theorem short_send_breaks_framing_witness:
  "\<exists>p1 p2 n. sendto short_real \<lparr>sa_fd = 5, sa_buf = [1, 2, 3], sa_flags = 0, sa_dest = None,
      sa_addrlen = 0\<rparr> example_proc = Inr (p1, 1) \<and>
    sendto full_real \<lparr>sa_fd = 5, sa_buf = [2, 3], sa_flags = 0, sa_dest = None, sa_addrlen = 0\<rparr> p1 =
      Inr (p2, n) \<and>
    sent p2 5 = hack_bytes 3 @ [1] @ frame [2, 3]"
  using short_send_breaks_framing [where p = example_proc and k = 1 and real = short_real
      and ?real2.0 = full_real and a = "\<lparr>sa_fd = 5, sa_buf = [1, 2, 3], sa_flags = 0, sa_dest = None,
      sa_addrlen = 0\<rparr>"] example_proc_ok
  by (simp add: short_real_def) blast

lemma my_close_total: "\<exists>p'. my_close o' fd p = Inr (p', fst o')"
  by (cases "begin_intercept SYS_close (reg (after_real o' p))")
    (simp add: my_close_def intercepted_def close_body_def Let_def)

definition example_accepting :: proc where
  "example_accepting = example_proc\<lparr>con := example_concern,
     reg := upd_func SYS_accept (\<lambda>e. e\<lparr>rf_state := STATE_ENABLED\<rparr>)
       (upd_func SYS_close (\<lambda>e. e\<lparr>rf_state := STATE_ENABLED\<rparr>) registry_globals)\<rparr>"



text \<open>In every history of hooked calls no function is counted as concerned more often than it is
  counted as called, and no call switches the interception of any function on or off.\<close>

theorem hooks_count_soundly:
  assumes "counts_ok (reg p)" and "run hook_step p es = Inr p'"
  shows "counts_ok (reg p') \<and> (\<forall>nr. check_intercept (reg p') nr = check_intercept (reg p) nr)"
proof -
  have "(\<lambda>nr. rf_state (dict (reg p') nr)) = (\<lambda>nr. rf_state (dict (reg p) nr))"
  proof (rule hooks.run_frame [of "\<lambda>p nr. rf_state (dict (reg p) nr)"])
    show "(\<lambda>nr. rf_state (dict (reg s') nr)) = (\<lambda>nr. rf_state (dict (reg s) nr))"
      if "hook_step s e = Inr s'" for s e s'
      using that table_step_ok
      by (fastforce simp: hook_step_def result_simps same_states_def dest!: hook_table)
  qed (use assms in auto)
  then have "rf_state (dict (reg p') nr) = rf_state (dict (reg p) nr)" for nr by (rule fun_cong)
  then show ?thesis using hooks.run_inv [OF assms] by (simp add: check_intercept_def)
qed

theorem hooks_count_soundly_witness:
  "counts_ok (reg example_proc) \<and> (\<exists>p'. run hook_step example_proc [Openat (3, 0), Random 7] = Inr p' \<and>
     counts_ok (reg p'))"
proof -
  have c: "counts_ok (reg example_proc)"
    by (simp add: counts_ok_def example_proc_def registry_globals_def empty_func_def)
  obtain p' where "run hook_step example_proc [Openat (3, 0), Random 7] = Inr p'"
    by (simp add: hook_step_def case_prod_beta)
  with hooks_count_soundly [OF c this] c show ?thesis by auto
qed

text \<open>The library follows a connection: when \<^verbatim>\<open>accept\<close> returns a descriptor whose IPv4 peer is of
  concern, and has a port, the descriptor is tracked with that peer's address, and \<^verbatim>\<open>close\<close> ends this,
  so that a later connection on the same number starts untracked.\<close>

theorem accept_close_tracks:
  assumes "check_intercept (reg p) SYS_accept" and "check_intercept (reg p) SYS_close"
    and "fd \<noteq> - 1" and "16 \<le> len" and "sa_family a = AF_INET" and "sa_port a \<noteq> 0"
    and "check_addr_is_concerned (con p) a = Inr True"
  shows "\<exists>p1. accept (fd, err) (Some a) (Some len) p = Inr (p1, fd) \<and>
    check_fd_is_concerned_with_addr (con p1) fd = view_in a \<and>
    (\<exists>p2. my_close (ret, err2) fd p1 = Inr (p2, ret) \<and> \<not> check_fd_is_concerned (con p2) fd \<and>
      (\<forall>fd'. fd' \<noteq> fd \<longrightarrow> fd_map (con p2) fd' = fd_map (con p) fd'))"
proof -
  have l: "log_intercepted nr r = count_concerned nr r" if "check_intercept r nr" for nr r
    using that by (simp add: log_intercepted_def)
  have d: "check_intercept (end_intercept r) nr = check_intercept r nr" for r nr
    by (simp add: check_intercept_def)
  have cs: "check_intercept (r\<lparr>saved_errno := v\<rparr>) nr = check_intercept r nr"
    "check_intercept (count_concerned n (count_intercepted m r)) nr = check_intercept r nr"
    "check_intercept (count_intercepted m (r\<lparr>saved_errno := v\<rparr>)) nr = check_intercept r nr"
    "check_intercept (count_concerned n (count_intercepted m (r\<lparr>saved_errno := v\<rparr>))) nr =
       check_intercept r nr" for n m r nr v
    by (auto simp: check_intercept_def count_concerned_def count_intercepted_def)
  define p1 where "p1 = p\<lparr>con := add_concerned_fd fd a (con p),
    reg := end_intercept (log_intercepted SYS_accept
      (count_intercepted SYS_accept ((reg p)\<lparr>saved_errno := errno (reg p)\<rparr>)))\<rparr>"
  have a: "accept (fd, err) (Some a) (Some len) p = Inr (p1, fd)"
    using assms by (simp add: accept_def intercepted_def after_real_def begin_intercept_def
        accept_body_def check_addr_is_concerned_with_len_def p1_def)
  have v: "check_fd_is_concerned_with_addr (con p1) fd = view_in a"
    using assms(5) by (simp add: p1_def check_fd_is_concerned_with_addr_def add_concerned_fd_def)
  have "check_intercept (reg p1) SYS_close" using assms(2) by (simp add: p1_def d cs log_intercepted_def)
  then have i: "check_intercept (reg (after_real (ret, err2) p1)) SYS_close"
    by (simp add: check_intercept_def)
  have "\<exists>p2. my_close (ret, err2) fd p1 = Inr (p2, ret) \<and> con p2 = rm_concerned_fd fd (con p1)"
    using i v assms(6)
    by (simp add: my_close_def intercepted_def begin_intercept_def close_body_def view_in_def Let_def)
  then show ?thesis
    using a v assms(5)
    by (auto simp: check_fd_is_concerned_def rm_concerned_fd_def p1_def add_concerned_fd_def)
qed

theorem accept_close_tracks_witness:
  "\<exists>p1. accept (7, 0) (Some (example_sa 0x0700A8C0 0x5000)) (Some 16) example_accepting = Inr (p1, 7) \<and>
     check_fd_is_concerned_with_addr (con p1) 7 =
       \<lparr>sin_family = AF_INET, sin_port = 0x5000, s_addr = 0x0700A8C0\<rparr>"
proof -
  have "check_addr_is_concerned (con example_accepting) (example_sa 0x0700A8C0 0x5000) = Inr True"
    using check_addr_eq [OF example_concern_represents, of "example_sa 0x0700A8C0 0x5000"]
    by (simp add: example_accepting_def example_sa_def looked_up_def AF_INET_def AF_INET6_def
        example_networks)
  moreover have "check_intercept (reg example_accepting) SYS_accept"
    "check_intercept (reg example_accepting) SYS_close"
    by (simp_all add: example_accepting_def check_intercept_bit SYS_accept_def SYS_close_def)
  ultimately show ?thesis
    using accept_close_tracks [where p = example_accepting and fd = 7 and len = 16 and ret = 0
        and a = "example_sa 0x0700A8C0 0x5000" and err = 0 and ?err2.0 = 0]
    by (fastforce simp: example_sa_def view_in_def)
qed

lemma hook_step_Sendto:
  "hook_step q (Sendto real a) = Inr q1 \<longleftrightarrow> (\<exists>ret. sendto real a q = Inr (q1, ret))"
  by (auto simp: hook_step_def result_simps)

lemma hook_step_send:
  "hook_step q (Send real fd buf flags) = Inr q1 \<longleftrightarrow>
     (\<exists>ret. sendto real \<lparr>sa_fd = fd, sa_buf = buf, sa_flags = flags, sa_dest = None, sa_addrlen = 0\<rparr>
       (q\<lparr>nr_send_syscall := lib_send q\<rparr>) = Inr (q1, ret))"
  by (auto simp: hook_step_def send_def result_simps)

lemma sendto_stuck:
  assumes "nr_send_syscall p = lib_send p" and "lib_send p \<noteq> 0"
    and "\<not> check_intercept (reg p) (lib_send p)" and "sendto real a p = Inr (p', ret)"
  shows "nr_send_syscall p' = lib_send p \<and> lib_send p' = lib_send p \<and> dict (reg p') = dict (reg p)"
proof -
  obtain q qr where c: "call_real real a p = (q, qr)" by fastforce
  obtain h hr where h: "hack real a (numbered p) = (h, hr)" by fastforce
  note hf = call_real_frame [OF h [unfolded hack_def]]
  have t: "nr_send_syscall y = lib_send p \<and> lib_send y = lib_send p \<and> dict (reg y) = dict (reg p)"
    if "sendto_tail real a b x = Inr (y, r)" "nr_send_syscall x = lib_send p" "lib_send x = lib_send p"
      "dict (reg x) = dict (reg p)" for b x y r
  proof -
    obtain z zr where z: "call_real real a x = (z, zr)" by fastforce
    note zf = call_real_frame [OF z]
    have "\<not> check_intercept (reg z) (lib_send p)"
      using assms(3) check_intercept_dict [of "reg z" "reg p"] zf that by simp
    then show ?thesis using that z zf by (simp add: sendto_tail_def begin_intercept_def)
  qed
  consider "p' = q" | "p' = h" | "sendto_tail real a True h = Inr (p', ret)"
    | "sendto_tail real a False (numbered p) = Inr (p', ret)"
    using assms(4) c h by (auto simp: sendto_eq result_simps split: if_splits)
  then show ?thesis
  proof cases
    case 3
    then show ?thesis using t hf assms(1,2) by simp
  next
    case 4
    then show ?thesis using t assms(1,2) by simp
  qed (use call_real_frame [OF c] hf assms in simp_all)
qed

text \<open>The variable that says on whose behalf \<^verbatim>\<open>sendto\<close> runs can stick. Once a thread has called
  \<^verbatim>\<open>send\<close> while the interception of \<^verbatim>\<open>send\<close> is off, as \<^verbatim>\<open>init\<close> of \<^verbatim>\<open>ptracer.c\<close> leaves it, no \<^verbatim>\<open>sendto\<close> of
  that thread is counted any more, although \<^verbatim>\<open>sendto\<close> itself is intercepted.\<close>

theorem send_silences_sendto:
  assumes "\<not> check_intercept (reg p) (lib_send p)" and "lib_send p \<noteq> 0"
    and "run hook_step p (Send real0 fd buf flags # map (\<lambda>(real, a). Sendto real a) cs) = Inr p'"
  shows "dict (reg p') = dict (reg p)"
proof -
  have stuck: "run hook_step q (map (\<lambda>(real, a). Sendto real a) cs) = Inr p' \<Longrightarrow>
    nr_send_syscall q = lib_send q \<Longrightarrow> lib_send q \<noteq> 0 \<Longrightarrow> \<not> check_intercept (reg q) (lib_send q) \<Longrightarrow>
    dict (reg p') = dict (reg q)" for q
  proof (induction cs arbitrary: q)
    case Nil
    then show ?case by simp
  next
    case (Cons c cs)
    obtain real a where c: "c = (real, a)" by fastforce
    then obtain q1 ret where q1: "sendto real a q = Inr (q1, ret)"
      "run hook_step q1 (map (\<lambda>(real, a). Sendto real a) cs) = Inr p'"
      using Cons.prems(1) by (auto simp: hook_step_Sendto result_simps)
    note s = sendto_stuck [OF Cons.prems(2-4) q1(1)]
    have "check_intercept (reg q1) (lib_send q1) = check_intercept (reg q) (lib_send q)"
      using s check_intercept_dict [of "reg q1" "reg q"] by simp
    then show ?case using Cons.IH [OF q1(2)] Cons.prems s by simp
  qed
  let ?a = "\<lparr>sa_fd = fd, sa_buf = buf, sa_flags = flags, sa_dest = None, sa_addrlen = 0\<rparr>"
  obtain q ret where q: "sendto real0 ?a (p\<lparr>nr_send_syscall := lib_send p\<rparr>) = Inr (q, ret)"
    "run hook_step q (map (\<lambda>(real, a). Sendto real a) cs) = Inr p'"
    using assms(3) by (auto simp: hook_step_send result_simps)
  have s: "nr_send_syscall q = lib_send p \<and> lib_send q = lib_send p \<and> dict (reg q) = dict (reg p)"
    using sendto_stuck [OF _ _ _ q(1)] assms(1,2) by simp
  then have "\<not> check_intercept (reg q) (lib_send q)"
    using assms(1) check_intercept_dict [of "reg q" "reg p"] by simp
  then show ?thesis using stuck [OF q(2)] s assms(2) by simp
qed

theorem send_silences_sendto_witness:
  "\<exists>p'. run hook_step example_proc [Send full_real 5 [1] 0,
      Sendto full_real \<lparr>sa_fd = 5, sa_buf = [2], sa_flags = 0, sa_dest = None, sa_addrlen = 0\<rparr>] = Inr p' \<and>
     rf_count (dict (reg p') SYS_sendto) = 0 \<and> check_intercept (reg p') SYS_sendto"
proof -
  let ?a = "\<lparr>sa_fd = 5, sa_buf = [2], sa_flags = 0, sa_dest = None, sa_addrlen = 0\<rparr>"
  have "\<exists>q. run hook_step example_proc [Send full_real 5 [1] 0, Sendto full_real ?a] = Inr q"
    using run_sends_framed [OF example_proc_ok(4,1,2), of "[Send full_real 5 [1] 0, Sendto full_real ?a]"]
      example_proc_ok(3) by auto
  then obtain p' where p': "run hook_step example_proc [Send full_real 5 [1] 0, Sendto full_real ?a] = Inr p'"
    by blast
  have "dict (reg p') = dict (reg example_proc)"
    using send_silences_sendto [of example_proc full_real 5 "[1]" 0 "[(full_real, ?a)]" p'] p'
      example_proc_ok by simp
  moreover have "rf_count (dict (reg example_proc) SYS_sendto) = 0"
    by (simp add: example_proc_def registry_globals_def empty_func_def)
  ultimately show ?thesis
    using p' example_proc_ok(1) check_intercept_dict [of "reg p'" "reg example_proc"] by auto
qed

text \<open>Two wrappers are not transparent for every legal call: \<^verbatim>\<open>accept(fd, NULL, NULL)\<close> succeeds in the
  real function and then reads through the null pointer, and \<^verbatim>\<open>open(path, O_DIRECTORY)\<close> without a mode
  reads the missing third argument, because the test \<^verbatim>\<open>flags & (O_CREAT | O_TMPFILE)\<close> also catches
  the \<^verbatim>\<open>O_DIRECTORY\<close> bit that \<^verbatim>\<open>O_TMPFILE\<close> contains.\<close>

theorem unguarded_arguments:
  assumes "check_intercept (reg p) SYS_accept" and "ret \<noteq> - 1"
  shows "accept (ret, err) None None p = Inl (Undefined Null_Deref) \<and>
    my_open real O_DIRECTORY None p = Inl (Undefined Uninit_Read) \<and>
    (\<exists>p'. my_open real 0 None p = Inr (p', fst (real 0 None)))"
proof -
  have "O_DIRECTORY AND (O_CREAT OR O_TMPFILE) \<noteq> 0" by code_simp
  moreover have "\<exists>p'. intercepted SYS_open o' Inr p = Inr (p', fst o')" for o'
    by (cases "begin_intercept SYS_open (reg (after_real o' p))") (simp add: intercepted_def Let_def)
  ultimately show ?thesis
    using assms by (simp add: accept_def intercepted_def after_real_def begin_intercept_def
        accept_body_def my_open_def open_mode_def)
qed

theorem unguarded_arguments_witness:
  "accept (7, 0) None None example_accepting = Inl (Undefined Null_Deref)"
  using unguarded_arguments [of example_accepting 7 0]
  by (simp add: example_accepting_def check_intercept_bit SYS_accept_def SYS_close_def)

end
