(* ===== verification/Net_Race.thy ===== *)
theory Net_Race
  imports Net_Run
begin

text \<open>
  \<^verbatim>\<open>deliver_msg\<close> as it runs on the thread of the operator, step by step between its accesses to what
  it shares with the thread of \<^verbatim>\<open>run_epoll\<close>. The router has no lock, so that the other thread can act between any two
  of these steps. The first theorem ties the steps to the handler of \<open>Net_Deliver\<close>; the second says what the other thread may do
  without harm; the third what goes wrong when it closes a connection.
\<close>

section \<open>Steps of a delivery\<close>

text \<open>Where the thread is; \<open>D_Write\<close> holds \<^verbatim>\<open>left_size\<close> and \<^verbatim>\<open>size\<close>, \<open>D_Call\<close> the argument of \<^verbatim>\<open>write\<close>, read from \<^verbatim>\<open>*msg.fd\<close>.\<close>

datatype deliver_pc =
    D_Find
  | D_Dequeue
  | D_Live msg
  | D_Check msg
  | D_Write msg nat "int option"
  | D_Call msg nat fd
  | D_Failed msg
  | D_Done

fun deliver_step ::
  "('q, msg) queue_ops \<Rightarrow> channel \<Rightarrow> deliver_pc \<Rightarrow> 'q net \<Rightarrow> (deliver_pc \<times> 'q net) result" where
  "deliver_step Q ch D_Find s = Inr (if network s (chan_key ch) = None then D_Done else D_Dequeue, s)"
| "deliver_step Q ch D_Dequeue s =
     (case q_deq Q (queue_of Q s (chan_key ch)) of
        None \<Rightarrow> Inr (D_Done, s)
      | Some (m, q) \<Rightarrow> Inr (D_Live m, s\<lparr>network := (network s)(chan_key ch \<mapsto> q)\<rparr>))"
| "deliver_step Q ch (D_Live m) s = Inr (if cells s (m_fd m) < 0 then D_Dequeue else D_Check m, s)"
| "deliver_step Q ch (D_Check m) s =
     (case status_of s (cells s (m_fd m)) of
        None \<Rightarrow> Inr (D_Done, s)
      | Some cs \<Rightarrow> Inr (if cs_disconnected cs then D_Done else D_Write m (unat (m_size m)) None, s))"
| "deliver_step Q ch (D_Write m left sz) s =
     (if left = 0 then (case sz of None \<Rightarrow> Inl (Undefined Uninit_Read) | Some _ \<Rightarrow> Inr (D_Done, s))
      else Inr (D_Call m left (cells s (m_fd m)), s))"
| "deliver_step Q ch (D_Call m left fd) s =
     (case k_write fd (msg_body m) left s of (r, s') \<Rightarrow>
        Inr (if r = - 1 then D_Failed m else D_Write m (left - nat r) (Some r), s'))"
| "deliver_step Q ch (D_Failed m) s =
     and_then (close_connection (cells s (m_fd m)) (\<not> is_direct s) True s) (\<lambda>s'. Inr (D_Done, s'))"
| "deliver_step Q ch D_Done s = Inr (D_Done, s)"

text \<open>The thread alone.\<close>

fun deliver_steps ::
  "('q, msg) queue_ops \<Rightarrow> channel \<Rightarrow> nat \<Rightarrow> deliver_pc \<Rightarrow> 'q net \<Rightarrow> (deliver_pc \<times> 'q net) result" where
  "deliver_steps Q ch 0 pc s = Inr (pc, s)"
| "deliver_steps Q ch (Suc n) pc s = and_then (deliver_step Q ch pc s) (\<lambda>(pc', s'). deliver_steps Q ch n pc' s')"

text \<open>The thread among steps \<open>R\<close> of the other one.\<close>

inductive deliver_run ::
  "('q, msg) queue_ops \<Rightarrow> channel \<Rightarrow> ('q net \<Rightarrow> 'q net \<Rightarrow> bool) \<Rightarrow> deliver_pc \<times> 'q net \<Rightarrow> deliver_pc \<times> 'q net \<Rightarrow> bool"
  for Q ch R where
  start: "deliver_run Q ch R x x"
| own: "deliver_run Q ch R x (pc, s) \<Longrightarrow> deliver_step Q ch pc s = Inr y \<Longrightarrow> deliver_run Q ch R x y"
| other: "deliver_run Q ch R x (pc, s) \<Longrightarrow> R s s' \<Longrightarrow> deliver_run Q ch R x (pc, s')"

section \<open>Alone\<close>

definition reaches ::
  "('q, msg) queue_ops \<Rightarrow> channel \<Rightarrow> deliver_pc \<Rightarrow> 'q net \<Rightarrow> 'q net result \<Rightarrow> bool" where
  "reaches Q ch pc s r \<longleftrightarrow> (\<exists>n. deliver_steps Q ch n pc s = and_then r (\<lambda>s'. Inr (D_Done, s')))"

lemma reaches_done: "reaches Q ch D_Done s (Inr s)"
  unfolding reaches_def by (rule exI [of _ 0]) simp

lemma reaches_step: "deliver_step Q ch pc s = Inr (pc', s') \<Longrightarrow> reaches Q ch pc' s' r \<Longrightarrow> reaches Q ch pc s r"
  unfolding reaches_def by (elim exE, rule_tac x = "Suc n" in exI) simp

lemma reaches_stop: "deliver_step Q ch pc s = Inr (D_Done, s') \<Longrightarrow> reaches Q ch pc s (Inr s')"
  by (rule reaches_step [OF _ reaches_done])

lemma reaches_fault: "deliver_step Q ch pc s = Inl e \<Longrightarrow> reaches Q ch pc s (Inl e)"
  unfolding reaches_def by (rule exI [of _ "Suc 0"]) simp

lemma reaches_failed:
  "reaches Q ch (D_Failed m) s (close_connection (cells s (m_fd m)) (\<not> is_direct s) True s)"
proof (cases "close_connection (cells s (m_fd m)) (\<not> is_direct s) True s")
  case (Inl e)
  then show ?thesis using reaches_fault [of Q ch "D_Failed m" s e] by simp
next
  case (Inr s')
  then show ?thesis using reaches_step [OF _ reaches_done, of Q ch "D_Failed m" s s'] by simp
qed

lemma reaches_write:
  "sz \<noteq> Some (- 1) \<Longrightarrow> cells s (m_fd m) = fd \<Longrightarrow> body = msg_body m \<Longrightarrow>
    reaches Q ch (D_Write m left sz) s
      (case deliver_loop fd body left sz s of
         (None, s') \<Rightarrow> Inl (Undefined Uninit_Read)
       | (Some r, s') \<Rightarrow> if r = - 1 then close_connection (cells s' (m_fd m)) (\<not> is_direct s') True s' else Inr s')"
proof (induction fd body left sz s rule: deliver_loop.induct)
  case (1 fd body left sz s)
  show ?case
  proof (cases "left = 0")
    case True
    then have "deliver_loop fd body left sz s = (sz, s)" by (subst deliver_loop.simps) simp
    then show ?thesis using True "1.prems"
      using reaches_fault [of Q ch "D_Write m left sz" s] reaches_stop [of Q ch "D_Write m left sz" s s]
      by (cases sz) simp_all
  next
    case False
    obtain r s1 where w: "k_write fd body left s = (r, s1)" by fastforce
    have l: "deliver_loop fd body left sz s =
        (if r = - 1 then (Some (- 1), s1) else deliver_loop fd body (left - nat r) (Some r) s1)"
      by (subst deliver_loop.simps) (simp add: False w)
    have c: "cells s1 (m_fd m) = fd" using "1.prems" same_but_sockets_simps(1) [OF k_write_frame(1) [OF w]] by simp
    have a: "deliver_step Q ch (D_Write m left sz) s = Inr (D_Call m left fd, s)" using False "1.prems" by simp
    have b: "deliver_step Q ch (D_Call m left fd) s = Inr (if r = - 1 then D_Failed m else D_Write m (left - nat r) (Some r), s1)"
      using "1.prems" w by simp
    show ?thesis
    proof (cases "r = - 1")
      case True
      show ?thesis by (rule reaches_step [OF a reaches_step [OF b]]) (simp add: True l reaches_failed)
    next
      case r: False
      have "reaches Q ch (D_Write m (left - nat r) (Some r)) s1
        (case deliver_loop fd body (left - nat r) (Some r) s1 of (None, s') \<Rightarrow> Inl (Undefined Uninit_Read)
         | (Some r, s') \<Rightarrow> if r = - 1 then close_connection (cells s' (m_fd m)) (\<not> is_direct s') True s' else Inr s')"
        using "1.IH" [OF False w [symmetric] r _ c] "1.prems"(3) r by simp
      then show ?thesis by (intro reaches_step [OF a reaches_step [OF b]]) (simp add: r l)
    qed
  qed
qed

lemma reaches_check: "reaches Q ch (D_Check m) s (deliver_to_fd m s)"
proof (cases "status_of s (cells s (m_fd m))")
  case None
  then show ?thesis using reaches_stop [of Q ch "D_Check m" s s] by (simp add: deliver_to_fd_def)
next
  case (Some cs)
  show ?thesis
  proof (cases "cs_disconnected cs")
    case True
    then show ?thesis using Some reaches_stop [of Q ch "D_Check m" s s] by (simp add: deliver_to_fd_def)
  next
    case False
    from reaches_write [of None s m, OF _ refl refl, of Q ch "unat (m_size m)"] show ?thesis
      using Some False reaches_step [of Q ch "D_Check m" s "D_Write m (unat (m_size m)) None" s]
      by (simp add: deliver_to_fd_def Let_def)
  qed
qed

lemma reaches_dequeue:
  assumes f: "fifo Q cont"
  shows "network s (chan_key ch) = Some q \<Longrightarrow> length (cont q) < n \<Longrightarrow>
    reaches Q ch D_Dequeue s
      (case deq_live Q (cells s) n q of
         (q', None) \<Rightarrow> Inr (s\<lparr>network := (network s)(chan_key ch \<mapsto> q')\<rparr>)
       | (q', Some m) \<Rightarrow> deliver_to_fd m (s\<lparr>network := (network s)(chan_key ch \<mapsto> q')\<rparr>))"
proof (induction n arbitrary: s q)
  case (Suc n)
  have q: "queue_of Q s (chan_key ch) = q" by (simp add: queue_of_def Suc.prems(1))
  show ?case
  proof (cases "q_deq Q q")
    case None
    have "s\<lparr>network := (network s)(chan_key ch \<mapsto> q)\<rparr> = s" using Suc.prems(1) by (simp add: fun_upd_idem)
    then show ?thesis using None q reaches_stop [of Q ch D_Dequeue s s] by simp
  next
    case (Some p)
    obtain m q' where p: "q_deq Q q = Some (m, q')" using Some by (cases p) simp
    define s1 where "s1 = s\<lparr>network := (network s)(chan_key ch \<mapsto> q')\<rparr>"
    have a: "deliver_step Q ch D_Dequeue s = Inr (D_Live m, s1)" by (simp add: q p s1_def)
    have len: "length (cont q') < n" using fifo_deq_Some [OF f p] Suc.prems(2) by simp
    have s1: "network s1 (chan_key ch) = Some q'" "cells s1 = cells s"
      "s1\<lparr>network := (network s1)(chan_key ch \<mapsto> x)\<rparr> = s\<lparr>network := (network s)(chan_key ch \<mapsto> x)\<rparr>" for x
      by (simp_all add: s1_def)
    show ?thesis
    proof (cases "cells s (m_fd m) < 0")
      case True
      then have "deliver_step Q ch (D_Live m) s1 = Inr (D_Dequeue, s1)" by (simp add: s1)
      from reaches_step [OF a reaches_step [OF this Suc.IH [OF s1(1) len, unfolded s1(2,3)]]] show ?thesis
        using True by (simp add: p)
    next
      case False
      then have "deliver_step Q ch (D_Live m) s1 = Inr (D_Check m, s1)" by (simp add: s1)
      from reaches_step [OF a reaches_step [OF this reaches_check]] show ?thesis
        using False by (simp add: p s1_def)
    qed
  qed
qed simp

lemma reaches_queued:
  assumes "fifo Q cont" and "network s (chan_key ch) = Some q"
  shows "reaches Q ch D_Dequeue s (deliver_msg Q ch None s)"
proof -
  have "length (cont q) < Suc (q_size Q q)" using fifo_size [OF assms(1), of q] by simp
  from reaches_dequeue [OF assms this] show ?thesis using assms(2) by (simp add: deliver_msg_def)
qed

lemma reaches_deliver_msg:
  assumes "fifo Q cont"
  shows "reaches Q ch D_Find s (deliver_msg Q ch None s)"
proof (cases "network s (chan_key ch)")
  case None
  then show ?thesis using reaches_stop [of Q ch D_Find s s] by (simp add: deliver_msg_def)
next
  case (Some q)
  show ?thesis by (rule reaches_step [OF _ reaches_queued [OF assms Some]]) (simp add: Some)
qed

section \<open>Among harmless steps\<close>

text \<open>What the other thread may do: new cells, new entries, appended messages, received bytes; nothing that is
  there goes away or is written to.\<close>

definition calm :: "('q, msg) queue_ops \<Rightarrow> ('q \<Rightarrow> msg list) \<Rightarrow> 'q net \<Rightarrow> 'q net \<Rightarrow> bool" where
  "calm Q cont s s' \<longleftrightarrow> next_cell s \<le> next_cell s' \<and> (\<forall>c < next_cell s. cells s' c = cells s c) \<and>
     (\<forall>g cs. status_of s g = Some cs \<longrightarrow> status_of s' g = Some cs) \<and>
     (\<forall>g k. sockets s g = Some k \<longrightarrow> (\<exists>k'. sockets s' g = Some k' \<and> tx k' = tx k \<and> plan k' = plan k)) \<and>
     (\<forall>key. \<exists>ms. cont (queue_of Q s' key) = cont (queue_of Q s key) @ ms)"

lemma calmD:
  assumes "calm Q cont s s'"
  shows "next_cell s \<le> next_cell s'" "c < next_cell s \<Longrightarrow> cells s' c = cells s c"
    "status_of s g = Some cs \<Longrightarrow> status_of s' g = Some cs"
    "sockets s g = Some k \<Longrightarrow> \<exists>k'. sockets s' g = Some k' \<and> tx k' = tx k \<and> plan k' = plan k"
    "\<exists>ms. cont (queue_of Q s' key) = cont (queue_of Q s key) @ ms"
  using assms unfolding calm_def by blast+

text \<open>The state between the steps, seen from the message \<open>m\<close> that is to be delivered behind the dead ones \<open>dead\<close>; \<open>g\<close> is its
  descriptor and \<open>t\<close> what had been sent there.\<close>

definition on_the_way ::
  "('q, msg) queue_ops \<Rightarrow> ('q \<Rightarrow> msg list) \<Rightarrow> channel \<Rightarrow> msg list \<Rightarrow> msg \<Rightarrow> fd \<Rightarrow> u8 list \<Rightarrow> deliver_pc \<Rightarrow> 'q net \<Rightarrow> bool" where
  "on_the_way Q cont ch dead m g t pc s \<longleftrightarrow>
     (\<forall>d \<in> set dead. m_fd d < next_cell s \<and> cells s (m_fd d) < 0) \<and> m_fd m < next_cell s \<and> cells s (m_fd m) = g \<and> 0 \<le> g \<and>
     (\<exists>cs. status_of s g = Some cs \<and> \<not> cs_disconnected cs) \<and>
     (\<exists>k. sockets s g = Some k \<and> plan k = [] \<and> tx k =
        (case pc of D_Write _ left _ \<Rightarrow> if left = 0 then t @ msg_body m else t | D_Done \<Rightarrow> t @ msg_body m | _ \<Rightarrow> t)) \<and>
     (let queued = (\<exists>n rest. cont (queue_of Q s (chan_key ch)) = drop n dead @ m # rest) in
      case pc of
        D_Find \<Rightarrow> queued
      | D_Dequeue \<Rightarrow> queued
      | D_Live d \<Rightarrow> d = m \<or> d \<in> set dead \<and> queued
      | D_Check d \<Rightarrow> d = m
      | D_Write d left sz \<Rightarrow> d = m \<and> (left = unat (m_size m) \<and> sz = None \<or> left = 0 \<and> sz \<noteq> None)
      | D_Call d left fd \<Rightarrow> d = m \<and> left = unat (m_size m) \<and> fd = g
      | D_Failed d \<Rightarrow> False
      | D_Done \<Rightarrow> True)"

lemma on_the_way_calm:
  assumes "on_the_way Q cont ch dead m g t pc s" and c: "calm Q cont s s'"
  shows "on_the_way Q cont ch dead m g t pc s'"
proof -
  note c = calmD [OF c]
  have q: "\<exists>n rest. cont (queue_of Q s' (chan_key ch)) = drop n dead @ m # rest"
    if "\<exists>n rest. cont (queue_of Q s (chan_key ch)) = drop n dead @ m # rest"
    using that c(5) [of "chan_key ch"] by fastforce
  obtain k where k: "sockets s g = Some k" "plan k = []" "tx k =
      (case pc of D_Write _ left _ \<Rightarrow> if left = 0 then t @ msg_body m else t | D_Done \<Rightarrow> t @ msg_body m | _ \<Rightarrow> t)"
    using assms(1) unfolding on_the_way_def by blast
  obtain k' where "sockets s' g = Some k'" "plan k' = []" "tx k' = tx k" using c(4) [OF k(1)] k(2) by auto
  then have "\<exists>k. sockets s' g = Some k \<and> plan k = [] \<and> tx k =
      (case pc of D_Write _ left _ \<Rightarrow> if left = 0 then t @ msg_body m else t | D_Done \<Rightarrow> t @ msg_body m | _ \<Rightarrow> t)"
    using k(3) by auto
  moreover have "\<forall>d \<in> set dead. m_fd d < next_cell s' \<and> cells s' (m_fd d) < 0" "m_fd m < next_cell s'" "cells s' (m_fd m) = g"
    "0 \<le> g" "\<exists>cs. status_of s' g = Some cs \<and> \<not> cs_disconnected cs"
    using assms(1) c(1-3) unfolding on_the_way_def by (auto intro: less_le_trans)
  ultimately show ?thesis
    using assms(1) q unfolding on_the_way_def Let_def by (cases pc) auto
qed

lemma on_the_way_dequeue:
  assumes f: "fifo Q cont" and w: "on_the_way Q cont ch dead m g t D_Dequeue s"
    and st: "deliver_step Q ch D_Dequeue s = Inr (pc', s')"
  shows "on_the_way Q cont ch dead m g t pc' s'"
proof -
  obtain n rest where q: "cont (queue_of Q s (chan_key ch)) = drop n dead @ m # rest"
    using w unfolding on_the_way_def by auto
  obtain d xs where dx: "drop n dead @ m # rest = d # xs" by (cases "drop n dead") auto
  obtain q' where q': "q_deq Q (queue_of Q s (chan_key ch)) = Some (d, q')" "cont q' = xs"
    using fifo_deq_Cons [OF f] q dx by metis
  have r: "pc' = D_Live d" "s' = s\<lparr>network := (network s)(chan_key ch \<mapsto> q')\<rparr>"
    using st q'(1) by simp_all
  have "d = m \<or> d \<in> set dead \<and> (\<exists>n rest. xs = drop n dead @ m # rest)"
  proof (cases "drop n dead")
    case (Cons e es)
    then have "es = drop (Suc n) dead" "e \<in> set dead" by (metis drop_Suc list.sel(3) tl_drop, metis in_set_dropD list.set_intros(1))
    then show ?thesis using dx Cons by auto
  qed (use dx in simp)
  moreover have "cont (queue_of Q s' (chan_key ch)) = xs" by (simp add: r(2) queue_of_def q'(2))
  ultimately show ?thesis using w by (simp add: on_the_way_def r)
qed

lemma on_the_way_call:
  assumes w: "on_the_way Q cont ch dead m g t (D_Call d left fd) s"
    and st: "deliver_step Q ch (D_Call d left fd) s = Inr (pc', s')" and m: "msg_ok m"
  shows "on_the_way Q cont ch dead m g t pc' s'"
proof -
  have c: "d = m" "left = unat (m_size m)" "fd = g" using w by (simp_all add: on_the_way_def)
  obtain k where k: "sockets s g = Some k" "plan k = []" "tx k = t" using w by (auto simp: on_the_way_def)
  have kw: "k_write g (msg_body m) (unat (m_size m)) s =
      (int (unat (m_size m)), s\<lparr>sockets := (sockets s)(g \<mapsto> k\<lparr>tx := t @ msg_body m, plan := []\<rparr>)\<rparr>)"
    using k length_msg_body [OF m] by (simp add: k_write_def)
  have r: "pc' = D_Write m 0 (Some (int (unat (m_size m))))"
    "s' = s\<lparr>sockets := (sockets s)(g \<mapsto> k\<lparr>tx := t @ msg_body m, plan := []\<rparr>)\<rparr>"
    using st c kw uint_ge_0 [of "m_size m"] by (auto split: if_splits)
  have "status_of s' = status_of s" "queue_of Q s' = queue_of Q s"
    by (simp_all add: r(2) status_of_def queue_of_def fun_eq_iff)
  then show ?thesis using w by (simp add: on_the_way_def r)
qed

lemma on_the_way_step:
  assumes f: "fifo Q cont" and w: "on_the_way Q cont ch dead m g t pc s" and st: "deliver_step Q ch pc s = Inr (pc', s')"
    and m: "msg_ok m" "m_size m \<noteq> 0"
  shows "on_the_way Q cont ch dead m g t pc' s'"
proof -
  have len: "0 < unat (m_size m)" using m(2) unat_gt_0 by blast
  have dead: "\<And>d. d \<in> set dead \<Longrightarrow> cells s (m_fd d) < 0" and live: "cells s (m_fd m) = g" "0 \<le> g"
    using w unfolding on_the_way_def by blast+
  show ?thesis
  proof (cases pc)
    case D_Find
    then obtain n rest where "cont (queue_of Q s (chan_key ch)) = drop n dead @ m # rest"
      using w unfolding on_the_way_def by auto
    then have "network s (chan_key ch) \<noteq> None"
      using fifo_empty [OF f] by (cases "network s (chan_key ch)") (auto simp: queue_of_def)
    then have "pc' = D_Dequeue" "s' = s" using st D_Find by auto
    then show ?thesis using w D_Find by (simp add: on_the_way_def)
  next
    case (D_Live d)
    show ?thesis
    proof (cases "d = m")
      case True
      then have "pc' = D_Check m" "s' = s" using st D_Live live by auto
      then show ?thesis using w D_Live by (simp add: on_the_way_def)
    next
      case False
      then have d: "d \<in> set dead" using w D_Live by (simp add: on_the_way_def)
      then have "pc' = D_Dequeue" "s' = s" using st D_Live dead [OF d] by auto
      then show ?thesis using w D_Live False by (simp add: on_the_way_def)
    qed
  next
    case (D_Check d)
    then show ?thesis using w st live len by (auto simp: on_the_way_def)
  next
    case (D_Write d left sz)
    then show ?thesis using w st live len by (auto simp: on_the_way_def split: if_splits)
  next
    case (D_Failed d)
    then show ?thesis using w by (simp add: on_the_way_def)
  qed (use w st m on_the_way_dequeue [OF f] on_the_way_call in auto)
qed

definition untouched :: "fd \<Rightarrow> 'q net \<Rightarrow> 'q net \<Rightarrow> bool" where
  "untouched g s0 s \<longleftrightarrow> (\<forall>h k0. h \<noteq> g \<longrightarrow> sockets s0 h = Some k0 \<longrightarrow> (\<exists>k. sockets s h = Some k \<and> tx k = tx k0))"

lemma untouched_calm: "untouched g s0 s \<Longrightarrow> calm Q cont s s' \<Longrightarrow> untouched g s0 s'"
  unfolding untouched_def calm_def by metis

lemma untouched_step:
  assumes "on_the_way Q cont ch dead m g t pc s" and "deliver_step Q ch pc s = Inr (pc', s')" and "untouched g s0 s"
  shows "untouched g s0 s'"
proof -
  have "sockets s' h = sockets s h" if "h \<noteq> g" for h
  proof (cases pc)
    case (D_Call d left fd)
    then have "fd = g" using assms(1) by (simp add: on_the_way_def)
    then show ?thesis using D_Call assms(2) k_write_frame(2) that by (fastforce split: prod.splits)
  next
    case (D_Failed d)
    then show ?thesis using assms(1) by (simp add: on_the_way_def)
  qed (use assms(2) in \<open>auto split: option.splits if_splits\<close>)
  then show ?thesis using assms(3) by (simp add: untouched_def)
qed

lemma deliver_run_on_the_way:
  assumes "fifo Q cont" and "msg_ok m" and "m_size m \<noteq> 0" and "deliver_run Q ch (calm Q cont) x y"
    and "on_the_way Q cont ch dead m g t (fst x) (snd x)" and "untouched g s0 (snd x)"
  shows "on_the_way Q cont ch dead m g t (fst y) (snd y) \<and> untouched g s0 (snd y)"
  using assms(4-6)
proof (induction rule: deliver_run.induct)
  case (own x pc s y)
  obtain pc' s' where y: "y = (pc', s')" by (cases y)
  have i: "on_the_way Q cont ch dead m g t pc s" "untouched g s0 s" using own.IH [OF own.prems] by simp_all
  have st: "deliver_step Q ch pc s = Inr (pc', s')" using own.hyps(2) y by simp
  show ?case using on_the_way_step [OF assms(1) i(1) st assms(2,3)] untouched_step [OF i(1) st i(2)] by (simp add: y)
next
  case (other x pc s s')
  have i: "on_the_way Q cont ch dead m g t pc s" "untouched g s0 s" using other.IH [OF other.prems] by simp_all
  show ?case using on_the_way_calm [OF i(1) other.hyps(2)] untouched_calm [OF i(2) other.hyps(2)] by simp
qed simp

text \<open>Steps of the router that are harmless.\<close>

lemma calm_arrive:
  assumes "router_act Q c l s (Act_Arrive fd bs e) = Inr s'"
  shows "calm Q cont s s'"
proof -
  have s': "s' = s\<lparr>sockets := (sockets s)(fd := map_option (\<lambda>k. k\<lparr>rx := rx k @ bs, rx_then := e\<rparr>) (sockets s fd))\<rparr>"
    using assms by (simp add: router_act_def)
  show ?thesis by (simp add: calm_def s' status_of_def queue_of_def)
qed

lemma calm_receive:
  assumes "fifo Q cont" and "status_of s fd = Some cf" and "fd \<notin> unintercepted s" and "\<not> is_direct s"
    and "sockets s fd = Some k" and "rx k = concat (map frame bodies)" and "rx_then k = Rx_Open"
    and "\<forall>b \<in> set bodies. length b < 2 ^ 32" and "do_receive Q fd s = Inr s'"
  shows "calm Q cont s s'"
proof -
  let ?ms = "map (rx_msg cf) bodies"
  have s': "s' = enqueue_all Q cf ?ms (set_rx fd [] s)"
    using do_receive_frames [OF assms(2-6,8)] assms(7,9) by simp
  have q: "\<exists>ms. cont (queue_of Q s' key) = cont (queue_of Q s key) @ ms" for key
  proof (cases "cs_disconnected cf")
    case True
    then show ?thesis by (simp add: s' enqueue_all_disconnected net_simps)
  next
    case False
    then show ?thesis using enqueue_all_contents [OF assms(1) False, of ?ms "set_rx fd [] s" key] by (simp add: s' net_simps)
  qed
  have "\<exists>n. s' = (set_rx fd [] s)\<lparr>network := n\<rparr>"
  proof (cases "cs_disconnected cf")
    case True
    then have "s' = (set_rx fd [] s)\<lparr>network := network (set_rx fd [] s)\<rparr>" by (simp add: s' enqueue_all_disconnected)
    then show ?thesis by blast
  qed (use enqueue_all_network in \<open>unfold s', blast\<close>)
  then have e: "status_of s' = status_of s" "cells s' = cells s" "next_cell s' = next_cell s"
    "sockets s' = sockets (set_rx fd [] s)"
    by (auto simp: fun_eq_iff set_rx_def status_of_def)
  show ?thesis using q by (simp add: calm_def e) (simp add: set_rx_def)
qed

lemma calm_accept:
  assumes "wf_net s" and "fresh_fds w s" and "on_listen c w l s = Inr s'"
  shows "calm Q cont s s'"
proof -
  have sk: "sockets s' g = Some k" if "sockets s g = Some k" for g k using on_listen_shape [OF assms(2,3)] that by blast
  have n: "queue_of Q s' = queue_of Q s" using on_listen_outcome [OF assms(1-3)] by (simp add: queue_of_def fun_eq_iff)
  consider "chan_status s' = chan_status s" "cells s' = cells s" "next_cell s' = next_cell s"
    | f g x y where "accepted s f g x y s'" using on_listen_shape [OF assms(2,3)] by blast
  then show ?thesis
  proof cases
    case 1
    then show ?thesis using sk by (auto simp: calm_def status_of_def n)
  next
    case (2 f g x y)
    note keep = accepted_keeps [OF assms(1) 2]
    have "next_cell s \<le> next_cell s'" using 2 by (simp add: accepted_def)
    then show ?thesis using sk keep(3,4) by (auto simp: calm_def n)
  qed
qed

section \<open>Properties\<close>

text \<open>C16: Left alone, the steps come to the end with exactly the result of the handler \<open>deliver_msg\<close>, whatever this
  is: a state, or the fault of an empty message.\<close>

theorem deliver_steps_are_deliver_msg:
  assumes "fifo Q cont"
  shows "\<exists>n. deliver_steps Q ch n D_Find s = and_then (deliver_msg Q ch None s) (\<lambda>s'. Inr (D_Done, s'))"
  using reaches_deliver_msg [OF assms] unfolding reaches_def .

theorem deliver_steps_are_deliver_msg_witness:
  "\<exists>n. deliver_steps list_queue example_channel n D_Find (example_net new_sock [example_msg [1]]) =
    and_then (deliver_msg list_queue example_channel None (example_net new_sock [example_msg [1]])) (\<lambda>s'. Inr (D_Done, s'))"
  by (rule deliver_steps_are_deliver_msg [OF fifo_list_queue])

text \<open>C15: A delivery is not disturbed by what the other thread does meanwhile, between any of its steps and as often as it likes, as
  long as this is calm (bytes that arrive, frames that are received and queued, new connections: \<open>calm_arrive\<close>, \<open>calm_receive\<close>,
  \<open>calm_accept\<close>): at the end the body of the first live message has been sent on its connection, once and whole, and nothing on
  any other descriptor.\<close>

theorem delivery_among_calm_steps:
  assumes "fifo Q cont" and "msgs_ok cont s" and "network s (chan_key ch) = Some q" and "cont q = dead @ m # rest"
    and "\<forall>d \<in> set dead. cells s (m_fd d) < 0" and "0 \<le> cells s (m_fd m)" and "msg_ok m" and "m_size m \<noteq> 0"
    and "status_of s (cells s (m_fd m)) = Some cs" and "\<not> cs_disconnected cs"
    and "sockets s (cells s (m_fd m)) = Some k" and "plan k = []"
    and "deliver_run Q ch (calm Q cont) (D_Find, s) (D_Done, s')"
  shows "(\<exists>k'. sockets s' (cells s (m_fd m)) = Some k' \<and> tx k' = tx k @ msg_body m) \<and>
    (\<forall>h k0. h \<noteq> cells s (m_fd m) \<longrightarrow> sockets s h = Some k0 \<longrightarrow> (\<exists>k1. sockets s' h = Some k1 \<and> tx k1 = tx k0))"
proof -
  have "m_fd d < next_cell s" if "d \<in> set dead \<or> d = m" for d
    using msgs_okD [OF assms(2,3), of d] assms(4) that by auto
  moreover have "cont (queue_of Q s (chan_key ch)) = drop 0 dead @ m # rest" using assms(3,4) by (simp add: queue_of_def)
  then have "\<exists>n rest. cont (queue_of Q s (chan_key ch)) = drop n dead @ m # rest" by blast
  ultimately have "on_the_way Q cont ch dead m (cells s (m_fd m)) (tx k) D_Find s"
    using assms(5,6,9-12) unfolding on_the_way_def by simp
  moreover have "untouched (cells s (m_fd m)) s s" by (simp add: untouched_def)
  ultimately show ?thesis
    using deliver_run_on_the_way [OF assms(1,7,8,13), of dead "cells s (m_fd m)" "tx k" s]
    by (auto simp: on_the_way_def untouched_def)
qed

lemma deliver_run_alone:
  "deliver_run Q ch R x (pc, s) \<Longrightarrow> deliver_steps Q ch n pc s = Inr y \<Longrightarrow> deliver_run Q ch R x y"
proof (induction n arbitrary: pc s)
  case (Suc n)
  obtain pc1 s1 where "deliver_step Q ch pc s = Inr (pc1, s1)" "deliver_steps Q ch n pc1 s1 = Inr y"
    using Suc.prems(2) by (auto simp: result_simps)
  then show ?case using Suc.IH deliver_run.own [OF Suc.prems(1)] by blast
qed simp

theorem delivery_among_calm_steps_witness:
  "\<exists>s1 s'. router_act list_queue init_config 3 (example_net new_sock [example_msg [1]]) (Act_Arrive 6 [7] Rx_Open) = Inr s1 \<and>
    deliver_run list_queue example_channel (calm list_queue id) (D_Dequeue, s1) (D_Done, s') \<and>
    map_option tx (sockets s' 6) = Some [1]"
proof -
  let ?s = "example_net new_sock [example_msg [1]]" and ?m = "example_msg [1]" and ?R = "calm list_queue id"
  define s1 where "s1 = ?s\<lparr>sockets := (sockets ?s)(6 \<mapsto> new_sock\<lparr>rx := [7]\<rparr>)\<rparr>"
  have a: "router_act list_queue init_config 3 ?s (Act_Arrive 6 [7] Rx_Open) = Inr s1"
    by (simp add: router_act_def s1_def example_net_def new_sock_def)
  have m: "m_fd ?m = 1" "msg_ok ?m" "m_size ?m \<noteq> 0"
    by (simp_all add: frame_msg_ok) (simp_all add: example_msg_def)
  have n: "network ?s (chan_key example_channel) = Some [?m]" "cells ?s 1 = 6" "sockets ?s 6 = Some new_sock" "plan new_sock = []"
    by (simp_all add: example_net_def new_sock_def)
  have sb: "same_but_sockets ?s s1" using n(3) by (simp add: same_but_sockets_def s1_def)
  note e = same_but_sockets_simps [OF sb]
  have st: "status_of s1 6 = Some \<lparr>cs_channel = example_reverse, cs_self = 1, cs_fd = 0, cs_disconnected = False\<rparr>"
    using example_status(2) [of new_sock "[?m]"] by (simp add: e)
  obtain s' where s': "deliver_msg list_queue example_channel None s1 = Inr s'"
    using deliver_msg_full [OF fifo_list_queue same_but_sockets_wf [OF sb example_wf], of example_channel "[?m]" "[]" ?m "[]"]
      n m st by (auto simp: e s1_def)
  obtain n1 where n1: "deliver_steps list_queue example_channel n1 D_Dequeue s1 = Inr (D_Done, s')"
    using reaches_queued [OF fifo_list_queue, of s1 example_channel "[?m]"] n(1) s' by (auto simp: reaches_def e)
  have "deliver_run list_queue example_channel ?R (D_Find, ?s) (D_Dequeue, ?s)"
    by (rule deliver_run.own [OF deliver_run.start]) (simp add: n(1))
  from deliver_run.other [OF this calm_arrive [OF a]]
  have r: "deliver_run list_queue example_channel ?R (D_Find, ?s) (D_Dequeue, s1)" .
  have "\<exists>k'. sockets s' 6 = Some k' \<and> tx k' = [1]"
    using delivery_among_calm_steps [OF fifo_list_queue example_msgs_ok n(1), of "[]" ?m "[]", OF _ _ _ _ m(2,3) _ _ _ n(4)
        deliver_run_alone [OF r n1]] example_status(2) [of new_sock "[?m]"] m(1) n(2,3) by (simp add: new_sock_def)
  then show ?thesis using a deliver_run_alone [OF deliver_run.start n1, of ?R] by fastforce
qed

lemma eof_closes:
  assumes "wf_net s" and "status_of s fd = Some cf" and "fd \<notin> unintercepted s" and "\<not> is_direct s"
    and "sockets s fd = Some k" and "rx k = []" and "rx_then k = Rx_Eof" and "status_of s (cells s (cs_fd cf)) = Some p"
  defines "s1 \<equiv> close_result fd False True (set_rx fd [] s)"
  shows "do_receive Q fd s = Inr s1" "wf_net s1" "next_cell s1 = next_cell s"
    "cells s1 (cs_fd cf) = - 1" "sockets s1 g = (if g = fd \<or> g = cells s (cs_fd cf) then None else sockets s g)"
proof -
  let ?t = "set_rx fd [] s"
  have sb: "same_but_sockets s ?t" using assms(5) by (auto simp: same_but_sockets_def set_rx_def)
  note t = same_but_sockets_simps [OF sb] and wt = same_but_sockets_wf [OF sb assms(1)]
  have st: "status_of ?t fd = Some cf" using assms(2) by (simp add: t)
  note c = close_result_closed [OF wt st]
  show "do_receive Q fd s = Inr s1"
    using do_receive_frames [OF assms(2-5), of "[]" Q] assms(6,7) close_connection_eq [OF wt] by (simp add: s1_def)
  show "wf_net s1" unfolding s1_def by (rule close_result_keeps_wf [OF wt st])
  show "next_cell s1 = next_cell s" by (simp add: s1_def net_simps t)
  show "cells s1 (cs_fd cf) = - 1" using c(2) by (simp add: s1_def)
  show "sockets s1 g = (if g = fd \<or> g = cells s (cs_fd cf) then None else sockets s g)"
    unfolding s1_def c(3) t using assms(8) by (simp add: set_rx_def)
qed

text \<open>C34: Between the reading of \<^verbatim>\<open>*msg.fd\<close> and the \<^verbatim>\<open>write\<close> with the number that was read, the thread of \<^verbatim>\<open>run_epoll\<close> can close the
  connection and accept another one, for which the kernel gives the same number. The cell of the message then says -1, but the body goes
  out all the same, on the new connection, whoever made it. The handlers as such never do this
  (\<open>closed_messages_stay_dead\<close>): the cell only protects a message until it is read.\<close>

theorem stale_descriptor_race:
  assumes "wf_net s" and "status_of s fd = Some cf" and "fd \<notin> unintercepted s" and "\<not> is_direct s"
    and "sockets s fd = Some k" and "rx k = []" and "rx_then k = Rx_Eof" and "status_of s (cells s (cs_fd cf)) = Some p"
    and "m_fd m = cs_fd cf" and "g = cells s (m_fd m)" and "0 < left"
    and "do_receive Q fd s = Inr s1" and "fresh_fds w s1" and "listen_fd \<noteq> - 1"
    and "w_accept w = Some (g, client)" and "w_sockname w g = Some origin"
    and "\<not> is_router_addr c origin" and "get_masquerade_addr c origin = Inr masque"
    and "w_socket w = Some h" and "w_setsockopt w ''IP_TRANSPARENT'' h"
    and "w_bind w h (origin\<lparr>sin_port := 0\<rparr>)" and "w_connect w h masque" and "w_epoll_add w g" and "w_epoll_add w h"
  shows "deliver_step Q ch (D_Write m left sz) s = Inr (D_Call m left g, s) \<and>
    (\<exists>s2 s3. on_listen c w listen_fd s1 = Inr s2 \<and> cells s2 (m_fd m) = - 1 \<and>
      map_option (chan_key \<circ> cs_channel) (status_of s2 g) =
        Some (key_of (client\<lparr>sin_port := 0\<rparr>), key_of (masque\<lparr>sin_port := 0\<rparr>)) \<and>
      deliver_step Q ch (D_Call m left g) s2 = Inr (D_Write m 0 (Some (int left)), s3) \<and>
      sockets s3 g = Some (new_sock\<lparr>tx := take left (msg_body m)\<rparr>))"
proof -
  note e = eof_closes [OF assms(1-8)]
  have s1: "s1 = close_result fd False True (set_rx fd [] s)" using e(1) assms(12) by simp
  obtain s2 where s2: "on_listen c w listen_fd s1 = Inr s2" "status_of s2 = (status_of s1)
      (g \<mapsto> \<lparr>cs_channel = \<lparr>ch_first = client\<lparr>sin_port := 0\<rparr>, ch_second = masque\<lparr>sin_port := 0\<rparr>\<rparr>,
        cs_self = next_cell s1, cs_fd = Suc (next_cell s1), cs_disconnected = False\<rparr>,
      h \<mapsto> \<lparr>cs_channel = \<lparr>ch_first = masque\<lparr>sin_port := 0\<rparr>, ch_second = client\<lparr>sin_port := 0\<rparr>\<rparr>,
        cs_self = Suc (next_cell s1), cs_fd = next_cell s1, cs_disconnected = False\<rparr>)"
    "cells s2 = (cells s1)(next_cell s1 := g, Suc (next_cell s1) := h)"
    "sockets s2 = (sockets s1)(g \<mapsto> new_sock, h \<mapsto> new_sock)"
    using on_listen_pair [OF e(2) [folded s1] assms(13-24)] by blast
  have gh: "g \<noteq> h" using assms(13,15,19) by (auto simp: fresh_fds_def)
  have "cs_fd cf < next_cell s" using entry_owned(1) [OF assms(1,2)] by (simp add: entry_ok_def)
  then have "cells s2 (m_fd m) = - 1" using e(3,4) by (simp add: s2(3) assms(9) s1)
  moreover have "sockets s2 g = Some new_sock" using gh by (simp add: s2(4))
  then have "k_write g (msg_body m) left s2 =
      (int left, s2\<lparr>sockets := (sockets s2)(g \<mapsto> new_sock\<lparr>tx := take left (msg_body m)\<rparr>)\<rparr>)"
    by (simp add: k_write_def new_sock_def)
  then have "deliver_step Q ch (D_Call m left g) s2 = Inr (D_Write m 0 (Some (int left)),
      s2\<lparr>sockets := (sockets s2)(g \<mapsto> new_sock\<lparr>tx := take left (msg_body m)\<rparr>)\<rparr>)"
    by simp
  ultimately show ?thesis using s2(1,2) gh assms(10,11) by (auto simp: chan_key_def)
qed

text \<open>The client at 6 hangs up while the operator delivers its message to 5; the next client, from port 80 of another
  address, gets number 5.\<close>

definition racing_world :: world where
  "racing_world = example_world\<lparr>w_accept := Some (5, \<lparr>sin_family = AF_INET, sin_port = 80, s_addr = 3\<rparr>),
     w_sockname := [5 \<mapsto> \<lparr>sin_family = AF_INET, sin_port = 9, s_addr = 2\<rparr>]\<rparr>"

theorem stale_descriptor_race_witness:
  "\<exists>s1 s2 s3. do_receive list_queue 6 (example_net (new_sock\<lparr>rx_then := Rx_Eof\<rparr>) []) = Inr s1 \<and>
    on_listen init_config racing_world 3 s1 = Inr s2 \<and>
    deliver_step list_queue example_reverse (D_Call ((example_msg [9])\<lparr>m_fd := 0\<rparr>) 1 5) s2 =
      Inr (D_Write ((example_msg [9])\<lparr>m_fd := 0\<rparr>) 0 (Some 1), s3) \<and>
    sockets s3 5 = Some (new_sock\<lparr>tx := [9]\<rparr>)"
proof -
  let ?k = "new_sock\<lparr>rx_then := Rx_Eof\<rparr>" and ?m = "(example_msg [9])\<lparr>m_fd := 0\<rparr>"
  let ?s = "example_net ?k []"
  have b: "6 \<notin> unintercepted ?s" "\<not> is_direct ?s" "sockets ?s 6 = Some ?k" "rx ?k = []" "rx_then ?k = Rx_Eof"
    "cells ?s 0 = 5" "sockets ?s 8 = None"
    by (simp_all add: example_net_def new_sock_def)
  note e = eof_closes [OF example_wf example_status(2) b(1-5), unfolded channel_status.simps b(6), OF example_status(1)]
  have body: "msg_body ?m = [9]" using msg_body_example [of "[9]"] by (simp add: msg_body_def)
  have fr: "fresh_fds racing_world (close_result 6 False True (set_rx 6 [] ?s))"
    by (simp add: fresh_fds_def racing_world_def example_world_def e(5) b(7))
  have w: "w_accept racing_world = Some (5, \<lparr>sin_family = AF_INET, sin_port = 80, s_addr = 3\<rparr>)"
    "w_sockname racing_world 5 = Some \<lparr>sin_family = AF_INET, sin_port = 9, s_addr = 2\<rparr>"
    "w_socket racing_world = Some 8" "w_setsockopt racing_world o8 8" "w_bind racing_world 8 a"
    "w_connect racing_world 8 a" "w_epoll_add racing_world 5" "w_epoll_add racing_world 8" for o8 a
    by (simp_all add: racing_world_def example_world_def)
  have "\<exists>s2 s3. on_listen init_config racing_world 3 (close_result 6 False True (set_rx 6 [] ?s)) = Inr s2 \<and>
      deliver_step list_queue example_reverse (D_Call ?m 1 5) s2 = Inr (D_Write ?m 0 (Some 1), s3) \<and>
      sockets s3 5 = Some (new_sock\<lparr>tx := [9]\<rparr>)"
    using stale_descriptor_race [OF example_wf example_status(2) b(1-5), of _ ?m 5 1 list_queue _ racing_world 3, unfolded channel_status.simps b(6),
        OF example_status(1) _ _ _ e(1) fr _ w(1,2) example_world_ok(3) example_masquerade w(3-8)] body b(6)
    by auto
  then show ?thesis using e(1) by blast
qed

end
