(* ===== verification/Fifo_Network.thy ===== *)
theory Fifo_Network
  imports Prelude "HOL-Library.Sublist"
begin

text \<open>
  The network of the repository's own specification, \<^verbatim>\<open>PySyncObjTLA/FifoNetwork.tla\<close>: the module that test
  traces are generated from and that the router has to reproduce. One FIFO sequence for each pair of
  nodes, a list of sets of connected nodes, and counters. The actions that a specification
  builds from the module's API are the steps of \<open>fifo_step\<close>; their labels say what a trace records (\<^verbatim>\<open>_netcmd\<close>). Theory
  \<open>Net_Refine\<close> shows that the router implements it.
\<close>

section \<open>State\<close>

text \<open>\<^verbatim>\<open>_msgs\<close> and \<^verbatim>\<open>_netman\<close>. A stored message has lost its source and destination and got a number.\<close>

record ('n, 'm) fifo_net =
  fn_nodes :: "'n set"
  fn_msgs :: "'n \<Rightarrow> 'n \<Rightarrow> (nat \<times> 'm) list"
  fn_conn :: "'n set list"
  n_sent :: nat
  n_recv :: nat
  n_wire :: int
  n_part :: nat
  n_cure :: nat

definition init_fifo_network :: "'n set \<Rightarrow> ('n, 'm) fifo_net" where
  "init_fifo_network nodes = \<lparr>fn_nodes = nodes, fn_msgs = (\<lambda>_ _. []), fn_conn = [nodes], n_sent = 0, n_recv = 0,
     n_wire = 0, n_part = 0, n_cure = 0\<rparr>"

definition net_sum_wire :: "('n, 'm) fifo_net \<Rightarrow> int" where
  "net_sum_wire a = (\<Sum>s \<in> fn_nodes a. \<Sum>d \<in> fn_nodes a - {s}. int (length (fn_msgs a s d)))"

section \<open>Connections\<close>

definition add_conn :: "'n set \<Rightarrow> 'n set list \<Rightarrow> 'n set list" where
  "add_conn nodes conn =
     (if card nodes \<le> 1 \<or> filter (\<lambda>p. nodes \<subseteq> p) conn \<noteq> [] then conn
      else filter (\<lambda>p. \<not> p \<subseteq> nodes) conn @ [nodes])"

fun del_conn :: "'n set \<Rightarrow> 'n set list \<Rightarrow> 'n set list" where
  "del_conn nodes [] = []"
| "del_conn nodes (p # ps) = (if card (p - nodes) \<le> 1 then del_conn nodes ps else (p - nodes) # del_conn nodes ps)"

definition part_conn :: "'n set \<Rightarrow> 'n set list \<Rightarrow> 'n set list" where
  "part_conn nodes conn = add_conn nodes (del_conn nodes conn)"

definition flush_msgs :: "'n set \<Rightarrow> ('n \<Rightarrow> 'n \<Rightarrow> (nat \<times> 'm) list) \<Rightarrow> 'n \<Rightarrow> 'n \<Rightarrow> (nat \<times> 'm) list" where
  "flush_msgs part msgs s d = (if (if s \<in> part then d \<notin> part else d \<in> part) then [] else msgs s d)"

definition flush_msgs_del :: "'n set \<Rightarrow> ('n \<Rightarrow> 'n \<Rightarrow> (nat \<times> 'm) list) \<Rightarrow> 'n \<Rightarrow> 'n \<Rightarrow> (nat \<times> 'm) list" where
  "flush_msgs_del deleted msgs s d = (if s \<in> deleted \<or> d \<in> deleted then [] else msgs s d)"

definition net_add_conn :: "'n set \<Rightarrow> ('n, 'm) fifo_net \<Rightarrow> ('n, 'm) fifo_net" where
  "net_add_conn nodes a = a\<lparr>fn_conn := add_conn nodes (fn_conn a)\<rparr>"

text \<open>With \<^verbatim>\<open>FLUSH_DISCONN\<close> the sum is taken of the sequences before they are emptied, as the module has it.\<close>

definition net_del_conn :: "bool \<Rightarrow> 'n set \<Rightarrow> ('n, 'm) fifo_net \<Rightarrow> ('n, 'm) fifo_net" where
  "net_del_conn flush nodes a =
     (if flush
      then a\<lparr>fn_conn := del_conn nodes (fn_conn a), n_wire := net_sum_wire a,
             fn_msgs := flush_msgs_del nodes (fn_msgs a)\<rparr>
      else a\<lparr>fn_conn := del_conn nodes (fn_conn a)\<rparr>)"

definition net_part_conn :: "bool \<Rightarrow> 'n set \<Rightarrow> ('n, 'm) fifo_net \<Rightarrow> ('n, 'm) fifo_net" where
  "net_part_conn flush nodes a =
     (if flush
      then a\<lparr>fn_conn := part_conn nodes (fn_conn a), n_wire := net_sum_wire a, n_part := n_part a + 1,
             fn_msgs := flush_msgs nodes (fn_msgs a)\<rparr>
      else a\<lparr>fn_conn := part_conn nodes (fn_conn a), n_part := n_part a + 1\<rparr>)"

definition net_cure_conn :: "('n, 'm) fifo_net \<Rightarrow> ('n, 'm) fifo_net" where
  "net_cure_conn a = a\<lparr>fn_conn := [fn_nodes a], n_cure := n_cure a + 1\<rparr>"

definition net_is_conn :: "('n, 'm) fifo_net \<Rightarrow> 'n \<Rightarrow> 'n \<Rightarrow> bool" where
  "net_is_conn a s d \<longleftrightarrow> filter (\<lambda>p. {s, d} \<subseteq> p) (fn_conn a) \<noteq> []"

definition net_is_parted :: "('n, 'm) fifo_net \<Rightarrow> bool" where
  "net_is_parted a \<longleftrightarrow> length (fn_conn a) \<noteq> 1 \<or> hd (fn_conn a) \<noteq> fn_nodes a"

section \<open>Messages\<close>

text \<open>\<^verbatim>\<open>_AddMsgSrcDstSeq\<close>: how many messages were added, and the sequences.\<close>

definition add_msg_seq ::
  "('n, 'm) fifo_net \<Rightarrow> 'n \<Rightarrow> 'n \<Rightarrow> nat \<Rightarrow> 'm \<Rightarrow> ('n \<Rightarrow> 'n \<Rightarrow> (nat \<times> 'm) list) \<Rightarrow>
     nat \<times> ('n \<Rightarrow> 'n \<Rightarrow> (nat \<times> 'm) list)" where
  "add_msg_seq a s d seq m msgs =
     (if net_is_conn a s d then (1, msgs(s := (msgs s)(d := msgs s d @ [(seq, m)]))) else (0, msgs))"

definition net_add_msg :: "'n \<Rightarrow> 'n \<Rightarrow> 'm \<Rightarrow> ('n, 'm) fifo_net \<Rightarrow> ('n, 'm) fifo_net" where
  "net_add_msg s d m a =
     (case add_msg_seq a s d (n_sent a + 1) m (fn_msgs a) of (n, msgs) \<Rightarrow>
        if n = 1 then a\<lparr>n_wire := n_wire a + 1, n_sent := n_sent a + 1, fn_msgs := msgs\<rparr>
        else a\<lparr>fn_msgs := msgs\<rparr>)"

text \<open>\<^verbatim>\<open>_BatchAddMsgs\<close>; the messages of a batch have their own sources and destinations.\<close>

fun batch_add_msgs ::
  "('n, 'm) fifo_net \<Rightarrow> ('n \<times> 'n \<times> 'm) list \<Rightarrow> nat \<times> ('n \<Rightarrow> 'n \<Rightarrow> (nat \<times> 'm) list) \<Rightarrow>
     nat \<times> ('n \<Rightarrow> 'n \<Rightarrow> (nat \<times> 'm) list)" where
  "batch_add_msgs a [] r = r"
| "batch_add_msgs a ((s, d, m) # ms) (n, msgs) =
     (case add_msg_seq a s d (n_sent a + n + 1) m msgs of (k, msgs') \<Rightarrow> batch_add_msgs a ms (k + n, msgs'))"

definition net_batch_add_msg :: "('n \<times> 'n \<times> 'm) list \<Rightarrow> ('n, 'm) fifo_net \<Rightarrow> ('n, 'm) fifo_net" where
  "net_batch_add_msg ms a =
     (case batch_add_msgs a ms (0, fn_msgs a) of (n, msgs) \<Rightarrow>
        a\<lparr>n_sent := n_sent a + n, n_wire := n_wire a + int n, fn_msgs := msgs\<rparr>)"

definition net_get_msg :: "'n \<Rightarrow> 'n \<Rightarrow> ('n, 'm) fifo_net \<Rightarrow> (nat \<times> 'm) option" where
  "net_get_msg s d a = (if 0 < length (fn_msgs a s d) then Some (hd (fn_msgs a s d)) else None)"

text \<open>\<^verbatim>\<open>_DelMsg\<close>: \<open>None\<close> is the failed assertion.\<close>

definition del_msg ::
  "'n \<Rightarrow> 'n \<Rightarrow> nat \<Rightarrow> ('n \<Rightarrow> 'n \<Rightarrow> (nat \<times> 'm) list) \<Rightarrow> ('n \<Rightarrow> 'n \<Rightarrow> (nat \<times> 'm) list) option" where
  "del_msg s d seq msgs =
     (if msgs s d \<noteq> [] \<and> fst (hd (msgs s d)) = seq then Some (msgs(s := (msgs s)(d := tl (msgs s d)))) else None)"

definition net_del_msg :: "'n \<Rightarrow> 'n \<Rightarrow> nat \<Rightarrow> ('n, 'm) fifo_net \<Rightarrow> ('n, 'm) fifo_net option" where
  "net_del_msg s d seq a =
     map_option (\<lambda>msgs. a\<lparr>n_wire := n_wire a - 1, n_recv := n_recv a + 1, fn_msgs := msgs\<rparr>)
       (del_msg s d seq (fn_msgs a))"

text \<open>\<^verbatim>\<open>NetReplyMsg\<close>: the request from \<open>s\<close> to \<open>d\<close> is taken out and the response goes back.\<close>

definition net_reply_msg :: "'m \<Rightarrow> 'n \<Rightarrow> 'n \<Rightarrow> nat \<Rightarrow> ('n, 'm) fifo_net \<Rightarrow> ('n, 'm) fifo_net option" where
  "net_reply_msg response s d seq a =
     map_option (\<lambda>msgs1.
       case add_msg_seq a d s (n_sent a + 1) response msgs1 of (n, msgs) \<Rightarrow>
         if n = 1 then a\<lparr>n_sent := n_sent a + 1, n_recv := n_recv a + 1, fn_msgs := msgs\<rparr>
         else a\<lparr>n_wire := n_wire a - 1, n_recv := n_recv a + 1, fn_msgs := msgs\<rparr>)
       (del_msg s d seq (fn_msgs a))"

section \<open>Steps\<close>

datatype ('n, 'm) label =
    Lb_Send 'n 'n "'m list"
  | Lb_Deliver 'n 'n 'm
  | Lb_Isolate 'n
  | Lb_Cure
  | Lb_Idle

inductive fifo_step :: "bool \<Rightarrow> ('n, 'm) fifo_net \<Rightarrow> ('n, 'm) label \<Rightarrow> ('n, 'm) fifo_net \<Rightarrow> bool" for flush where
  send: "s \<in> fn_nodes a \<Longrightarrow> d \<in> fn_nodes a \<Longrightarrow> s \<noteq> d \<Longrightarrow>
    fifo_step flush a (Lb_Send s d ms) (net_batch_add_msg (map (\<lambda>m. (s, d, m)) ms) a)"
| deliver: "net_get_msg s d a = Some (seq, m) \<Longrightarrow> net_del_msg s d seq a = Some a' \<Longrightarrow>
    fifo_step flush a (Lb_Deliver s d m) a'"
| isolate: "n \<in> fn_nodes a \<Longrightarrow> fifo_step flush a (Lb_Isolate n) (net_del_conn flush {n} a)"
| cure: "fifo_step flush a Lb_Cure (net_cure_conn a)"
| idle: "fifo_step flush a Lb_Idle a"

inductive_cases fifo_stepE: "fifo_step flush a l a'"

inductive fifo_run :: "bool \<Rightarrow> ('n, 'm) fifo_net \<Rightarrow> ('n, 'm) label list \<Rightarrow> ('n, 'm) fifo_net \<Rightarrow> bool" for flush where
  none: "fifo_run flush a [] a"
| more: "fifo_step flush a l b \<Longrightarrow> fifo_run flush b ls c \<Longrightarrow> fifo_run flush a (l # ls) c"

text \<open>What a trace says that was sent and delivered between two nodes.\<close>

fun sent_in :: "'n \<Rightarrow> 'n \<Rightarrow> ('n, 'm) label list \<Rightarrow> 'm list" where
  "sent_in s d [] = []"
| "sent_in s d (Lb_Send x y ms # ls) = (if x = s \<and> y = d then ms @ sent_in s d ls else sent_in s d ls)"
| "sent_in s d (_ # ls) = sent_in s d ls"

fun delivered_in :: "'n \<Rightarrow> 'n \<Rightarrow> ('n, 'm) label list \<Rightarrow> 'm list" where
  "delivered_in s d [] = []"
| "delivered_in s d (Lb_Deliver x y m # ls) =
     (if x = s \<and> y = d then m # delivered_in s d ls else delivered_in s d ls)"
| "delivered_in s d (_ # ls) = delivered_in s d ls"

section \<open>Lemmas\<close>

lemma batch_add_one:
  "batch_add_msgs a (map (\<lambda>m. (s, d, m)) ms) (n, msgs) =
    (if net_is_conn a s d
     then (n + length ms, msgs(s := (msgs s)(d := msgs s d @
       zip [n_sent a + n + 1..<n_sent a + n + 1 + length ms] ms)))
     else (n, msgs))"
proof (induction ms arbitrary: n msgs)
  case Nil
  then show ?case by simp
next
  case (Cons m ms)
  have "[n_sent a + n + 1..<n_sent a + n + 1 + length (m # ms)] =
      (n_sent a + n + 1) # [n_sent a + Suc n + 1..<n_sent a + Suc n + 1 + length ms]"
    by (subst upt_conv_Cons) (simp_all del: upt_Suc)
  with Cons.IH [of "Suc n"] show ?case using Cons.IH [of n] by (simp add: add_msg_seq_def fun_eq_iff del: upt_Suc)
qed

text \<open>A batch for one channel: the stored messages without their numbers.\<close>

lemma batch_msgs:
  "map snd (fn_msgs (net_batch_add_msg (map (\<lambda>m. (s, d, m)) ms) a) x y) =
    map snd (fn_msgs a x y) @ (if net_is_conn a s d \<and> x = s \<and> y = d then ms else [])"
  by (simp add: net_batch_add_msg_def batch_add_one Suc_le_eq)

lemma batch_frame [simp]:
  "fn_nodes (net_batch_add_msg (map (\<lambda>m. (s, d, m)) ms) a) = fn_nodes a"
  "fn_conn (net_batch_add_msg (map (\<lambda>m. (s, d, m)) ms) a) = fn_conn a"
  by (simp_all add: net_batch_add_msg_def batch_add_one)

lemma net_is_conn_iff: "net_is_conn a s d \<longleftrightarrow> (\<exists>p \<in> set (fn_conn a). s \<in> p \<and> d \<in> p)"
  by (auto simp: net_is_conn_def filter_empty_conv)

lemma net_is_conn_sym: "net_is_conn a s d = net_is_conn a d s"
  by (auto simp: net_is_conn_iff)

lemma del_conn_filter: "del_conn nodes conn = filter (\<lambda>p. 1 < card p) (map (\<lambda>p. p - nodes) conn)"
  by (induction conn) (simp_all add: not_le)

lemma set_del_conn: "p \<in> set (del_conn nodes conn) \<longleftrightarrow> (\<exists>q \<in> set conn. p = q - nodes \<and> 1 < card p)"
  by (auto simp: del_conn_filter)

text \<open>Isolating nodes cuts exactly the pairs with one of them.\<close>

lemma del_conn_is_conn:
  assumes "\<forall>p \<in> set (fn_conn a). finite p" and "s \<noteq> d"
  shows "net_is_conn (net_del_conn flush nodes a) s d \<longleftrightarrow> net_is_conn a s d \<and> s \<notin> nodes \<and> d \<notin> nodes"
proof -
  have c: "1 < card (p - nodes)" if "p \<in> set (fn_conn a)" "s \<in> p - nodes" "d \<in> p - nodes" for p
  proof -
    have "card {s, d} \<le> card (p - nodes)"
      using that assms(1) by (intro card_mono) auto
    then show ?thesis using assms(2) by simp
  qed
  have "net_is_conn (net_del_conn flush nodes a) s d \<longleftrightarrow>
      (\<exists>p \<in> set (fn_conn a). 1 < card (p - nodes) \<and> s \<in> p - nodes \<and> d \<in> p - nodes)"
    unfolding net_is_conn_iff by (auto simp: net_del_conn_def del_conn_filter)
  also have "\<dots> \<longleftrightarrow> (\<exists>p \<in> set (fn_conn a). s \<in> p - nodes \<and> d \<in> p - nodes)"
    by (rule bex_cong [OF refl]) (use c in auto)
  also have "\<dots> \<longleftrightarrow> net_is_conn a s d \<and> s \<notin> nodes \<and> d \<notin> nodes"
    by (auto simp: net_is_conn_iff)
  finally show ?thesis .
qed

lemma net_del_msg_Some:
  "net_del_msg s d seq a = Some a' \<longleftrightarrow>
    (\<exists>m ms. fn_msgs a s d = (seq, m) # ms \<and>
      a' = a\<lparr>n_wire := n_wire a - 1, n_recv := n_recv a + 1, fn_msgs := (fn_msgs a)(s := (fn_msgs a s)(d := ms))\<rparr>)"
  by (cases "fn_msgs a s d") (auto simp: net_del_msg_def del_msg_def)

lemma deliver_head:
  assumes "map snd (fn_msgs a s d) = m # ms"
  shows "\<exists>a'. fifo_step flush a (Lb_Deliver s d m) a' \<and> fn_nodes a' = fn_nodes a \<and> fn_conn a' = fn_conn a \<and>
    (\<forall>x y. map snd (fn_msgs a' x y) = (if x = s \<and> y = d then ms else map snd (fn_msgs a x y)))"
proof -
  obtain seq r where r: "fn_msgs a s d = (seq, m) # r" "map snd r = ms" using assms by (cases "fn_msgs a s d") auto
  have g: "net_get_msg s d a = Some (seq, m)" by (simp add: net_get_msg_def r)
  show ?thesis
    by (intro exI conjI, rule fifo_step.deliver [OF g], unfold net_del_msg_Some, intro exI conjI,
        rule r(1), rule refl) (simp_all add: r)
qed

section \<open>Properties of the specification\<close>

text \<open>The state's type, as \<^verbatim>\<open>TypeOkFifoNetwork\<close> has it and stricter: messages only between different nodes, numbered
  upwards by numbers that were given out, connections only between nodes, and without flushing the
  counters account for every message.\<close>

definition counted_msgs :: "('n, 'm) fifo_net \<Rightarrow> bool" where
  "counted_msgs a \<longleftrightarrow> n_wire a = net_sum_wire a \<and> int (n_sent a) = int (n_recv a) + n_wire a"

definition fifo_type_ok :: "bool \<Rightarrow> ('n, 'm) fifo_net \<Rightarrow> bool" where
  "fifo_type_ok flush a \<longleftrightarrow>
     finite (fn_nodes a) \<and> (\<forall>p \<in> set (fn_conn a). p \<subseteq> fn_nodes a) \<and>
     (\<forall>s d. s \<notin> fn_nodes a \<or> d \<notin> fn_nodes a \<or> s = d \<longrightarrow> fn_msgs a s d = []) \<and>
     (\<forall>s d. sorted_wrt (<) (map fst (fn_msgs a s d)) \<and> (\<forall>x \<in> set (fn_msgs a s d). fst x \<le> n_sent a)) \<and>
     (\<not> flush \<longrightarrow> counted_msgs a)"

lemma net_sum_wire_upd:
  assumes "finite (fn_nodes a)" and "s \<in> fn_nodes a" and "d \<in> fn_nodes a" and "s \<noteq> d"
  shows "net_sum_wire (a\<lparr>fn_msgs := (fn_msgs a)(s := (fn_msgs a s)(d := ms))\<rparr>) =
    net_sum_wire a + int (length ms) - int (length (fn_msgs a s d))"
proof -
  let ?f = "\<lambda>msgs x y. int (length (msgs x y))" and ?N = "fn_nodes a"
  let ?m = "(fn_msgs a)(s := (fn_msgs a s)(d := ms))"
  have split: "(\<Sum>x \<in> ?N. \<Sum>y \<in> ?N - {x}. ?f g x y) =
      ?f g s d + (\<Sum>y \<in> ?N - {s} - {d}. ?f g s y) + (\<Sum>x \<in> ?N - {s}. \<Sum>y \<in> ?N - {x}. ?f g x y)" for g
  proof -
    have "(\<Sum>x \<in> ?N. \<Sum>y \<in> ?N - {x}. ?f g x y) =
        (\<Sum>y \<in> ?N - {s}. ?f g s y) + (\<Sum>x \<in> ?N - {s}. \<Sum>y \<in> ?N - {x}. ?f g x y)"
      by (rule sum.remove) (use assms in simp_all)
    also have "(\<Sum>y \<in> ?N - {s}. ?f g s y) = ?f g s d + (\<Sum>y \<in> ?N - {s} - {d}. ?f g s y)"
      by (rule sum.remove) (use assms in auto)
    finally show ?thesis .
  qed
  have "(\<Sum>y \<in> ?N - {s} - {d}. ?f ?m s y) = (\<Sum>y \<in> ?N - {s} - {d}. ?f (fn_msgs a) s y)"
    by (rule sum.cong) auto
  moreover have "(\<Sum>x \<in> ?N - {s}. \<Sum>y \<in> ?N - {x}. ?f ?m x y) = (\<Sum>x \<in> ?N - {s}. \<Sum>y \<in> ?N - {x}. ?f (fn_msgs a) x y)"
    by (intro sum.cong) auto
  ultimately show ?thesis
    unfolding net_sum_wire_def using split [of ?m] split [of "fn_msgs a"] by simp
qed

lemma net_add_wire:
  assumes "fifo_type_ok flush a" and "s \<in> fn_nodes a" and "d \<in> fn_nodes a" and "s \<noteq> d"
  shows "fifo_type_ok flush (net_batch_add_msg (map (\<lambda>m. (s, d, m)) ms) a)"
proof (cases "net_is_conn a s d")
  case False
  then have "net_batch_add_msg (map (\<lambda>m. (s, d, m)) ms) a = a"
    by (simp add: net_batch_add_msg_def batch_add_one)
  then show ?thesis using assms(1) by simp
next
  case True
  define new where "new = zip [n_sent a + 1..<n_sent a + 1 + length ms] ms"
  define b where "b = a\<lparr>fn_msgs := (fn_msgs a)(s := (fn_msgs a s)(d := fn_msgs a s d @ new))\<rparr>"
  have e: "net_batch_add_msg (map (\<lambda>m. (s, d, m)) ms) a =
      b\<lparr>n_sent := n_sent a + length ms, n_wire := n_wire a + int (length ms)\<rparr>"
    using True by (simp add: net_batch_add_msg_def batch_add_one b_def new_def del: upt_Suc)
  have nums: "map fst new = [n_sent a + 1..<n_sent a + 1 + length ms]"
    unfolding new_def by (rule map_fst_zip) (simp del: upt_Suc)
  have num: "n_sent a < fst x \<and> fst x \<le> n_sent a + length ms" if "x \<in> set new" for x
  proof -
    have "fst x \<in> set (map fst new)" using that by simp
    then show ?thesis unfolding nums by auto
  qed
  have len: "length new = length ms" by (simp add: new_def del: upt_Suc)
  have t: "finite (fn_nodes a)" "\<forall>p \<in> set (fn_conn a). p \<subseteq> fn_nodes a"
    "\<And>x y. x \<notin> fn_nodes a \<or> y \<notin> fn_nodes a \<or> x = y \<Longrightarrow> fn_msgs a x y = []"
    "\<And>x y. sorted_wrt (<) (map fst (fn_msgs a x y))" "\<And>x y m. m \<in> set (fn_msgs a x y) \<Longrightarrow> fst m \<le> n_sent a"
    "\<not> flush \<Longrightarrow> counted_msgs a"
    using assms(1) unfolding fifo_type_ok_def by blast+
  have "sorted_wrt (<) (map fst (fn_msgs a s d) @ map fst new)"
    using t(4) [of s d] t(5) [of _ s d] num by (fastforce simp: sorted_wrt_append nums simp del: upt_Suc)
  moreover have "net_sum_wire b = net_sum_wire a + int (length ms)"
    using net_sum_wire_upd [OF t(1) assms(2-4)] by (simp add: b_def len)
  ultimately show ?thesis
    unfolding e using t assms(2-4) num
    by (auto simp: fifo_type_ok_def b_def counted_msgs_def net_sum_wire_def dest: t(5) intro: order.trans)
qed

lemma fifo_type_okD:
  assumes "fifo_type_ok flush a"
  shows "finite (fn_nodes a)" "p \<in> set (fn_conn a) \<Longrightarrow> p \<subseteq> fn_nodes a"
    "s \<notin> fn_nodes a \<or> d \<notin> fn_nodes a \<or> s = d \<Longrightarrow> fn_msgs a s d = []"
    "sorted_wrt (<) (map fst (fn_msgs a s d))" "x \<in> set (fn_msgs a s d) \<Longrightarrow> fst x \<le> n_sent a"
    "\<not> flush \<Longrightarrow> counted_msgs a"
  using assms unfolding fifo_type_ok_def by blast+

lemma fifo_type_init: "finite nodes \<Longrightarrow> fifo_type_ok flush (init_fifo_network nodes)"
  by (simp add: fifo_type_ok_def init_fifo_network_def counted_msgs_def net_sum_wire_def)

lemma fifo_type_deliver:
  assumes "fifo_type_ok flush a" and "net_del_msg s d seq a = Some a'"
  shows "fifo_type_ok flush a'"
proof -
  note t = fifo_type_okD [OF assms(1)]
  obtain m ms where m: "fn_msgs a s d = (seq, m) # ms"
    and a': "a' = a\<lparr>n_wire := n_wire a - 1, n_recv := n_recv a + 1, fn_msgs := (fn_msgs a)(s := (fn_msgs a s)(d := ms))\<rparr>"
    using assms(2) by (auto simp: net_del_msg_Some)
  have sd: "s \<in> fn_nodes a" "d \<in> fn_nodes a" "s \<noteq> d" using t(3) [of s d] m by auto
  have "net_sum_wire (a\<lparr>fn_msgs := (fn_msgs a)(s := (fn_msgs a s)(d := ms))\<rparr>) = net_sum_wire a - 1"
    using net_sum_wire_upd [OF t(1) sd] by (simp add: m)
  moreover have "sorted_wrt (<) (map fst ms)" "\<forall>x \<in> set ms. fst x \<le> n_sent a"
    using t(4) [of s d] t(5) [of _ s d] by (auto simp: m)
  ultimately show ?thesis
    unfolding a' using t sd
    by (auto simp: fifo_type_ok_def counted_msgs_def net_sum_wire_def dest: t(5))
qed

lemma fifo_type_isolate: "fifo_type_ok flush a \<Longrightarrow> fifo_type_ok flush (net_del_conn flush nodes a)"
  by (cases flush) (fastforce simp: fifo_type_ok_def net_del_conn_def del_conn_filter flush_msgs_del_def
      counted_msgs_def net_sum_wire_def)+

lemma fifo_type_cure: "fifo_type_ok flush a \<Longrightarrow> fifo_type_ok flush (net_cure_conn a)"
  by (simp add: fifo_type_ok_def net_cure_conn_def counted_msgs_def net_sum_wire_def)

lemma fifo_type_step: "fifo_step flush a l a' \<Longrightarrow> fifo_type_ok flush a \<Longrightarrow> fifo_type_ok flush a'"
  by (erule fifo_stepE)
    (auto intro: net_add_wire fifo_type_deliver fifo_type_isolate fifo_type_cure)

text \<open>One step, seen from one channel.\<close>

lemma fifo_step_channel:
  assumes "fifo_step flush a l a'"
  shows "subseq (delivered_in s d [l] @ map snd (fn_msgs a' s d)) (map snd (fn_msgs a s d) @ sent_in s d [l])"
  using assms
proof (cases rule: fifo_step.cases)
  case (send x y ms)
  then show ?thesis by (auto simp: batch_msgs intro: prefix_imp_subseq)
next
  case (deliver x y seq m)
  then show ?thesis by (auto simp: net_del_msg_Some net_get_msg_def)
qed (auto simp: net_del_conn_def flush_msgs_del_def net_cure_conn_def)

text \<open>Without isolation every pair of nodes stays connected and nothing gets lost.\<close>

lemma fifo_run_lossless:
  assumes "fifo_run flush a ls a'" and "\<forall>n. Lb_Isolate n \<notin> set ls" and "\<exists>p \<in> set (fn_conn a). fn_nodes a \<subseteq> p"
  shows "delivered_in s d ls @ map snd (fn_msgs a' s d) = map snd (fn_msgs a s d) @ sent_in s d ls"
  using assms
proof (induction rule: fifo_run.induct)
  case (none a)
  then show ?case by simp
next
  case (more a l b ls c)
  have conn: "net_is_conn a x y" if "x \<in> fn_nodes a" "y \<in> fn_nodes a" for x y
    using more.prems(2) that by (auto simp: net_is_conn_iff)
  have one: "delivered_in s d [l] @ map snd (fn_msgs b s d) = map snd (fn_msgs a s d) @ sent_in s d [l]"
    using more.hyps(1)
  proof (cases rule: fifo_step.cases)
    case (send x y ms)
    then show ?thesis using conn by (simp add: batch_msgs)
  next
    case (deliver x y seq m)
    then show ?thesis by (auto simp: net_del_msg_Some net_get_msg_def)
  qed (use more.prems(1) in \<open>auto simp: net_cure_conn_def\<close>)
  have whole: "\<exists>p \<in> set (fn_conn b). fn_nodes b \<subseteq> p"
    using more.hyps(1)
  proof (cases rule: fifo_step.cases)
    case (deliver x y seq m)
    then have "fn_conn b = fn_conn a" "fn_nodes b = fn_nodes a" by (auto simp: net_del_msg_Some)
    then show ?thesis using more.prems(2) by simp
  qed (use more.prems in \<open>auto simp: net_cure_conn_def\<close>)
  have split: "sent_in s d (l # ls) = sent_in s d [l] @ sent_in s d ls"
    "delivered_in s d (l # ls) = delivered_in s d [l] @ delivered_in s d ls"
    by (cases l; simp)+
  have "delivered_in s d ls @ map snd (fn_msgs c s d) = map snd (fn_msgs b s d) @ sent_in s d ls"
    using more.IH whole more.prems(1) by simp
  then show ?case using one unfolding split by (metis append.assoc)
qed

section \<open>Claims about the specification\<close>



text \<open>Along every run, what is delivered from one node to another and what is still on the way is, in order, part of what was on
  the way and was sent: nothing is invented, doubled or reordered.\<close>

theorem fifo_network_in_order:
  assumes "fifo_run flush a ls a'"
  shows "subseq (delivered_in s d ls @ map snd (fn_msgs a' s d)) (map snd (fn_msgs a s d) @ sent_in s d ls)"
  using assms
proof (induction rule: fifo_run.induct)
  case (none a)
  then show ?case by simp
next
  case (more a l b ls c)
  have split: "sent_in s d (l # ls) = sent_in s d [l] @ sent_in s d ls"
    "delivered_in s d (l # ls) = delivered_in s d [l] @ delivered_in s d ls"
    by (cases l; simp)+
  have "subseq (delivered_in s d [l] @ delivered_in s d ls @ map snd (fn_msgs c s d))
      (delivered_in s d [l] @ map snd (fn_msgs b s d) @ sent_in s d ls)"
    using more.IH by (simp only: subseq_append')
  moreover have "subseq ((delivered_in s d [l] @ map snd (fn_msgs b s d)) @ sent_in s d ls)
      ((map snd (fn_msgs a s d) @ sent_in s d [l]) @ sent_in s d ls)"
    using fifo_step_channel [OF more.hyps(1)] by (simp only: subseq_append)
  ultimately show ?case unfolding split by (auto intro: subseq_order.trans)
qed

text \<open>With \<^verbatim>\<open>FLUSH_DISCONN\<close> the counter \<^verbatim>\<open>n_wire\<close> is wrong after a node has been isolated: it counts the messages that have just been
  dropped.\<close>

theorem flush_counts_dropped:
  assumes "\<forall>x \<in> fn_nodes a. \<forall>y \<in> fn_nodes a - {x}. x \<in> nodes \<or> y \<in> nodes"
  shows "n_wire (net_del_conn True nodes a) = net_sum_wire a \<and> net_sum_wire (net_del_conn True nodes a) = 0"
proof
  show "n_wire (net_del_conn True nodes a) = net_sum_wire a" by (simp add: net_del_conn_def)
  show "net_sum_wire (net_del_conn True nodes a) = 0"
    unfolding net_sum_wire_def using assms
    by (intro sum.neutral ballI) (auto simp: net_del_conn_def flush_msgs_del_def)
qed

end
