(* ===== verification/Net_Refine.thy ===== *)
theory Net_Refine
  imports Net_Run Fifo_Network
begin

text \<open>
  The router implements the network of the specification (\<open>Fifo_Network\<close>, with \<^verbatim>\<open>FLUSH_DISCONN\<close>): the frames that arrive,
  the deliveries, partitions and recoveries of the operator and new connections are steps of the
  specification, as long as the connections live. What is pending between two nodes are the bodies of the buffered
  messages that a delivery would still send. The relation also follows the set of nodes that the
  operator has isolated, which the router itself does not keep; the last section shows what goes wrong because it does
  not.
\<close>

section \<open>Abstraction\<close>

definition deliverable :: "'q net \<Rightarrow> msg \<Rightarrow> bool" where
  "deliverable s m =
     (case status_of s (cells s (m_fd m)) of None \<Rightarrow> False | Some p \<Rightarrow> \<not> cs_disconnected p)"

definition pending :: "('q, msg) queue_ops \<Rightarrow> ('q \<Rightarrow> msg list) \<Rightarrow> 'q net \<Rightarrow> chan_key \<Rightarrow> u8 list list" where
  "pending Q cont s k = map msg_body (filter (deliverable s) (cont (queue_of Q s k)))"

text \<open>Both ends of a connection are there with the same flag, and a buffered message is in the queue of its
  connection.\<close>

definition linked :: "'q net \<Rightarrow> bool" where
  "linked s \<longleftrightarrow> (\<forall>fd cs. status_of s fd = Some cs \<longrightarrow>
     (\<exists>p. status_of s (peer_of s fd) = Some p \<and> cs_disconnected p = cs_disconnected cs))"

definition at_home :: "'q net \<Rightarrow> chan_key \<Rightarrow> msg \<Rightarrow> bool" where
  "at_home s k m \<longleftrightarrow> m_fd m < next_cell s \<and> msg_ok m \<and> m_size m \<noteq> 0 \<and>
     (\<forall>p. status_of s (cells s (m_fd m)) = Some p \<longrightarrow> cs_self p = m_fd m \<and> chan_key (cs_channel p) = (snd k, fst k))"

definition homed :: "('q, msg) queue_ops \<Rightarrow> ('q \<Rightarrow> msg list) \<Rightarrow> 'q net \<Rightarrow> bool" where
  "homed Q cont s \<longleftrightarrow> (\<forall>k. \<forall>m \<in> set (cont (queue_of Q s k)). at_home s k m)"

definition whole_writes :: "'q net \<Rightarrow> bool" where
  "whole_writes s \<longleftrightarrow> (\<forall>g k. sockets s g = Some k \<longrightarrow> plan k = [])"

definition steady :: "('q, msg) queue_ops \<Rightarrow> ('q \<Rightarrow> msg list) \<Rightarrow> 'q net \<Rightarrow> bool" where
  "steady Q cont s \<longleftrightarrow> wf_net s \<and> linked s \<and> homed Q cont s \<and> \<not> is_direct s \<and> whole_writes s"

text \<open>The connections agree with the isolated nodes \<open>out\<close>, and so does the specification's state.\<close>

definition conns_agree :: "addr_key set \<Rightarrow> addr_key set \<Rightarrow> 'q net \<Rightarrow> bool" where
  "conns_agree nodes out s \<longleftrightarrow> (\<forall>fd cs x y. status_of s fd = Some cs \<and> chan_key (cs_channel cs) = (x, y) \<longrightarrow>
     x \<in> nodes \<and> y \<in> nodes \<and> x \<noteq> y \<and> (cs_disconnected cs \<longleftrightarrow> x \<in> out \<or> y \<in> out))"

definition implements ::
  "('q, msg) queue_ops \<Rightarrow> ('q \<Rightarrow> msg list) \<Rightarrow> 'q net \<times> addr_key set \<Rightarrow> (addr_key, u8 list) fifo_net \<Rightarrow> bool" where
  "implements Q cont si a \<longleftrightarrow> (case si of (s, out) \<Rightarrow>
     steady Q cont s \<and> conns_agree (fn_nodes a) out s \<and> finite (fn_nodes a) \<and>
     (\<forall>x y. map snd (fn_msgs a x y) = pending Q cont s (x, y)) \<and>
     (\<forall>p \<in> set (fn_conn a). finite p) \<and>
     (\<forall>x y. x \<in> fn_nodes a \<longrightarrow> y \<in> fn_nodes a \<longrightarrow> x \<noteq> y \<longrightarrow> (net_is_conn a x y \<longleftrightarrow> x \<notin> out \<and> y \<notin> out)))"

section \<open>The router's steps\<close>

text \<open>\<open>bodies_ok\<close>: the frames of non-empty buffers below 4 GiB.\<close>

definition bodies_ok :: "u8 list list \<Rightarrow> bool" where
  "bodies_ok bodies \<longleftrightarrow> (\<forall>b \<in> set bodies. b \<noteq> [] \<and> length b < 2 ^ 32)"

definition joins :: "addr_key set \<Rightarrow> addr_key set \<Rightarrow> 'q net \<Rightarrow> 'q net \<Rightarrow> bool" where
  "joins nodes out s s' \<longleftrightarrow> (\<forall>fd cs x y. status_of s fd = None \<and> status_of s' fd = Some cs \<and>
     chan_key (cs_channel cs) = (x, y) \<longrightarrow> x \<in> nodes \<and> y \<in> nodes \<and> x \<noteq> y \<and> x \<notin> out \<and> y \<notin> out)"

text \<open>The step has sent \<open>b\<close> on a connection from \<open>x\<close>, to its end at \<open>y\<close>, and nothing else.\<close>

definition delivers :: "'q net \<Rightarrow> addr_key \<Rightarrow> addr_key \<Rightarrow> u8 list \<Rightarrow> 'q net \<Rightarrow> bool" where
  "delivers s x y b s' \<longleftrightarrow> b \<noteq> [] \<and> (\<exists>g k p. sockets s g = Some k \<and> sockets s' = (sockets s)(g \<mapsto> k\<lparr>tx := tx k @ b\<rparr>) \<and>
     status_of s g = Some p \<and> chan_key (cs_channel p) = (y, x))"

inductive router_fifo_step ::
  "('q, msg) queue_ops \<Rightarrow> config \<Rightarrow> fd \<Rightarrow> addr_key set \<Rightarrow> 'q net \<times> addr_key set \<Rightarrow> (addr_key, u8 list) label \<Rightarrow>
     'q net \<times> addr_key set \<Rightarrow> bool" for Q c l nodes where
  arrive: "sockets s fd = Some k \<Longrightarrow> rx_then k = Rx_Open \<Longrightarrow>
    router_act Q c l s (Act_Arrive fd bs Rx_Open) = Inr s' \<Longrightarrow>
    router_fifo_step Q c l nodes (s, out) Lb_Idle (s', out)"
| receive: "status_of s fd = Some cf \<Longrightarrow> chan_key (cs_channel cf) = (x, y) \<Longrightarrow> fd \<notin> unintercepted s \<Longrightarrow>
    sockets s fd = Some k \<Longrightarrow> rx k = concat (map frame bodies) \<Longrightarrow> rx_then k = Rx_Open \<Longrightarrow> bodies_ok bodies \<Longrightarrow>
    do_receive Q fd s = Inr s' \<Longrightarrow>
    router_fifo_step Q c l nodes (s, out) (Lb_Send x y bodies) (s', out)"
| accept: "fresh_fds w s \<Longrightarrow> on_listen c w l s = Inr s' \<Longrightarrow> joins nodes out s s' \<Longrightarrow>
    router_fifo_step Q c l nodes (s, out) Lb_Idle (s', out)"
| deliver_none: "deliver_msg Q ch None s = Inr s' \<Longrightarrow> sockets s' = sockets s \<Longrightarrow>
    router_fifo_step Q c l nodes (s, out) Lb_Idle (s', out)"
| deliver_one: "deliver_msg Q ch None s = Inr s' \<Longrightarrow> delivers s x y b s' \<Longrightarrow>
    router_fifo_step Q c l nodes (s, out) (Lb_Deliver x y b) (s', out)"
| isolate: "sin_port (get_node_addr c node) \<noteq> bad_port \<Longrightarrow> n = key_of (get_node_addr c node) \<Longrightarrow> n \<in> nodes \<Longrightarrow>
    partition_node Q c node False False s = Inr s' \<Longrightarrow>
    router_fifo_step Q c l nodes (s, out) (Lb_Isolate n) (s', insert n out)"
| cure: "sin_port (get_node_addr c node) \<noteq> bad_port \<Longrightarrow> out = {key_of (get_node_addr c node)} \<Longrightarrow>
    recover_node Q c node s = Inr s' \<Longrightarrow>
    router_fifo_step Q c l nodes (s, out) Lb_Cure (s', {})"

inductive router_fifo_run ::
  "('q, msg) queue_ops \<Rightarrow> config \<Rightarrow> fd \<Rightarrow> addr_key set \<Rightarrow> 'q net \<times> addr_key set \<Rightarrow> (addr_key, u8 list) label list \<Rightarrow>
     'q net \<times> addr_key set \<Rightarrow> bool" for Q c l nodes where
  none: "router_fifo_run Q c l nodes si [] si"
| more: "router_fifo_step Q c l nodes si lb sj \<Longrightarrow> router_fifo_run Q c l nodes sj ls sk \<Longrightarrow>
    router_fifo_run Q c l nodes si (lb # ls) sk"

section \<open>Lemmas\<close>

lemma deliverable_iff:
  "deliverable s m \<longleftrightarrow> (\<exists>p. status_of s (cells s (m_fd m)) = Some p \<and> \<not> cs_disconnected p)"
  by (simp add: deliverable_def split: option.splits)

lemma steadyD:
  assumes "steady Q cont s"
  shows "wf_net s" "linked s" "homed Q cont s" "\<not> is_direct s" "whole_writes s"
  using assms by (simp_all add: steady_def)

lemma homedD: "homed Q cont s \<Longrightarrow> m \<in> set (cont (queue_of Q s k)) \<Longrightarrow> at_home s k m"
  unfolding homed_def by blast

text \<open>Everything depends on the entries, the cells and the queues only.\<close>

definition same_view :: "'q net \<Rightarrow> 'q net \<Rightarrow> bool" where
  "same_view s s' \<longleftrightarrow> status_of s' = status_of s \<and> cells s' = cells s \<and> next_cell s' = next_cell s"

lemma same_view_simps:
  assumes "same_view s s'"
  shows "deliverable s' = deliverable s" "linked s' = linked s" "conns_agree nodes out s' = conns_agree nodes out s"
    "at_home s' = at_home s" "peer_of s' = peer_of s"
proof -
  have e: "status_of s' = status_of s" "cells s' = cells s" "next_cell s' = next_cell s"
    using assms by (simp_all add: same_view_def)
  show p: "peer_of s' = peer_of s" by (rule ext) (simp only: peer_of_def e)
  show "deliverable s' = deliverable s" "linked s' = linked s" "conns_agree nodes out s' = conns_agree nodes out s"
    "at_home s' = at_home s"
    by (simp_all add: deliverable_def linked_def conns_agree_def at_home_def fun_eq_iff e p)
qed

lemma same_view_sockets: "same_but_sockets s s' \<Longrightarrow> same_view s s'"
  by (simp add: same_view_def same_but_sockets_simps)

lemma same_view_network: "same_view s (s\<lparr>network := n\<rparr>)"
  by (simp add: same_view_def fun_eq_iff)

lemma queue_of_upd: "queue_of Q (s\<lparr>network := (network s)(k \<mapsto> q)\<rparr>) j = (if j = k then q else queue_of Q s j)"
  by (simp add: queue_of_def)

lemma implementsD:
  assumes "implements Q cont (s, out) a"
  shows "steady Q cont s" "conns_agree (fn_nodes a) out s" "map snd (fn_msgs a x y) = pending Q cont s (x, y)"
    "p \<in> set (fn_conn a) \<Longrightarrow> finite p" "finite (fn_nodes a)"
    "x \<in> fn_nodes a \<Longrightarrow> y \<in> fn_nodes a \<Longrightarrow> x \<noteq> y \<Longrightarrow> net_is_conn a x y \<longleftrightarrow> x \<notin> out \<and> y \<notin> out"
  using assms by (simp_all add: implements_def)

text \<open>A step that leaves the entries and cells as they are.\<close>

lemma implements_steady:
  assumes "implements Q cont (s, out) a" and "same_view s s'" and "steady Q cont s'"
    and "fn_nodes a' = fn_nodes a" and "fn_conn a' = fn_conn a"
    and "\<And>x y. map snd (fn_msgs a' x y) = pending Q cont s' (x, y)"
  shows "implements Q cont (s', out) a'"
  using assms(1,3-6) by (simp add: implements_def same_view_simps [OF assms(2)] net_is_conn_iff)

lemma implements_view:
  assumes "implements Q cont (s, out) a" and "same_view s s'" and "wf_net s'" and "is_direct s' = is_direct s"
    and "whole_writes s'" and "\<And>k m. m \<in> set (cont (queue_of Q s' k)) \<Longrightarrow> at_home s k m"
    and "fn_nodes a' = fn_nodes a" and "fn_conn a' = fn_conn a"
    and "\<And>x y. map snd (fn_msgs a' x y) = pending Q cont s' (x, y)"
  shows "implements Q cont (s', out) a'"
proof (rule implements_steady [OF assms(1,2) _ assms(7-9)])
  note v = same_view_simps [OF assms(2)] and st = steadyD [OF implementsD(1) [OF assms(1)]]
  have "homed Q cont s'" using assms(6) unfolding homed_def v by blast
  then show "steady Q cont s'" using st assms(3-5) by (simp add: steady_def v)
qed

lemma implements_idle:
  assumes "implements Q cont (s, out) a" and "same_view s s'" and "wf_net s'" and "is_direct s' = is_direct s"
    and "whole_writes s'" and "\<And>k. pending Q cont s' k = pending Q cont s k"
    and "\<And>k. set (cont (queue_of Q s' k)) \<subseteq> set (cont (queue_of Q s k))"
  shows "implements Q cont (s', out) a"
proof (rule implements_view [OF assms(1-5) _ refl refl])
  show "at_home s k m" if "m \<in> set (cont (queue_of Q s' k))" for k m
    using that assms(7) [of k] homedD [OF steadyD(3) [OF implementsD(1) [OF assms(1)]]] by blast
  show "map snd (fn_msgs a x y) = pending Q cont s' (x, y)" for x y
    using implementsD(3) [OF assms(1)] assms(6) by simp
qed

lemma router_act_arrive:
  assumes "implements Q cont (s, out) a" and "router_act Q c l s (Act_Arrive fd bs e) = Inr s'"
  shows "implements Q cont (s', out) a"
proof -
  note st = steadyD [OF implementsD(1) [OF assms(1)]]
  have s': "s' = s\<lparr>sockets := (sockets s)(fd := map_option (\<lambda>k. k\<lparr>rx := rx k @ bs, rx_then := e\<rparr>) (sockets s fd))\<rparr>"
    using assms(2) by (simp add: router_act_def)
  have b: "same_but_sockets s s'" by (simp add: s' same_but_sockets_def)
  note v = same_view_simps [OF same_view_sockets [OF b]]
  have q: "queue_of Q s' k = queue_of Q s k" for k by (simp add: s' queue_of_def)
  have "whole_writes s'" "is_direct s' = is_direct s" using st(5) by (auto simp: whole_writes_def s')
  then show ?thesis
    by (intro implements_idle [OF assms(1) same_view_sockets [OF b]])
      (use st(1) same_but_sockets_wf [OF b] in \<open>simp_all add: pending_def q v\<close>)
qed

text \<open>Frames that arrive.\<close>

lemma peer_linked:
  assumes "wf_net s" and "linked s" and "status_of s fd = Some cs"
  obtains p where "status_of s (cells s (cs_fd cs)) = Some p" "cs_disconnected p = cs_disconnected cs"
    "cs_self p = cs_fd cs" "chan_key (cs_channel p) = (snd (chan_key (cs_channel cs)), fst (chan_key (cs_channel cs)))"
proof -
  obtain p where p: "status_of s (cells s (cs_fd cs)) = Some p" "cs_disconnected p = cs_disconnected cs"
    using assms(2,3) by (auto simp: linked_def peer_of_def)
  note po = peer_other [OF assms(1,3) p(1)]
  show ?thesis by (rule that [OF p po(2)]) (simp add: chan_key_def po)
qed

lemma receive_simulates:
  assumes "fifo Q cont" and i: "implements Q cont (s, out) a"
    and "status_of s fd = Some cf" and "chan_key (cs_channel cf) = (x, y)" and "fd \<notin> unintercepted s"
    and "sockets s fd = Some k" and "rx k = concat (map frame bodies)" and "rx_then k = Rx_Open" and "bodies_ok bodies"
    and "do_receive Q fd s = Inr s'"
  shows "\<exists>a'. fifo_step True a (Lb_Send x y bodies) a' \<and> implements Q cont (s', out) a' \<and> fn_nodes a' = fn_nodes a"
proof -
  note st = steadyD [OF implementsD(1) [OF i]]
  define ms where "ms = map (rx_msg cf) bodies"
  define a' where "a' = net_batch_add_msg (map (\<lambda>m. (x, y, m)) bodies) a"
  have xy: "x \<in> fn_nodes a" "y \<in> fn_nodes a" "x \<noteq> y" "cs_disconnected cf \<longleftrightarrow> x \<in> out \<or> y \<in> out"
    using implementsD(2) [OF i] assms(3,4) by (auto simp: conns_agree_def)
  then have conn: "net_is_conn a x y \<longleftrightarrow> \<not> cs_disconnected cf" using implementsD(6) [OF i, of x y] by simp
  have len: "\<forall>b \<in> set bodies. length b < 2 ^ 32" using assms(9) by (simp add: bodies_ok_def)
  define u where "u = set_rx fd [] s"
  have s': "s' = enqueue_all Q cf ms u"
    using do_receive_frames [OF assms(3,5) st(4) assms(6,7) len] assms(8,10) by (simp add: ms_def u_def)
  obtain n where n: "s' = u\<lparr>network := n\<rparr>"
  proof (cases "cs_disconnected cf")
    case True
    then have "s' = u\<lparr>network := network u\<rparr>" by (simp add: s' enqueue_all_disconnected)
    then show ?thesis by (rule that)
  qed (use enqueue_all_network that in \<open>unfold s', blast\<close>)
  have bu: "same_but_sockets s u" using assms(6) by (auto simp: same_but_sockets_def u_def set_rx_def)
  have vu: "same_view s s'" using same_view_sockets [OF bu] by (simp add: n same_view_def fun_eq_iff)
  note v = same_view_simps [OF vu]
  have c: "cont (queue_of Q s' j) = cont (queue_of Q s j) @ (if net_is_conn a x y \<and> j = (x, y) then ms else [])" for j
  proof (cases "cs_disconnected cf")
    case True
    then show ?thesis using conn by (simp add: s' enqueue_all_disconnected u_def net_simps)
  next
    case False
    then show ?thesis using enqueue_all_contents [OF assms(1) False, of ms u j] conn assms(4)
      by (simp add: s' u_def net_simps)
  qed
  have m: "deliverable s m \<and> at_home s (x, y) m" if mem: "m \<in> set ms" and live: "net_is_conn a x y" for m
  proof -
    obtain b where b: "b \<in> set bodies" "m = rx_msg cf b" using mem unfolding ms_def by auto
    then have "0 < length b" "length b < 2 ^ 32" using len assms(9) by (auto simp: bodies_ok_def)
    note r = rx_msg_ok [OF this]
    obtain p where "status_of s (cells s (cs_fd cf)) = Some p" "\<not> cs_disconnected p" "cs_self p = cs_fd cf"
      "chan_key (cs_channel p) = (y, x)"
      using peer_linked [OF st(1,2) assms(3)] live conn assms(4) by auto
    moreover have "cs_fd cf < next_cell s" using entry_owned(1) [OF st(1) assms(3)] by (simp add: entry_ok_def)
    ultimately show ?thesis
      using b r by (auto simp: deliverable_def at_home_def)
  qed
  have bodies: "map msg_body ms = bodies" using len assms(9) by (simp add: ms_def bodies_ok_def map_idI rx_msg_ok(4))
  have pend: "map snd (fn_msgs a' h j) = pending Q cont s' (h, j)" for h j
    using implementsD(3) [OF i, of h j] m bodies
    by (auto simp: a'_def batch_msgs pending_def v c filter_id_conv)
  have w: "wf_net s'" "is_direct s' = is_direct s" "whole_writes s'"
    using same_but_sockets_wf [OF bu] st(1,5) bu same_but_sockets_simps(8) [OF bu]
    by (auto simp: n) (auto simp: whole_writes_def u_def set_rx_def split: if_splits)
  have "implements Q cont (s', out) a'"
  proof (rule implements_view [OF i vu w _ _ _ pend])
    show "at_home s j m" if "m \<in> set (cont (queue_of Q s' j))" for j m
      using that homedD [OF st(3), of m j] m by (auto simp: c split: if_splits)
  qed (simp_all add: a'_def)
  moreover have "fifo_step True a (Lb_Send x y bodies) a'"
    unfolding a'_def by (rule fifo_step.send [OF xy(1-3)])
  moreover have "fn_nodes a' = fn_nodes a" by (simp add: a'_def)
  ultimately show ?thesis by blast
qed

text \<open>A \<open>deliver\<close> command.\<close>

lemma tx_ext_same [simp]: "k\<lparr>tx := tx k @ b\<rparr> = k \<longleftrightarrow> b = []"
  by (cases k) simp

lemma delivers_changes: "delivers s x y b s' \<Longrightarrow> sockets s' \<noteq> sockets s"
  unfolding delivers_def by (metis fun_upd_same option.inject tx_ext_same)

lemma delivers_unique:
  assumes "delivers s x y b s'" and "delivers s x' y' b' s'"
  shows "x = x' \<and> y = y' \<and> b = b'"
proof -
  obtain g k p where g: "b \<noteq> []" "sockets s g = Some k" "sockets s' = (sockets s)(g \<mapsto> k\<lparr>tx := tx k @ b\<rparr>)"
    "status_of s g = Some p" "chan_key (cs_channel p) = (y, x)"
    using assms(1) by (auto simp: delivers_def)
  obtain g' k' p' where g': "b' \<noteq> []" "sockets s g' = Some k'" "sockets s' = (sockets s)(g' \<mapsto> k'\<lparr>tx := tx k' @ b'\<rparr>)"
    "status_of s g' = Some p'" "chan_key (cs_channel p') = (y', x')"
    using assms(2) by (auto simp: delivers_def)
  have "g = g'"
  proof (rule ccontr)
    assume "g \<noteq> g'"
    then have "sockets s' g = Some k" using g'(3) g(2) by simp
    then show False using g(1,3) by simp
  qed
  then show ?thesis using g g' by (auto dest: arg_cong [where f="\<lambda>m. map_option tx (m g')"])
qed

lemma dead_not_deliverable:
  assumes "wf_net s" and "cells s (m_fd m) < 0"
  shows "\<not> deliverable s m"
  using entry_owned(2) [OF assms(1), of "cells s (m_fd m)"] assms(2)
  by (fastforce simp: deliverable_def split: option.splits)

text \<open>The first message that is alive has been taken from its queue.\<close>

lemma taken_message:
  assumes st: "steady Q cont s" and q: "network s key = Some q" "cont q = dead @ m # cont q'"
    and "\<forall>d \<in> set dead. cells s (m_fd d) < 0"
  defines "s1 \<equiv> s\<lparr>network := (network s)(key \<mapsto> q')\<rparr>"
  shows "steady Q cont s1" "at_home s1 key m" "same_view s s1"
    "pending Q cont s j = (if j = key \<and> deliverable s m then msg_body m # pending Q cont s1 j else pending Q cont s1 j)"
proof -
  note st = steadyD [OF st]
  show v1: "same_view s s1" unfolding s1_def by (rule same_view_network)
  note v = same_view_simps [OF v1]
  have q0: "queue_of Q s key = q" by (simp add: queue_of_def q(1))
  have q1: "queue_of Q s1 j = (if j = key then q' else queue_of Q s j)" for j by (simp add: s1_def queue_of_upd)
  show "at_home s1 key m" using homedD [OF st(3), of m key] q0 q(2) by (simp add: v)
  have "at_home s j n" if "n \<in> set (cont (queue_of Q s1 j))" for j n
    using that homedD [OF st(3)] q0 q(2) by (auto simp: q1 split: if_splits)
  then have "homed Q cont s1" unfolding homed_def v by blast
  then show "steady Q cont s1" using st by (simp add: steady_def v) (simp add: s1_def whole_writes_def)
  have "filter (deliverable s) dead = []"
    using assms(4) dead_not_deliverable [OF st(1)] by (auto simp: filter_empty_conv)
  then show "pending Q cont s j = (if j = key \<and> deliverable s m then msg_body m # pending Q cont s1 j else pending Q cont s1 j)"
    using q0 q(2) by (simp add: pending_def q1 v)
qed

text \<open>It goes out if its connection is not cut, and the state stays steady.\<close>

lemma deliverable_sent:
  assumes st: "steady Q cont s" and h: "at_home s key m" and "deliverable s m" and "deliver_to_fd m s = Inr s'"
  shows "delivers s (fst key) (snd key) (msg_body m) s' \<and> same_but_sockets s s' \<and> steady Q cont s'"
proof -
  note st = steadyD [OF st]
  obtain p where p: "status_of s (cells s (m_fd m)) = Some p" "\<not> cs_disconnected p"
    using assms(3) unfolding deliverable_iff by blast
  obtain k where k: "sockets s (cells s (m_fd m)) = Some k" using entry_owned(4) [OF st(1) p(1)] by auto
  have pk: "plan k = []" using st(5) k by (simp add: whole_writes_def)
  have mm: "msg_ok m" "m_size m \<noteq> 0" "chan_key (cs_channel p) = (snd key, fst key)"
    using h p(1) by (simp_all add: at_home_def)
  have len: "0 < length (msg_body m)" using mm(1,2) by (simp add: unat_gt_0)
  then have ne: "msg_body m \<noteq> []" by simp
  have s': "s' = s\<lparr>sockets := (sockets s)(cells s (m_fd m) \<mapsto> k\<lparr>tx := tx k @ msg_body m\<rparr>)\<rparr>"
    using deliver_to_fd_full [OF p k pk mm(1)] len mm(1) assms(4) by simp
  have "delivers s (fst key) (snd key) (msg_body m) s'" using ne k p(1) mm(3) by (auto simp: delivers_def s')
  moreover have bs: "same_but_sockets s s'" using k by (auto simp: same_but_sockets_def s')
  moreover have "homed Q cont s'"
    using st(3) by (simp add: homed_def same_view_simps [OF same_view_sockets [OF bs]]) (simp add: s' queue_of_def)
  then have "steady Q cont s'"
    using st same_but_sockets_wf [OF bs] pk k
    by (simp add: steady_def same_view_simps [OF same_view_sockets [OF bs]]) (auto simp: s' whole_writes_def)
  ultimately show ?thesis by blast
qed

lemma deliver_simulates:
  assumes f: "fifo Q cont" and i: "implements Q cont (s, out) a" and d: "deliver_msg Q ch None s = Inr s'"
  shows "sockets s' = sockets s \<and> implements Q cont (s', out) a \<or>
    (\<exists>x y b a'. delivers s x y b s' \<and> fifo_step True a (Lb_Deliver x y b) a' \<and> implements Q cont (s', out) a' \<and>
      fn_nodes a' = fn_nodes a)"
  using f d
proof (cases rule: deliver_msg_cases)
  case 1
  then show ?thesis using i by simp
next
  case (2 q q')
  note st = steadyD [OF implementsD(1) [OF i]]
  have q: "queue_of Q s (chan_key ch) = q" by (simp add: queue_of_def 2(1))
  have "implements Q cont (s', out) a"
    unfolding 2(4) using st(1,5) 2(2,3) q dead_not_deliverable [OF st(1)]
    by (intro implements_idle [OF i same_view_network])
      (auto simp: pending_def queue_of_upd same_view_simps [OF same_view_network] whole_writes_def filter_empty_conv)
  then show ?thesis by (simp add: 2(4))
next
  case (3 q q' dead m)
  define key where "key = chan_key ch"
  define s1 where "s1 = s\<lparr>network := (network s)(key \<mapsto> q')\<rparr>"
  have to_fd: "deliver_to_fd m s1 = Inr s'" using 3(5) by (simp add: s1_def key_def)
  note t = taken_message [OF implementsD(1) [OF i] 3(1) [folded key_def] 3(2,3), folded s1_def]
  show ?thesis
  proof (cases "deliverable s m")
    case False
    then have "\<not> deliverable s1 m" by (simp add: same_view_simps [OF t(3)])
    then have "s' = s1" using to_fd by (auto simp: deliver_to_fd_def deliverable_def split: option.splits)
    moreover have "implements Q cont (s1, out) a"
      by (rule implements_steady [OF i t(3,1)]) (use t(4) False implementsD(3) [OF i] in simp_all)
    ultimately show ?thesis by (simp add: s1_def)
  next
    case True
    then have "deliverable s1 m" by (simp add: same_view_simps [OF t(3)])
    from deliverable_sent [OF t(1,2) this to_fd] have sent: "delivers s1 (fst key) (snd key) (msg_body m) s'"
      "same_but_sockets s1 s'" "steady Q cont s'" by simp_all
    have dl: "delivers s (fst key) (snd key) (msg_body m) s'" using sent(1) by (simp add: delivers_def s1_def)
    have hd: "map snd (fn_msgs a (fst key) (snd key)) = msg_body m # pending Q cont s1 key"
      using implementsD(3) [OF i, of "fst key" "snd key"] t(4) [of key] True by simp
    obtain a' where a': "fifo_step True a (Lb_Deliver (fst key) (snd key) (msg_body m)) a'"
      "fn_nodes a' = fn_nodes a" "fn_conn a' = fn_conn a"
      "\<forall>x y. map snd (fn_msgs a' x y) = (if x = fst key \<and> y = snd key then pending Q cont s1 key
        else map snd (fn_msgs a x y))"
      using deliver_head [OF hd, of True] by blast
    have v: "same_view s s'" using t(3) same_view_sockets [OF sent(2)] by (simp add: same_view_def)
    have "pending Q cont s' j = pending Q cont s1 j" for j
      using same_but_sockets_simps(4) [OF sent(2)]
      by (simp add: pending_def queue_of_def same_view_simps [OF same_view_sockets [OF sent(2)]])
    then have "implements Q cont (s', out) a'"
      using a'(4) implementsD(3) [OF i] t(4) by (intro implements_steady [OF i v sent(3) a'(2,3)]) (cases key, auto)
    then show ?thesis using dl a'(1,2) by blast
  qed
qed

text \<open>Which connections a node touches: those with its address at one of the ends.\<close>

lemma starts_at_key:
  "status_of s g = Some cs \<Longrightarrow> starts_at s addr g \<longleftrightarrow> fst (chan_key (cs_channel cs)) = key_of addr"
  by (simp add: starts_at_def chan_key_def cmp_addr_equal_key)

lemma touches_key:
  assumes "wf_net s" and "linked s" and "status_of s g = Some cs"
  shows "touches s addr g \<longleftrightarrow> key_of addr \<in> {fst (chan_key (cs_channel cs)), snd (chan_key (cs_channel cs))}"
proof -
  obtain p where p: "status_of s (cells s (cs_fd cs)) = Some p"
    "chan_key (cs_channel p) = (snd (chan_key (cs_channel cs)), fst (chan_key (cs_channel cs)))"
    by (rule peer_linked [OF assms])
  have "peer_of s g = cells s (cs_fd cs)" using assms(3) by (simp add: peer_of_def)
  then show ?thesis
    using starts_at_key [OF assms(3), of addr] starts_at_key [OF p(1), of addr] p(2) by (auto simp: touches_def)
qed

lemma isolate_simulates:
  assumes i: "implements Q cont (s, out) a" and "sin_port (get_node_addr c node) \<noteq> bad_port"
    and n: "n = key_of (get_node_addr c node)" and "n \<in> fn_nodes a" and "partition_node Q c node False False s = Inr s'"
  shows "fifo_step True a (Lb_Isolate n) (net_del_conn True {n} a) \<and>
    implements Q cont (s', insert n out) (net_del_conn True {n} a)"
proof
  show "fifo_step True a (Lb_Isolate n) (net_del_conn True {n} a)" by (rule fifo_step.isolate [OF assms(4)])
  note im = implementsD [OF i]
  note st = steadyD [OF im(1)]
  define t where "t = touches s (get_node_addr c node)"
  have o: "wf_net s'" "flags_only s s'"
    "\<And>g. status_of s' g = map_option (\<lambda>cs. cs\<lparr>cs_disconnected := cs_disconnected cs \<or> t g\<rparr>) (status_of s g)"
    using partition_outcome [OF st(1), of Q c node] assms(2,5) unfolding t_def by auto
  note fo = flags_onlyD [OF o(2)]
  have t: "t g \<longleftrightarrow> x = n \<or> y = n" if "status_of s g = Some cs" "chan_key (cs_channel cs) = (x, y)" for g cs x y
    using touches_key [OF st(1,2) that(1)] that(2) by (auto simp: t_def n)
  have q: "queue_of Q s' k = queue_of Q s k" for k by (simp add: queue_of_def fo(3))
  have dl: "deliverable s' m \<longleftrightarrow> deliverable s m \<and> fst k \<noteq> n \<and> snd k \<noteq> n" if "at_home s k m" for k m
    using that t [of "cells s (m_fd m)"]
    by (auto simp: deliverable_def at_home_def fo(2) o(3) split: option.splits)
  have ag: "conns_agree (fn_nodes a) (insert n out) s'"
    using im(2) t unfolding conns_agree_def o(3) by (fastforce split: option.splits)
  have "peer_of s' g = peer_of s g" for g
    by (cases "status_of s g") (simp_all add: peer_of_def o(3) fo(2))
  moreover have "\<exists>p. status_of s' (peer_of s g) = Some p \<and> cs_disconnected p = cs_disconnected cs"
    if g: "status_of s' g = Some cs" for g cs
  proof -
    obtain cs0 where cs0: "status_of s g = Some cs0" "cs = cs0\<lparr>cs_disconnected := cs_disconnected cs0 \<or> t g\<rparr>"
      using g by (auto simp: o(3))
    obtain p where p: "status_of s (cells s (cs_fd cs0)) = Some p" "cs_disconnected p = cs_disconnected cs0"
      "chan_key (cs_channel p) = (snd (chan_key (cs_channel cs0)), fst (chan_key (cs_channel cs0)))"
      by (rule peer_linked [OF st(1,2) cs0(1)])
    have "t (cells s (cs_fd cs0)) = t g"
      using t [OF cs0(1)] t [OF p(1)] p(3) by (cases "chan_key (cs_channel cs0)") auto
    then show ?thesis using p(1,2) cs0 by (simp add: peer_of_def o(3))
  qed
  ultimately have "linked s'" by (simp add: linked_def)
  moreover have "homed Q cont s'"
    using st(3) by (fastforce simp: homed_def at_home_def q fo o(3) split: option.splits)
  ultimately have sd: "steady Q cont s'" using o(1) st(4,5) by (simp add: steady_def fo whole_writes_def)
  have pend: "pending Q cont s' k = (if fst k = n \<or> snd k = n then [] else pending Q cont s k)" for k
    using dl [of k] homedD [OF st(3), of _ k] by (auto simp: pending_def q filter_empty_conv cong: filter_cong)
  have con: "net_is_conn (net_del_conn True {n} a) x y \<longleftrightarrow> x \<notin> insert n out \<and> y \<notin> insert n out"
    if "x \<in> fn_nodes a" "y \<in> fn_nodes a" "x \<noteq> y" for x y
    using del_conn_is_conn [OF _ that(3), of a True "{n}"] im(4) im(6) [OF that] by auto
  have nd: "fn_nodes (net_del_conn True {n} a) = fn_nodes a"
    "fn_msgs (net_del_conn True {n} a) = flush_msgs_del {n} (fn_msgs a)"
    "fn_conn (net_del_conn True {n} a) = del_conn {n} (fn_conn a)"
    by (simp_all add: net_del_conn_def)
  show "implements Q cont (s', insert n out) (net_del_conn True {n} a)"
    unfolding implements_def prod.case nd
    using sd ag im(5) con im(4)
    by (auto simp: pend flush_msgs_del_def im(3) set_del_conn)
qed

text \<open>A step that removes the entries \<open>t\<close> and kills their cells.\<close>

definition removes :: "(fd \<Rightarrow> bool) \<Rightarrow> 'q net \<Rightarrow> 'q net \<Rightarrow> bool" where
  "removes t s s' \<longleftrightarrow> wf_net s' \<and> cells_mono s s' \<and> next_cell s' = next_cell s \<and>
     (\<forall>g. status_of s' g = (if t g then None else status_of s g))"

lemma removesD:
  assumes "removes t s s'"
  shows "wf_net s'" "cells_mono s s'" "next_cell s' = next_cell s" "status_of s' g = (if t g then None else status_of s g)"
  using assms by (simp_all add: removes_def)

lemma at_home_survives:
  assumes "wf_net s" and r: "removes t s s'" and "at_home s k m"
  shows "status_of s' (cells s' (m_fd m)) = Some p \<longleftrightarrow>
    status_of s (cells s (m_fd m)) = Some p \<and> \<not> t (cells s (m_fd m))"
proof
  note r = removesD [OF r]
  assume l: "status_of s' (cells s' (m_fd m)) = Some p"
  have "m_fd m < next_cell s" using assms(3) by (simp add: at_home_def)
  then have "cells s' (m_fd m) = cells s (m_fd m) \<or> cells s' (m_fd m) = - 1" using r(2) by (simp add: cells_mono_def)
  then have "cells s' (m_fd m) = cells s (m_fd m)" using l status_minus [OF r(1)] by auto
  then show "status_of s (cells s (m_fd m)) = Some p \<and> \<not> t (cells s (m_fd m))"
    using l r(4) by (auto split: if_splits)
next
  assume l: "status_of s (cells s (m_fd m)) = Some p \<and> \<not> t (cells s (m_fd m))"
  then have p: "status_of s' (cells s (m_fd m)) = Some p" using removesD(4) [OF r] by simp
  have "cs_self p = m_fd m" using assms(3) l by (simp add: at_home_def)
  then have "cells s' (m_fd m) = cells s (m_fd m)" using entry_owned(3) [OF removesD(1) [OF r] p] by simp
  then show "status_of s' (cells s' (m_fd m)) = Some p" using p by simp
qed

lemma removes_home:
  assumes "wf_net s" and r: "removes t s s'" and h: "at_home s k m"
  shows "at_home s' k m"
  using h at_home_survives [OF assms] by (simp add: at_home_def removesD(3) [OF r])

lemma removes_deliverable:
  assumes "wf_net s" and r: "removes t s s'" and t: "\<And>g cs. status_of s g = Some cs \<Longrightarrow> t g \<longleftrightarrow> cs_disconnected cs"
    and h: "at_home s k m"
  shows "deliverable s' m = deliverable s m"
  unfolding deliverable_iff at_home_survives [OF assms(1) r h] using t by blast

lemma removes_linked:
  assumes w: "wf_net s" "linked s" and r: "removes t s s'"
    and t: "\<And>g cs. status_of s g = Some cs \<Longrightarrow> t g \<longleftrightarrow> cs_disconnected cs"
  shows "linked s'"
  unfolding linked_def
proof (intro allI impI)
  fix g cs assume g: "status_of s' g = Some cs"
  then have g0: "status_of s g = Some cs" "\<not> t g" using removesD(4) [OF r] by (auto split: if_splits)
  obtain p where p: "status_of s (cells s (cs_fd cs)) = Some p" "cs_disconnected p = cs_disconnected cs" "cs_self p = cs_fd cs"
    by (rule peer_linked [OF w g0(1)])
  have "\<not> t (cells s (cs_fd cs))" using t [OF g0(1)] t [OF p(1)] p(2) g0(2) by simp
  then have p': "status_of s' (cells s (cs_fd cs)) = Some p" using p(1) removesD(4) [OF r] by simp
  then have "cells s' (cs_fd cs) = cells s (cs_fd cs)" using entry_owned(3) [OF removesD(1) [OF r] p'] p(3) by simp
  then show "\<exists>p. status_of s' (peer_of s' g) = Some p \<and> cs_disconnected p = cs_disconnected cs"
    using g p' p(2) by (simp add: peer_of_def)
qed

lemma node_channel_key: "node_channel s addr fds k \<Longrightarrow> fst k = key_of addr"
  using starts_at_key by (fastforce simp: node_channel_def)

lemma cure_simulates:
  assumes f: "fifo Q cont" and i: "implements Q cont (s, {n}) a" and "sin_port (get_node_addr c node) \<noteq> bad_port"
    and n: "n = key_of (get_node_addr c node)" and "recover_node Q c node s = Inr s'"
  shows "fifo_step True a Lb_Cure (net_cure_conn a) \<and> implements Q cont (s', {}) (net_cure_conn a)"
proof
  show "fifo_step True a Lb_Cure (net_cure_conn a)" by (rule fifo_step.cure)
  note im = implementsD [OF i]
  note st = steadyD [OF im(1)]
  define t where "t = touches s (get_node_addr c node)"
  have r: "removes t s s'" and o: "is_direct s' = is_direct s"
    "\<And>g. sockets s' g = (if t g \<and> status_of s g \<noteq> None then None else sockets s g)"
    "\<And>k. cont (queue_of Q s' k) = (if node_channel s (get_node_addr c node) (om_keys (chan_status s)) k then []
      else cont (queue_of Q s k))"
    using recover_effect [OF f st(1) assms(3)] assms(5) unfolding t_def removes_def by auto
  have t: "t g \<longleftrightarrow> cs_disconnected cs" if "status_of s g = Some cs" for g cs
    using touches_key [OF st(1,2) that] im(2) that by (cases "chan_key (cs_channel cs)") (auto simp: t_def n conns_agree_def)
  note dl = removes_deliverable [OF st(1) r t]
  have gone: "\<not> deliverable s m" if "at_home s k m" "fst k = n" for k m
  proof
    assume "deliverable s m"
    then obtain p where p: "status_of s (cells s (m_fd m)) = Some p" "\<not> cs_disconnected p"
      unfolding deliverable_iff by blast
    then have "chan_key (cs_channel p) = (snd k, n)" using that by (simp add: at_home_def)
    then show False using im(2) p unfolding conns_agree_def by blast
  qed
  have sub: "set (cont (queue_of Q s' k)) \<subseteq> set (cont (queue_of Q s k))" for k by (simp add: o(3))
  have pend: "pending Q cont s' k = pending Q cont s k" for k
  proof (cases "fst k = n")
    case True
    have "\<not> deliverable s m \<and> \<not> deliverable s' m" if "m \<in> set (cont (queue_of Q s k))" for m
      using gone [OF homedD [OF st(3) that] True] dl [OF _ homedD [OF st(3) that]] by simp
    then show ?thesis using sub [of k] by (simp add: pending_def filter_empty_conv subset_iff)
  next
    case False
    have "filter (deliverable s') (cont (queue_of Q s k)) = filter (deliverable s) (cont (queue_of Q s k))"
      by (rule filter_cong [OF refl]) (use dl homedD [OF st(3)] in blast)
    then show ?thesis using False node_channel_key [of s _ _ k] by (auto simp: pending_def o(3) n)
  qed
  have "at_home s' k m" if "m \<in> set (cont (queue_of Q s' k))" for k m
    using removes_home [OF st(1) r] homedD [OF st(3)] sub that by blast
  then have "homed Q cont s'" by (simp add: homed_def)
  moreover have "linked s'" by (rule removes_linked [OF st(1,2) r t])
  moreover have "whole_writes s'" using st(5) o(2) unfolding whole_writes_def by (auto split: if_splits)
  ultimately have "steady Q cont s'" using removesD(1) [OF r] o(1) st(4) by (simp add: steady_def)
  moreover have "status_of s g = Some cs \<and> \<not> t g" if "status_of s' g = Some cs" for g cs
    using that removesD(4) [OF r, of g] by (auto split: if_splits)
  then have "conns_agree (fn_nodes a) {} s'"
    using im(2) t unfolding conns_agree_def by (metis empty_iff)
  ultimately show "implements Q cont (s', {}) (net_cure_conn a)"
    using im(3,5) by (simp add: implements_def net_cure_conn_def pend net_is_conn_iff)
qed

text \<open>A new pair of connections.\<close>

lemma accepted_linked:
  assumes w: "wf_net s" and "linked s" and a: "accepted s f g x y s'"
  shows "linked s'"
  unfolding linked_def
proof (intro allI impI)
  note sn = accepted_status [OF w a] and keep = accepted_keeps [OF w a]
  have ce: "f \<noteq> g" "cells s' (next_cell s) = f" "cells s' (Suc (next_cell s)) = g" using a by (simp_all add: accepted_def)
  fix h cs assume h: "status_of s' h = Some cs"
  show "\<exists>p. status_of s' (peer_of s' h) = Some p \<and> cs_disconnected p = cs_disconnected cs"
  proof (cases "h = f \<or> h = g")
    case True
    then show ?thesis using h ce by (auto simp: peer_of_def sn)
  next
    case False
    then have h0: "status_of s h = Some cs" using h by (simp add: sn)
    have "cs_fd cs < next_cell s" using entry_owned(1) [OF w h0] by (simp add: entry_ok_def)
    from keep(5) [OF this] show ?thesis using assms(2) h h0 by (simp add: linked_def peer_of_def)
  qed
qed

lemma accepted_agree:
  assumes w: "wf_net s" and c: "conns_agree nodes out s" and j: "joins nodes out s s'" and a: "accepted s f g x y s'"
  shows "conns_agree nodes out s'"
  unfolding conns_agree_def
proof (intro allI impI)
  note sn = accepted_status [OF w a] and keep = accepted_keeps [OF w a]
  fix h cs u v assume h: "status_of s' h = Some cs \<and> chan_key (cs_channel cs) = (u, v)"
  show "u \<in> nodes \<and> v \<in> nodes \<and> u \<noteq> v \<and> (cs_disconnected cs \<longleftrightarrow> u \<in> out \<or> v \<in> out)"
  proof (cases "h = f \<or> h = g")
    case True
    then have "status_of s h = None" "\<not> cs_disconnected cs" using h keep(1,2) by (auto simp: sn split: if_splits)
    then show ?thesis using j h unfolding joins_def by blast
  next
    case False
    then have "status_of s h = Some cs" using h by (simp add: sn)
    then show ?thesis using c h unfolding conns_agree_def by blast
  qed
qed

lemma accept_simulates:
  assumes i: "implements Q cont (s, out) a" and w: "fresh_fds w s" and l: "on_listen c w l s = Inr s'"
    and j: "joins (fn_nodes a) out s s'"
  shows "implements Q cont (s', out) a"
proof -
  note im = implementsD [OF i]
  note st = steadyD [OF im(1)]
  have o: "wf_net s'" "network s' = network s" "is_direct s' = is_direct s"
    using on_listen_outcome [OF st(1) w l] by simp_all
  have q: "queue_of Q s' k = queue_of Q s k" for k by (simp add: queue_of_def o(2))
  have "sockets s g = Some k \<or> k = new_sock" if "sockets s' g = Some k" for g k
    using on_listen_shape [OF w l] that by blast
  then have ww: "whole_writes s'" using st(5) unfolding whole_writes_def by (fastforce simp: new_sock_def)
  consider "chan_status s' = chan_status s" "cells s' = cells s" "next_cell s' = next_cell s"
    | f g x y where "accepted s f g x y s'" using on_listen_shape [OF w l] by blast
  then show ?thesis
  proof cases
    case 1
    then have v: "same_view s s'" by (simp add: same_view_def status_of_def fun_eq_iff)
    show ?thesis
      by (rule implements_idle [OF i v o(1,3) ww]) (simp_all add: pending_def q same_view_simps [OF v])
  next
    case (2 f g x y)
    note keep = accepted_keeps [OF st(1) 2]
    have "next_cell s \<le> next_cell s'" using 2 by (simp add: accepted_def)
    then have home: "at_home s' k m \<and> deliverable s' m = deliverable s m" if "at_home s k m" for k m
      using that keep(5) [of "m_fd m"] by (auto simp: at_home_def deliverable_def)
    have "filter (deliverable s') (cont (queue_of Q s k)) = filter (deliverable s) (cont (queue_of Q s k))" for k
      by (rule filter_cong [OF refl]) (use home homedD [OF st(3)] in blast)
    then have "pending Q cont s' k = pending Q cont s k" for k by (simp add: pending_def q)
    moreover have "homed Q cont s'" using home homedD [OF st(3)] unfolding homed_def q by blast
    then have "steady Q cont s'" using accepted_linked [OF st(1,2) 2] o(1,3) ww st(4) by (simp add: steady_def)
    ultimately show ?thesis using i accepted_agree [OF st(1) im(2) j 2] by (simp add: implements_def)
  qed
qed

text \<open>The router starts with no connections and no messages.\<close>

lemma start_implements:
  assumes "fifo Q cont" and "tcp_network c w epoll_ok l = Inr s" and "strategy c \<noteq> Strategy_Direct" and "finite nodes"
  shows "implements Q cont (s, {}) (init_fifo_network nodes)"
proof -
  have s: "chan_status s = []" "network s = Map.empty" "sockets s = Map.empty" "\<not> is_direct s"
    using assms(2,3) by (auto simp: tcp_network_def add_monitor_fd_def split: if_splits)
  have e: "status_of s g = None" for g by (simp add: status_of_def s(1))
  have q: "cont (queue_of Q s k) = []" for k by (simp add: queue_of_def s(2) fifo_empty [OF assms(1)])
  show ?thesis
    using tcp_network_start(1) [OF assms(2)] s(3,4) assms(4)
    by (auto simp: implements_def steady_def linked_def homed_def whole_writes_def conns_agree_def pending_def e q
        init_fifo_network_def net_is_conn_iff)
qed

lemma step_simulates:
  assumes f: "fifo Q cont" and st: "router_fifo_step Q c l (fn_nodes a) si lb sj" and i: "implements Q cont si a"
  shows "\<exists>a'. fifo_step True a lb a' \<and> implements Q cont sj a' \<and> fn_nodes a' = fn_nodes a"
  using st
proof (cases rule: router_fifo_step.cases)
  case (arrive s fd k bs s' out)
  then show ?thesis using router_act_arrive i fifo_step.idle by blast
next
  case (receive s fd cf x y k bodies s' out)
  then show ?thesis using receive_simulates [OF f, of s out a fd cf x y k bodies s'] i by blast
next
  case (accept w s s' out)
  then show ?thesis using accept_simulates i fifo_step.idle by blast
next
  case (deliver_none ch s s' out)
  then show ?thesis
    using deliver_simulates [OF f, of s out a ch s'] delivers_changes i fifo_step.idle by blast
next
  case (deliver_one ch s s' x y b out)
  then obtain x' y' b' a' where "delivers s x' y' b' s'" "fifo_step True a (Lb_Deliver x' y' b') a'"
    "implements Q cont (s', out) a'" "fn_nodes a' = fn_nodes a"
    using deliver_simulates [OF f, of s out a ch s'] delivers_changes i by blast
  then show ?thesis using deliver_one delivers_unique [of s x y b s'] by blast
next
  case (isolate node n s s' out)
  then show ?thesis using isolate_simulates [of Q cont s out a c node n s'] i by (auto simp: net_del_conn_def)
next
  case (cure node out s s')
  then show ?thesis using cure_simulates [OF f, of s _ a c node s'] i by (auto simp: net_cure_conn_def)
qed

section \<open>Runs\<close>

lemma run_simulates:
  assumes f: "fifo Q cont" and r: "router_fifo_run Q c l nodes si ls sj" and "implements Q cont si a" and "fn_nodes a = nodes"
  shows "\<exists>a'. fifo_run True a ls a' \<and> implements Q cont sj a' \<and> fn_nodes a' = nodes"
  using r assms(3,4)
proof (induction arbitrary: a rule: router_fifo_run.induct)
  case (none si)
  then show ?case using fifo_run.none by blast
next
  case (more si lb sj ls sk)
  obtain b where b: "fifo_step True a lb b" "implements Q cont sj b" "fn_nodes b = fn_nodes a"
    using step_simulates [OF f _ more.prems(1), of c l lb sj] more.hyps(1) more.prems(2) by blast
  obtain a' where "fifo_run True b ls a'" "implements Q cont sk a'" "fn_nodes a' = nodes"
    using more.IH [OF b(2)] b(3) more.prems(2) by auto
  then show ?case using fifo_run.more [OF b(1)] by blast
qed

lemma start_run_simulates:
  assumes "fifo Q cont" and "tcp_network c w epoll_ok l = Inr s" and "strategy c \<noteq> Strategy_Direct" and "finite nodes"
    and "router_fifo_run Q c l nodes (s, {}) ls sj"
  shows "\<exists>a. fifo_run True (init_fifo_network nodes) ls a \<and> implements Q cont sj a \<and> fn_nodes a = nodes"
  by (rule run_simulates [OF assms(1,5) start_implements [OF assms(1-4)]]) (simp add: init_fifo_network_def)

section \<open>A run\<close>

text \<open>A client at node \<open>tr_x\<close> connects to \<open>tr_y\<close>, a frame of one byte arrives, is received and delivered.\<close>

abbreviation tr_x :: addr_key where "tr_x \<equiv> Addr_Key 1 0"

abbreviation tr_y :: addr_key where "tr_y \<equiv> Addr_Key 2 0"

definition tr_start :: "msg list net" where
  "tr_start = projr (tcp_network example_nodes example_world True 3)"

definition tr_accepted :: "msg list net" where
  "tr_accepted = projr (on_listen example_nodes example_world 3 tr_start)"

definition tr_arrived :: "msg list net" where
  "tr_arrived = projr (router_act list_queue example_nodes 3 tr_accepted (Act_Arrive 7 (frame [9]) Rx_Open))"

definition tr_received :: "msg list net" where
  "tr_received = (case status_of tr_arrived 7 of None \<Rightarrow> tr_arrived
     | Some cf \<Rightarrow> enqueue_all list_queue cf [rx_msg cf [9]] (set_rx 7 [] tr_arrived))"

definition tr_delivered :: "msg list net" where
  "tr_delivered = projr (deliver_msg list_queue example_channel None tr_received)"

abbreviation tr_step :: "msg list net \<Rightarrow> (addr_key, u8 list) label \<Rightarrow> msg list net \<Rightarrow> bool" where
  "tr_step s lb s' \<equiv> router_fifo_step list_queue example_nodes 3 {tr_x, tr_y} (s, {}) lb (s', {})"

lemma tr_keys: "chan_key example_channel = (tr_x, tr_y)" "chan_key example_reverse = (tr_y, tr_x)"
  by (simp_all add: chan_key_def example_channel_def example_reverse_def key_of_def)

lemma tr_config:
  "\<not> is_router_addr example_nodes \<lparr>sin_family = AF_INET, sin_port = 9, s_addr = 2\<rparr>"
  "get_masquerade_addr example_nodes a = Inr a" "strategy example_nodes \<noteq> Strategy_Direct"
  by (simp_all add: example_nodes_def is_router_addr_def get_masquerade_addr_def init_config_def zero_addr_def
      cmp_addr_equal_def)

lemma tr_start: "tcp_network example_nodes example_world True 3 = Inr tr_start"
  by (simp add: tr_start_def tcp_network_def add_monitor_fd_def example_world_def)

lemma tr_start_state: "sockets tr_start = Map.empty" "status_of tr_start g = None" "next_cell tr_start = 0" "wf_net tr_start"
  "fresh_fds example_world tr_start"
  using tcp_network_start(1) [OF tr_start]
  by (simp_all add: tr_start_def tcp_network_def add_monitor_fd_def example_world_def status_of_def fresh_fds_def)

lemma tr_accepted:
  "on_listen example_nodes example_world 3 tr_start = Inr tr_accepted"
  "status_of tr_accepted = [7 \<mapsto> \<lparr>cs_channel = example_channel, cs_self = 0, cs_fd = 1, cs_disconnected = False\<rparr>,
    8 \<mapsto> \<lparr>cs_channel = example_reverse, cs_self = 1, cs_fd = 0, cs_disconnected = False\<rparr>]"
proof -
  obtain t where t: "on_listen example_nodes example_world 3 tr_start = Inr t"
    "status_of t = (status_of tr_start)(7 \<mapsto> \<lparr>cs_channel = example_channel, cs_self = 0, cs_fd = 1, cs_disconnected = False\<rparr>,
      8 \<mapsto> \<lparr>cs_channel = example_reverse, cs_self = 1, cs_fd = 0, cs_disconnected = False\<rparr>)"
    using on_listen_pair [OF tr_start_state(4,5), of 3 _ _ _ example_nodes, OF _ example_world_ok(1,2) tr_config(1,2)
        example_world_ok(4-9)]
    by (auto simp: example_channel_def example_reverse_def tr_start_state(3))
  then show "on_listen example_nodes example_world 3 tr_start = Inr tr_accepted" by (simp add: tr_accepted_def)
  with t show "status_of tr_accepted = [7 \<mapsto> \<lparr>cs_channel = example_channel, cs_self = 0, cs_fd = 1, cs_disconnected = False\<rparr>,
      8 \<mapsto> \<lparr>cs_channel = example_reverse, cs_self = 1, cs_fd = 0, cs_disconnected = False\<rparr>]"
    by (simp add: fun_eq_iff tr_start_state(2))
qed

lemma tr_accept_step: "tr_step tr_start Lb_Idle tr_accepted"
  by (rule router_fifo_step.accept [OF tr_start_state(5) tr_accepted(1)])
    (auto simp: joins_def tr_accepted(2) tr_keys split: if_splits)

lemma tr_accepted_state: "sockets tr_accepted 7 = Some new_sock" "unintercepted tr_accepted = {}" "\<not> is_direct tr_accepted"
  by code_simp+

lemma tr_arrived:
  "tr_arrived = tr_accepted\<lparr>sockets := (sockets tr_accepted)(7 \<mapsto> new_sock\<lparr>rx := frame [9]\<rparr>)\<rparr>"
  "status_of tr_arrived = status_of tr_accepted"
proof -
  show a: "tr_arrived = tr_accepted\<lparr>sockets := (sockets tr_accepted)(7 \<mapsto> new_sock\<lparr>rx := frame [9]\<rparr>)\<rparr>"
    by (simp add: tr_arrived_def router_act_def tr_accepted_state(1) new_sock_def)
  show "status_of tr_arrived = status_of tr_accepted" by (simp add: a status_of_def fun_eq_iff)
qed

lemma tr_arrive_step: "tr_step tr_accepted Lb_Idle tr_arrived"
  by (rule router_fifo_step.arrive [OF tr_accepted_state(1), of _ _ _ "frame [9]"])
    (simp_all add: new_sock_def tr_arrived_def router_act_def)

lemma tr_receive_step: "tr_step tr_arrived (Lb_Send tr_x tr_y [[9]]) tr_received"
proof -
  define cf where "cf = \<lparr>cs_channel = example_channel, cs_self = 0, cs_fd = 1, cs_disconnected = False\<rparr>"
  have st: "status_of tr_arrived 7 = Some cf" by (simp add: tr_arrived(2) tr_accepted(2) cf_def)
  have a: "sockets tr_arrived 7 = Some (new_sock\<lparr>rx := frame [9]\<rparr>)" "7 \<notin> unintercepted tr_arrived" "\<not> is_direct tr_arrived"
    using tr_accepted_state by (simp_all add: tr_arrived(1))
  have "do_receive list_queue 7 tr_arrived = Inr tr_received"
    using do_receive_frames [OF st a(2,3,1), of "[[9]]" list_queue] by (simp add: tr_received_def st new_sock_def)
  from router_fifo_step.receive [OF st _ a(2,1) _ _ _ this, of tr_x tr_y "[[9]]"] show ?thesis
    by (simp add: cf_def tr_keys new_sock_def bodies_ok_def)
qed

lemma tr_received_run:
  "router_fifo_run list_queue example_nodes 3 {tr_x, tr_y} (tr_start, {}) [Lb_Idle, Lb_Idle, Lb_Send tr_x tr_y [[9]]]
    (tr_received, {})"
  by (rule router_fifo_run.more [OF tr_accept_step router_fifo_run.more [OF tr_arrive_step router_fifo_run.more
        [OF tr_receive_step router_fifo_run.none]]])

lemma tr_received_implements:
  "\<exists>a. implements list_queue id (tr_received, {}) a \<and> fn_nodes a = {tr_x, tr_y}"
  using start_run_simulates [OF fifo_list_queue tr_start tr_config(3) _ tr_received_run] by blast

lemma tr_received_wf: "wf_net tr_received"
  using tr_received_implements steadyD(1) implementsD(1) by blast

lemma tr_received_state: "network tr_received (chan_key example_channel) = Some [example_msg [9]]"
  "cells tr_received (Suc 0) = 8" "sockets tr_received 8 = Some new_sock"
  "status_of tr_received 8 = Some \<lparr>cs_channel = example_reverse, cs_self = 1, cs_fd = 0, cs_disconnected = False\<rparr>"
  by code_simp+

lemma tr_deliver_step: "tr_step tr_received (Lb_Deliver tr_x tr_y [9]) tr_delivered"
proof -
  note t = tr_received_state
  have m: "m_fd (example_msg [9]) = Suc 0" "msg_ok (example_msg [9])" "m_size (example_msg [9]) \<noteq> 0"
    by (simp_all add: frame_msg_ok) (simp_all add: example_msg_def)
  have "\<exists>q'. id q' = [] \<and> deliver_msg list_queue example_channel None tr_received =
      Inr (tr_received\<lparr>network := (network tr_received)(chan_key example_channel \<mapsto> q'),
        sockets := (sockets tr_received)(cells tr_received (m_fd (example_msg [9])) \<mapsto>
          new_sock\<lparr>tx := tx new_sock @ msg_body (example_msg [9])\<rparr>)\<rparr>)"
    by (rule deliver_msg_full [OF fifo_list_queue tr_received_wf t(1), of "[]"]) (simp_all add: m t(1,2), simp_all add: t(3,4), simp_all add: new_sock_def)
  then have "deliver_msg list_queue example_channel None tr_received = Inr tr_delivered"
    "sockets tr_delivered = (sockets tr_received)(8 \<mapsto> new_sock\<lparr>tx := tx new_sock @ [9]\<rparr>)"
    by (auto simp: tr_delivered_def t(2) m(1))
  moreover have "delivers tr_received tr_x tr_y [9] tr_delivered"
    unfolding delivers_def using calculation(2) t(3)
    by (intro conjI exI [of _ 8] exI [of _ new_sock]) (simp_all add: tr_keys t(4))
  ultimately show ?thesis by (intro router_fifo_step.deliver_one)
qed

lemma tr_run:
  "router_fifo_run list_queue example_nodes 3 {tr_x, tr_y} (tr_start, {})
    [Lb_Idle, Lb_Idle, Lb_Send tr_x tr_y [[9]], Lb_Deliver tr_x tr_y [9]] (tr_delivered, {})"
  by (rule router_fifo_run.more [OF tr_accept_step router_fifo_run.more [OF tr_arrive_step router_fifo_run.more
        [OF tr_receive_step router_fifo_run.more [OF tr_deliver_step router_fifo_run.none]]]])

section \<open>Claims\<close>





text \<open>C33: The router keeps no record of the nodes that it has isolated, and \<^verbatim>\<open>do_accept_connect\<close> asks for none: a connection that an
  isolated node opens is not cut, its flag is off and what it sends is buffered and
  delivered. The state then implements no state of the specification with that node isolated.\<close>

theorem new_connection_escapes_partition:
  assumes "wf_net s0" and "partition_node Q c node False False s0 = Inr s" and "sin_port (get_node_addr c node) \<noteq> bad_port"
    and "fresh_fds w s" and "listen_fd \<noteq> - 1"
    and "w_accept w = Some (f, client)" and "key_of (client\<lparr>sin_port := 0\<rparr>) = key_of (get_node_addr c node)"
    and "w_sockname w f = Some origin" and "\<not> is_router_addr c origin" and "get_masquerade_addr c origin = Inr masque"
    and "w_socket w = Some g" and "w_setsockopt w ''IP_TRANSPARENT'' g"
    and "w_bind w g (origin\<lparr>sin_port := 0\<rparr>)" and "w_connect w g masque"
    and "w_epoll_add w f" and "w_epoll_add w g"
  shows "\<exists>s' cs. on_listen c w listen_fd s = Inr s' \<and> status_of s' f = Some cs \<and>
    fst (chan_key (cs_channel cs)) = key_of (get_node_addr c node) \<and> \<not> cs_disconnected cs \<and>
    (\<forall>cont out a. key_of (get_node_addr c node) \<in> out \<longrightarrow> \<not> implements Q cont (s', out) a)"
proof -
  have wf: "wf_net s" using partition_outcome [OF assms(1), of Q c node] assms(2,3) by auto
  obtain s' where s': "on_listen c w listen_fd s = Inr s'" "status_of s' = (status_of s)
      (f \<mapsto> \<lparr>cs_channel = \<lparr>ch_first = client\<lparr>sin_port := 0\<rparr>, ch_second = masque\<lparr>sin_port := 0\<rparr>\<rparr>,
        cs_self = next_cell s, cs_fd = Suc (next_cell s), cs_disconnected = False\<rparr>,
      g \<mapsto> \<lparr>cs_channel = \<lparr>ch_first = masque\<lparr>sin_port := 0\<rparr>, ch_second = client\<lparr>sin_port := 0\<rparr>\<rparr>,
        cs_self = Suc (next_cell s), cs_fd = next_cell s, cs_disconnected = False\<rparr>)"
    using on_listen_pair [OF wf assms(4-6,8-16)] by blast
  have "f \<noteq> g" using assms(4,6,11) by (auto simp: fresh_fds_def)
  then obtain cs where cs: "status_of s' f = Some cs" "fst (chan_key (cs_channel cs)) = key_of (get_node_addr c node)"
    "\<not> cs_disconnected cs"
    using assms(7) by (simp add: s'(2) chan_key_def)
  have "\<not> implements Q cont (s', out) a" if "key_of (get_node_addr c node) \<in> out" for cont out a
    using implementsD(2) [of Q cont s' out a] cs that unfolding conns_agree_def by (metis prod.collapse)
  then show ?thesis using s'(1) cs by blast
qed

theorem new_connection_escapes_partition_witness:
  "\<exists>s s' cs. partition_node list_queue example_nodes ''n1'' False False (example_net new_sock []) = Inr s \<and>
    on_listen example_nodes example_world 3 s = Inr s' \<and> status_of s' 7 = Some cs \<and> \<not> cs_disconnected cs"
proof -
  obtain s where s: "partition_node list_queue example_nodes ''n1'' False False (example_net new_sock []) = Inr s"
    "flags_only (example_net new_sock []) s"
    using partition_outcome [OF example_wf [of new_sock "[]"], of list_queue example_nodes "''n1''"] by auto
  have "fresh_fds example_world s"
    using example_fresh [of new_sock "[]"] flags_onlyD [OF s(2)] by (simp add: fresh_fds_def)
  from new_connection_escapes_partition [OF example_wf s(1) _ this, of 3, OF _ _ example_world_ok(1) _ example_world_ok(2)
      tr_config(1,2) example_world_ok(4-9)]
  show ?thesis using s(1) by (auto simp: key_of_def example_node_def bad_port_def)
qed

end
