(* ===== verification/Net_Replay.thy ===== *)
theory Net_Replay
  imports Net_Refine
begin

text \<open>
  The other direction of \<open>Net_Refine\<close>, which is what the router is for: a trace of the specification can be replayed. Whatever
  the network of the specification delivers, isolates or cures next, the router does the same on the command for it.
\<close>

section \<open>One command\<close>

definition channel_of :: "addr_key \<Rightarrow> addr_key \<Rightarrow> channel" where
  "channel_of x y = \<lparr>ch_first = \<lparr>sin_family = AF_INET, sin_port = key_port x, s_addr = key_ip x\<rparr>,
     ch_second = \<lparr>sin_family = AF_INET, sin_port = key_port y, s_addr = key_ip y\<rparr>\<rparr>"

lemma chan_key_channel_of [simp]: "chan_key (channel_of x y) = (x, y)"
  by (simp add: channel_of_def chan_key_def key_of_def)

lemma fifo_deliver_unique:
  assumes "fifo_step flush a (Lb_Deliver x y b) a'" and "fifo_step flush a (Lb_Deliver x y b') a''"
  shows "b = b' \<and> a' = a''"
  using assms by (auto elim!: fifo_stepE)

text \<open>All messages of a channel that are alive can be delivered, or none.\<close>

lemma alive_deliverable:
  assumes i: "implements Q cont (s, out) a" and m: "m \<in> set (cont (queue_of Q s k))" "0 \<le> cells s (m_fd m)"
    and d: "d \<in> set (cont (queue_of Q s k))" "deliverable s d"
  shows "deliverable s m"
proof -
  note im = implementsD [OF i] and st = steadyD [OF implementsD(1) [OF i]]
  note h = homedD [OF st(3) m(1)] homedD [OF st(3) d(1)]
  obtain p where p: "status_of s (cells s (m_fd m)) = Some p"
    using live_cell [OF st(1), of "m_fd m"] h(1) m(2) by (auto simp: at_home_def)
  obtain r where r: "status_of s (cells s (m_fd d)) = Some r" "\<not> cs_disconnected r" using d(2) unfolding deliverable_iff by blast
  have "chan_key (cs_channel p) = (snd k, fst k)" "chan_key (cs_channel r) = (snd k, fst k)"
    using h p r(1) by (simp_all add: at_home_def)
  then have "\<not> cs_disconnected p" using im(2) p r unfolding conns_agree_def by blast
  then show ?thesis using p unfolding deliverable_iff by blast
qed

lemma deliver_possible:
  assumes f: "fifo Q cont" and i: "implements Q cont (s, out) a" and "pending Q cont s (x, y) \<noteq> []" and ch: "chan_key ch = (x, y)"
  shows "\<exists>s' b. deliver_msg Q ch None s = Inr s' \<and> delivers s x y b s'"
proof -
  note st = steadyD [OF implementsD(1) [OF i]]
  let ?ms = "cont (queue_of Q s (x, y))"
  obtain d where d: "d \<in> set ?ms" "deliverable s d" using assms(3) by (auto simp: pending_def filter_empty_conv)
  have "0 \<le> cells s (m_fd d)" using dead_not_deliverable [OF st(1)] d(2) by force
  then obtain dead m rest where ms: "?ms = dead @ m # rest" "0 \<le> cells s (m_fd m)" "\<forall>e \<in> set dead. \<not> 0 \<le> cells s (m_fd e)"
    using split_list_first_prop [of ?ms "\<lambda>e. 0 \<le> cells s (m_fd e)"] d(1) by blast
  then have mem: "m \<in> set ?ms" by simp
  note h = homedD [OF st(3) mem]
  have "cells s (m_fd e) = - 1" if "e \<in> set dead" for e
    using homedD [OF st(3), of e "(x, y)"] live_cell [OF st(1), of "m_fd e"] ms that entry_owned(2) [OF st(1)]
    by (fastforce simp: at_home_def)
  then have dead: "\<forall>e \<in> set dead. cells s (m_fd e) = - 1" by blast
  obtain p where p: "status_of s (cells s (m_fd m)) = Some p" "\<not> cs_disconnected p"
    using alive_deliverable [OF i mem ms(2) d] unfolding deliverable_iff by blast
  obtain k where k: "sockets s (cells s (m_fd m)) = Some k" using entry_owned(4) [OF st(1) p(1)] by auto
  have pk: "plan k = []" using st(5) k by (simp add: whole_writes_def)
  obtain q where q: "network s (chan_key ch) = Some q" "cont q = dead @ m # rest"
    using ms(1) fifo_empty [OF f] ch by (cases "network s (x, y)") (auto simp: queue_of_def)
  have mm: "msg_ok m" "m_size m \<noteq> 0" "chan_key (cs_channel p) = (y, x)" using h p(1) by (simp_all add: at_home_def)
  have "0 < length (msg_body m)" using mm(1,2) by (simp add: unat_gt_0)
  then have ne: "msg_body m \<noteq> []" by simp
  obtain s' where s': "deliver_msg Q ch None s = Inr s'"
    "sockets s' = (sockets s)(cells s (m_fd m) \<mapsto> k\<lparr>tx := tx k @ msg_body m\<rparr>)"
    using deliver_msg_full [OF f st(1) q dead ms(2) mm(1,2) p k pk] by auto
  have "delivers s x y (msg_body m) s'"
    unfolding delivers_def
    by (rule conjI [OF ne], rule exI [of _ "cells s (m_fd m)"], rule exI [of _ k], rule exI [of _ p])
      (simp add: k p(1) mm(3) s'(2))
  then show ?thesis using s'(1) by blast
qed

text \<open>What the operator can name: the nodes with an address, and a cure of the one node that is isolated.\<close>

definition named :: "config \<Rightarrow> string \<Rightarrow> addr_key \<Rightarrow> bool" where
  "named c node n \<longleftrightarrow> sin_port (get_node_addr c node) \<noteq> bad_port \<and> n = key_of (get_node_addr c node)"

fun isolated_after :: "addr_key set \<Rightarrow> (addr_key, u8 list) label \<Rightarrow> addr_key set" where
  "isolated_after out (Lb_Isolate n) = insert n out"
| "isolated_after out Lb_Cure = {}"
| "isolated_after out _ = out"

fun operable :: "config \<Rightarrow> addr_key set \<Rightarrow> (addr_key, u8 list) label \<Rightarrow> bool" where
  "operable c out (Lb_Deliver x y b) = True"
| "operable c out (Lb_Isolate n) = (\<exists>node. named c node n)"
| "operable c out Lb_Cure = (\<exists>node n. named c node n \<and> out = {n})"
| "operable c out _ = False"

lemma deliver_replayed:
  assumes f: "fifo Q cont" and i: "implements Q cont (s, out) a" and st: "fifo_step True a (Lb_Deliver x y b) a'"
    and ch: "chan_key ch = (x, y)"
  shows "\<exists>s'. deliver_msg Q ch None s = Inr s' \<and> router_fifo_step Q c l (fn_nodes a) (s, out) (Lb_Deliver x y b) (s', out) \<and>
    implements Q cont (s', out) a' \<and> fn_nodes a' = fn_nodes a"
proof -
  have "fn_msgs a x y \<noteq> []" using st by (auto elim!: fifo_stepE simp: net_get_msg_def split: if_splits)
  then have "pending Q cont s (x, y) \<noteq> []" using implementsD(3) [OF i, of x y] by auto
  then obtain s' b' where d: "deliver_msg Q ch None s = Inr s'" "delivers s x y b' s'"
    using deliver_possible [OF f i _ ch] by blast
  obtain x1 y1 b1 a1 where r: "delivers s x1 y1 b1 s'" "fifo_step True a (Lb_Deliver x1 y1 b1) a1" "implements Q cont (s', out) a1"
    "fn_nodes a1 = fn_nodes a"
    using deliver_simulates [OF f i d(1)] delivers_changes [OF d(2)] by blast
  have "x1 = x \<and> y1 = y \<and> b1 = b'" using delivers_unique [OF r(1) d(2)] by simp
  then have "b' = b \<and> a1 = a'" using fifo_deliver_unique [of True a x y b a' b' a1] st r(2) by simp
  then show ?thesis
    using router_fifo_step.deliver_one [OF d, where c = c and l = l and nodes = "fn_nodes a" and out = out] d(1) r(3,4)
    by auto
qed

lemma isolate_replayed:
  assumes i: "implements Q cont (s, out) a" and st: "fifo_step True a (Lb_Isolate n) a'" and "named c node n"
  shows "\<exists>s'. partition_node Q c node False False s = Inr s' \<and>
    router_fifo_step Q c l (fn_nodes a) (s, out) (Lb_Isolate n) (s', insert n out) \<and>
    implements Q cont (s', insert n out) a' \<and> fn_nodes a' = fn_nodes a"
proof -
  have node: "sin_port (get_node_addr c node) \<noteq> bad_port" "n = key_of (get_node_addr c node)"
    using assms(3) by (simp_all add: named_def)
  have n: "n \<in> fn_nodes a" "a' = net_del_conn True {n} a" using st by (auto elim: fifo_stepE)
  obtain s' where s': "partition_node Q c node False False s = Inr s'"
    using partition_outcome [OF steadyD(1) [OF implementsD(1) [OF i]]] by blast
  show ?thesis
    using s' router_fifo_step.isolate [OF node n(1) s'] isolate_simulates [OF i node n(1) s'] n(2)
    by (auto simp: net_del_conn_def)
qed

lemma cure_replayed:
  assumes f: "fifo Q cont" and i: "implements Q cont (s, {n}) a" and st: "fifo_step True a Lb_Cure a'" and "named c node n"
  shows "\<exists>s'. recover_node Q c node s = Inr s' \<and> router_fifo_step Q c l (fn_nodes a) (s, {n}) Lb_Cure (s', {}) \<and>
    implements Q cont (s', {}) a' \<and> fn_nodes a' = fn_nodes a"
proof -
  have node: "sin_port (get_node_addr c node) \<noteq> bad_port" "{n} = {key_of (get_node_addr c node)}"
    using assms(4) by (simp_all add: named_def)
  have n: "a' = net_cure_conn a" using st by (auto elim: fifo_stepE)
  obtain s' where s': "recover_node Q c node s = Inr s'"
    using recover_effect [OF f steadyD(1) [OF implementsD(1) [OF i]] node(1)] by blast
  show ?thesis
    using s' router_fifo_step.cure [OF node s'] cure_simulates [OF f i [unfolded node(2)] node(1) refl s'] n node(2)
    by (auto simp: net_cure_conn_def)
qed

lemma step_replayed:
  assumes f: "fifo Q cont" and i: "implements Q cont (s, out) a" and st: "fifo_step True a lb a'" and op: "operable c out lb"
  shows "\<exists>s'. router_fifo_step Q c l (fn_nodes a) (s, out) lb (s', isolated_after out lb) \<and>
    implements Q cont (s', isolated_after out lb) a' \<and> fn_nodes a' = fn_nodes a"
proof (cases lb)
  case (Lb_Deliver x y b)
  from deliver_replayed [OF f i st [unfolded Lb_Deliver] chan_key_channel_of, of c l] show ?thesis
    using Lb_Deliver by auto
next
  case (Lb_Isolate n)
  then obtain node where "named c node n" using op by auto
  from isolate_replayed [OF i st [unfolded Lb_Isolate] this, of l] show ?thesis using Lb_Isolate by auto
next
  case Lb_Cure
  then obtain node n where "named c node n" "out = {n}" using op by auto
  then show ?thesis using cure_replayed [OF f _ st [unfolded Lb_Cure], of s n c node l] i Lb_Cure by auto
qed (use op in simp_all)

section \<open>Traces\<close>

fun operable_trace :: "config \<Rightarrow> addr_key set \<Rightarrow> (addr_key, u8 list) label list \<Rightarrow> bool" where
  "operable_trace c out [] = True"
| "operable_trace c out (lb # ls) = (operable c out lb \<and> operable_trace c (isolated_after out lb) ls)"

text \<open>The router replays every trace of commands: if the network of the specification can go through any sequence of
  deliveries, isolations and cures that the operator has names for, then the router, in a state that corresponds, can
  do so too, with the same messages delivered, and ends in a state that corresponds. No delivery of the trace times out, hits a dead
  or a cut connection or fails.\<close>

theorem router_replays_commands:
  assumes "fifo Q cont" and "implements Q cont (s, out) a" and "fifo_run True a ls a'" and "operable_trace c out ls"
  shows "\<exists>sj. router_fifo_run Q c l (fn_nodes a) (s, out) ls sj \<and> implements Q cont sj a'"
  using assms(3,2,4)
proof (induction arbitrary: s out rule: fifo_run.induct)
  case (none a)
  then show ?case using router_fifo_run.none by blast
next
  case (more a lb b ls a')
  obtain s1 where s1: "router_fifo_step Q c l (fn_nodes a) (s, out) lb (s1, isolated_after out lb)"
    "implements Q cont (s1, isolated_after out lb) b" "fn_nodes b = fn_nodes a"
    using step_replayed [OF assms(1) more.prems(1) more.hyps(1), of c l] more.prems(2) by auto
  obtain sj where r: "router_fifo_run Q c l (fn_nodes b) (s1, isolated_after out lb) ls sj" "implements Q cont sj a'"
    using more.IH [OF s1(2)] more.prems(2) by auto
  from router_fifo_run.more [OF s1(1) r(1) [unfolded s1(3)]] r(2) show ?case by blast
qed

text \<open>From the state with one received message: deliver it, isolate \<open>tr_x\<close> (which the configuration calls \<^verbatim>\<open>n1\<close>) and cure.\<close>

theorem router_replays_commands_witness:
  "\<exists>sj. router_fifo_run list_queue example_nodes 3 {tr_x, tr_y} (tr_received, {})
    [Lb_Deliver tr_x tr_y [9], Lb_Isolate tr_x, Lb_Cure] sj"
proof -
  obtain a where a: "implements list_queue id (tr_received, {}) a" and n: "fn_nodes a = {tr_x, tr_y}"
    using tr_received_implements by blast
  obtain b where b: "fifo_step True a (Lb_Deliver tr_x tr_y [9]) b" "fn_nodes b = fn_nodes a"
    using step_simulates [OF fifo_list_queue tr_deliver_step [folded n] a] by blast
  have named: "named example_nodes ''n1'' tr_x" by (simp add: named_def key_of_def example_node_def bad_port_def)
  have "fifo_run True a [Lb_Deliver tr_x tr_y [9], Lb_Isolate tr_x, Lb_Cure] (net_cure_conn (net_del_conn True {tr_x} b))"
    by (rule fifo_run.more [OF b(1) fifo_run.more [OF fifo_step.isolate fifo_run.more [OF fifo_step.cure fifo_run.none]]])
      (simp add: b(2) n)
  from router_replays_commands [OF fifo_list_queue a this, of example_nodes 3] named n show ?thesis by auto
qed

end
