(* ===== verification/Net_Script.thy ===== *)
theory Net_Script
  imports Net_Replay
begin

text \<open>
  The replay from end to end: a trace of the specification is written as a file of commands, one per line, and the router
  that starts with this file (\<^verbatim>\<open>Command::read_file\<close> and \<^verbatim>\<open>cmd_t\<close> of \<^verbatim>\<open>tproxy/Command.cpp\<close>,
  \<^verbatim>\<open>TcpNetwork::run_read_cmd\<close> of \<^verbatim>\<open>tproxy/TcpNetwork.cpp\<close>) goes through the trace.
\<close>

section \<open>The file\<close>

text \<open>The command for a label, with a name for every node; \<open>out\<close> are the isolated nodes.\<close>

fun command_of :: "(addr_key \<Rightarrow> string) \<Rightarrow> addr_key set \<Rightarrow> (addr_key, u8 list) label \<Rightarrow> cmd" where
  "command_of name out (Lb_Deliver x y b) = [''deliver'', name x, name y]"
| "command_of name out (Lb_Isolate n) = [''partition'', name n]"
| "command_of name out Lb_Cure = [''recover'', name (the_elem out)]"
| "command_of name out _ = []"

fun script :: "(addr_key \<Rightarrow> string) \<Rightarrow> addr_key set \<Rightarrow> (addr_key, u8 list) label list \<Rightarrow> cmd list" where
  "script name out [] = []"
| "script name out (lb # ls) = command_of name out lb # script name (isolated_after out lb) ls"

definition script_text :: "cmd list \<Rightarrow> string" where
  "script_text cs = concat (map (\<lambda>c. join_from 0 c @ [CHR 0x0A]) cs)"

text \<open>A name that can stand in a command, and what is named.\<close>

definition good_name :: "config \<Rightarrow> (addr_key \<Rightarrow> string) \<Rightarrow> addr_key \<Rightarrow> bool" where
  "good_name c name n \<longleftrightarrow> token_ok (name n) \<and> CHR 0x0A \<notin> set (name n) \<and> named c (name n) n"

fun writable :: "config \<Rightarrow> (addr_key \<Rightarrow> string) \<Rightarrow> addr_key set \<Rightarrow> (addr_key, u8 list) label \<Rightarrow> bool" where
  "writable c name out (Lb_Deliver x y b) = (good_name c name x \<and> good_name c name y)"
| "writable c name out (Lb_Isolate n) = good_name c name n"
| "writable c name out Lb_Cure = (\<exists>n. good_name c name n \<and> out = {n})"
| "writable c name out _ = False"

fun writable_trace :: "config \<Rightarrow> (addr_key \<Rightarrow> string) \<Rightarrow> addr_key set \<Rightarrow> (addr_key, u8 list) label list \<Rightarrow> bool" where
  "writable_trace c name out [] = True"
| "writable_trace c name out (lb # ls) = (writable c name out lb \<and> writable_trace c name (isolated_after out lb) ls)"

section \<open>Reading it\<close>

definition line_ok :: "cmd \<Rightarrow> bool" where
  "line_ok c \<longleftrightarrow> c \<noteq> [] \<and> list_all (\<lambda>t. token_ok t \<and> CHR 0x0A \<notin> set t) c"

lemma commands_of_script:
  assumes "list_all line_ok cs"
  shows "commands_of (script_text cs) = cs"
  using assms
proof (induction cs)
  case Nil
  then show ?case by (simp add: commands_of_def script_text_def)
next
  case (Cons c cs)
  have c: "c \<noteq> []" "list_all token_ok c" "\<forall>t \<in> set c. CHR 0x0A \<notin> set t" using Cons.prems by (auto simp: line_ok_def list_all_iff)
  then have "CHR 0x0A \<notin> set (join_from 0 c)" using join_from_chars [OF c(1)] by auto
  moreover have "script_text (c # cs) = join_from 0 c @ CHR 0x0A # script_text cs" by (simp add: script_text_def)
  ultimately have "commands_of (script_text (c # cs)) = c # commands_of (script_text cs)"
    using c by (simp add: commands_of_def tokenize_join)
  then show ?case using Cons by simp
qed

lemma command_of_line_ok: "writable c name out lb \<Longrightarrow> line_ok (command_of name out lb) \<and> hd (command_of name out lb) \<noteq> ''exit''"
  by (cases lb) (auto simp: line_ok_def good_name_def token_ok_def)

lemma script_lines_ok:
  "writable_trace c name out ls \<Longrightarrow>
    list_all line_ok (script name out ls) \<and> (\<forall>cm \<in> set (script name out ls). hd cm \<noteq> ''exit'')"
  by (induction ls arbitrary: out) (use command_of_line_ok in auto)

section \<open>Running it\<close>

lemma run_deliver:
  "named c a x \<Longrightarrow> named c b y \<Longrightarrow> run_cmd Q c s [''deliver'', a, b] =
    deliver_msg Q \<lparr>ch_first = get_node_addr c a, ch_second = get_node_addr c b\<rparr> None s"
  by (simp add: run_cmd_def get_cmd_def checked_def check_prompt_invalid_def cmd_deliver_def channel_ok_def named_def)

lemma run_partition: "run_cmd Q c s [''partition'', a] = partition_node Q c a False False s"
  by (simp add: run_cmd_def get_cmd_def checked_def check_prompt_invalid_def)

lemma run_recover: "run_cmd Q c s [''recover'', a] = recover_node Q c a s"
  by (simp add: run_cmd_def get_cmd_def checked_def check_prompt_invalid_def)

lemma command_replayed:
  assumes f: "fifo Q cont" and i: "implements Q cont (s, out) a" and st: "fifo_step True a lb a'" and w: "writable c name out lb"
  shows "\<exists>s'. run_cmd Q c s (command_of name out lb) = Inr s' \<and>
    router_fifo_step Q c l (fn_nodes a) (s, out) lb (s', isolated_after out lb) \<and>
    implements Q cont (s', isolated_after out lb) a' \<and> fn_nodes a' = fn_nodes a"
proof (cases lb)
  case (Lb_Deliver x y b)
  then have n: "named c (name x) x" "named c (name y) y" using w by (simp_all add: good_name_def)
  then have "chan_key \<lparr>ch_first = get_node_addr c (name x), ch_second = get_node_addr c (name y)\<rparr> = (x, y)"
    by (simp add: chan_key_def named_def)
  from deliver_replayed [OF f i st [unfolded Lb_Deliver] this, of c l] show ?thesis
    by (simp add: Lb_Deliver run_deliver [OF n])
next
  case (Lb_Isolate n)
  then have "named c (name n) n" using w by (simp add: good_name_def)
  from isolate_replayed [OF i st [unfolded Lb_Isolate] this, of l] show ?thesis by (simp add: Lb_Isolate run_partition)
next
  case Lb_Cure
  then obtain n where n: "named c (name n) n" "out = {n}" using w by (auto simp: good_name_def)
  from cure_replayed [OF f _ st [unfolded Lb_Cure] n(1), of s l] i show ?thesis by (simp add: Lb_Cure n(2) run_recover)
qed (use w in simp_all)

lemma script_replayed:
  assumes f: "fifo Q cont" and r: "fifo_run True a ls a'" and "implements Q cont (s, out) a" and "writable_trace c name out ls"
  shows "\<exists>s' out'. run (run_cmd Q c) s (script name out ls) = Inr s' \<and>
    router_fifo_run Q c l (fn_nodes a) (s, out) ls (s', out') \<and> implements Q cont (s', out') a'"
  using r assms(3,4)
proof (induction arbitrary: s out rule: fifo_run.induct)
  case (none a)
  then show ?case using router_fifo_run.none by fastforce
next
  case (more a lb b ls a')
  obtain s1 where s1: "run_cmd Q c s (command_of name out lb) = Inr s1"
    "router_fifo_step Q c l (fn_nodes a) (s, out) lb (s1, isolated_after out lb)"
    "implements Q cont (s1, isolated_after out lb) b" "fn_nodes b = fn_nodes a"
    using command_replayed [OF f more.prems(1) more.hyps(1), of c name l] more.prems(2) by auto
  obtain s' out' where r: "run (run_cmd Q c) s1 (script name (isolated_after out lb) ls) = Inr s'"
    "router_fifo_run Q c l (fn_nodes b) (s1, isolated_after out lb) ls (s', out')" "implements Q cont (s', out') a'"
    using more.IH [OF s1(3)] more.prems(2) by auto
  from router_fifo_run.more [OF s1(2) r(2) [unfolded s1(4)]] r(1,3) s1(1) show ?case by auto
qed

section \<open>Property\<close>

text \<open>C5: Traces can be kept as files. Let the network of the specification go through any trace of deliveries, isolations and cures
  whose nodes have names that fit in a command, and write the trace as a file, one command per line. Then the router that reads
  this file, splits it into lines and words, queues the commands and runs them delivers the same messages in the same
  order, isolates and recovers the same nodes, and its thread waits, without a fault, in a state that corresponds to the one
  at the end of the trace.\<close>

theorem script_replays_trace:
  assumes "fifo C contC" and "fifo Q cont" and "implements Q cont (s, out) a" and "fifo_run True a ls a'"
    and "writable_trace c name out ls" and "fs file = Some (script_text (script name out ls))"
  shows "\<exists>cm' s' out'. run_read_cmd C Q c (read_file C fs file (global_command C)) s = Inr (cm', s', Loop_Waits) \<and>
    router_fifo_run Q c l (fn_nodes a) (s, out) ls (s', out') \<and> implements Q cont (s', out') a'"
proof -
  note k = script_lines_ok [OF assms(5)]
  have c: "commands_of (script_text (script name out ls)) = script name out ls" by (rule commands_of_script) (use k in blast)
  have t: "takeWhile (\<lambda>c. hd c \<noteq> ''exit'') (script name out ls) = script name out ls" using k by (simp add: takeWhile_eq_all_conv)
  obtain s' out' where r: "run (run_cmd Q c) s (script name out ls) = Inr s'"
    "router_fifo_run Q c l (fn_nodes a) (s, out) ls (s', out')" "implements Q cont (s', out') a'"
    using script_replayed [OF assms(2,4,3,5)] by blast
  have "\<not> (\<exists>cm \<in> set (script name out ls). hd cm = ''exit'')" using k by blast
  then show ?thesis using file_commands_run [where fs=fs and path="file", OF assms(1,6), unfolded c t, OF r(1)] r(2,3) by auto
qed

text \<open>From the state with one received message: the file delivers it, isolates \<open>tr_x\<close> (\<^verbatim>\<open>n1\<close>) and recovers it; \<open>tr_y\<close> goes by
  its address.\<close>

definition tr_name :: "addr_key \<Rightarrow> string" where
  "tr_name n = (if n = tr_x then ''n1'' else inet_ntoa (key_ip n))"

lemma tr_names: "tr_name tr_x = ''n1''" "tr_name tr_y = ''2.0.0.0''"
  "good_name example_nodes tr_name tr_x" "good_name example_nodes tr_name tr_y"
proof -
  show y: "tr_name tr_y = ''2.0.0.0''" by code_simp
  show x: "tr_name tr_x = ''n1''" by (simp add: tr_name_def)
  have a: "inet_aton ''2.0.0.0'' = Some 2" by code_simp
  show "good_name example_nodes tr_name tr_x"
    by (simp add: x good_name_def token_ok_def named_def key_of_def example_node_def bad_port_def)
  show "good_name example_nodes tr_name tr_y"
    by (simp add: y good_name_def token_ok_def named_def get_node_addr_def a example_nodes_def zero_addr_def key_of_def bad_port_def)
qed

abbreviation tr_file :: string where
  "tr_file \<equiv> concat (map (\<lambda>l. l @ [CHR 0x0A]) [''deliver n1 2.0.0.0'', ''partition n1'', ''recover n1''])"

theorem script_replays_trace_witness:
  "\<exists>cm' s' out'. run_read_cmd list_queue list_queue example_nodes (read_file list_queue [''trace'' \<mapsto> tr_file] ''trace''
      (global_command list_queue)) tr_received = Inr (cm', s', Loop_Waits) \<and>
    router_fifo_run list_queue example_nodes 3 {tr_x, tr_y} (tr_received, {})
      [Lb_Deliver tr_x tr_y [9], Lb_Isolate tr_x, Lb_Cure] (s', out')"
proof -
  let ?ls = "[Lb_Deliver tr_x tr_y [9], Lb_Isolate tr_x, Lb_Cure]"
  have w: "writable_trace example_nodes tr_name {} ?ls" by (simp add: tr_names)
  have f: "script_text (script tr_name {} ?ls) = tr_file" by (simp add: script_text_def tr_names join_from_Cons)
  obtain a where a: "implements list_queue id (tr_received, {}) a" "fn_nodes a = {tr_x, tr_y}"
    using tr_received_implements by blast
  obtain b where b: "fifo_step True a (Lb_Deliver tr_x tr_y [9]) b" "fn_nodes b = fn_nodes a"
    using step_simulates [OF fifo_list_queue tr_deliver_step [folded a(2)] a(1)] by blast
  have r: "fifo_run True a ?ls (net_cure_conn (net_del_conn True {tr_x} b))"
    by (rule fifo_run.more [OF b(1) fifo_run.more [OF fifo_step.isolate fifo_run.more [OF fifo_step.cure fifo_run.none]]])
      (simp add: b(2) a(2))
  have "[''trace'' \<mapsto> tr_file] ''trace'' = Some (script_text (script tr_name {} ?ls))" by (simp only: f fun_upd_same)
  from script_replays_trace [where l=3 and fs="[''trace'' \<mapsto> tr_file]", OF fifo_list_queue fifo_list_queue a(1) r w this] show ?thesis
    unfolding a(2) by blast
qed

end
