(* ===== verification/Net_Follow.thy ===== *)
theory Net_Follow
  imports Net_Script
begin

text \<open>
  Traces with sends. In \<open>Net_Replay\<close> and \<open>Net_Script\<close> all messages have arrived before the operator begins; here the nodes
  write while the commands run. The result is a list of actions of the machine of \<open>Net_Run\<close>: for a send the bytes arrive on a
  connection of the two nodes (\<open>Act_Arrive\<close>) and \<^verbatim>\<open>run_epoll\<close> handles the event (\<open>Act_Event\<close>), for all else the operator types the
  command (\<open>Act_Command\<close>).
\<close>

section \<open>Actions\<close>

text \<open>Every action is possible when it comes, and none fails.\<close>

fun goes :: "('q, msg) queue_ops \<Rightarrow> config \<Rightarrow> fd \<Rightarrow> 'q net \<Rightarrow> action list \<Rightarrow> 'q net \<Rightarrow> bool" where
  "goes Q c l s [] s' \<longleftrightarrow> s' = s"
| "goes Q c l s (act # acts) s' \<longleftrightarrow>
     (\<exists>s1. possible s act \<and> router_act Q c l s act = Inr s1 \<and> goes Q c l s1 acts s')"

lemma goes_append: "goes Q c l s as s1 \<Longrightarrow> goes Q c l s1 bs s2 \<Longrightarrow> goes Q c l s (as @ bs) s2"
  by (induction as arbitrary: s) auto

lemma goes_reachable: "goes Q c l s acts s' \<Longrightarrow> reachable Q c l s \<Longrightarrow> reachable Q c l s'"
  by (induction acts arbitrary: s) (use reachable.more router_step.step in \<open>auto, blast\<close>)

fun commands_in :: "action list \<Rightarrow> cmd list" where
  "commands_in [] = []"
| "commands_in (Act_Command cm # acts) = cm # commands_in acts"
| "commands_in (_ # acts) = commands_in acts"

fun arrivals_in :: "action list \<Rightarrow> u8 list list" where
  "arrivals_in [] = []"
| "arrivals_in (Act_Arrive fd bs e # acts) = bs # arrivals_in acts"
| "arrivals_in (_ # acts) = arrivals_in acts"

lemma actions_append [simp]:
  "commands_in (as @ bs) = commands_in as @ commands_in bs" "arrivals_in (as @ bs) = arrivals_in as @ arrivals_in bs"
  by (induction as rule: commands_in.induct) simp_all

section \<open>Connections that can carry a message\<close>

definition line :: "'q net \<Rightarrow> addr_key \<Rightarrow> addr_key \<Rightarrow> fd \<Rightarrow> channel_status \<Rightarrow> sock \<Rightarrow> bool" where
  "line s x y fd cf k \<longleftrightarrow> status_of s fd = Some cf \<and> chan_key (cs_channel cf) = (x, y) \<and> fd \<notin> unintercepted s \<and>
     sockets s fd = Some k \<and> rx k = [] \<and> rx_then k = Rx_Open"

definition carries :: "'q net \<Rightarrow> addr_key \<times> addr_key \<Rightarrow> bool" where
  "carries s p \<longleftrightarrow> (\<exists>fd cf k. line s (fst p) (snd p) fd cf k)"

text \<open>A step keeps the connections between the pairs \<open>M\<close>, and the listening socket gets no entry.\<close>

definition keeps_lines :: "fd \<Rightarrow> (addr_key \<times> addr_key) set \<Rightarrow> 'q net \<Rightarrow> bool" where
  "keeps_lines l M s \<longleftrightarrow> (\<forall>p \<in> M. carries s p) \<and> status_of s l = None"

lemma carriesI:
  assumes "carries s p" and "\<And>fd cf k. line s (fst p) (snd p) fd cf k \<Longrightarrow>
    \<exists>cf' t. status_of s' fd = Some cf' \<and> cs_channel cf' = cs_channel cf \<and> fd \<notin> unintercepted s' \<and>
      sockets s' fd = Some (k\<lparr>tx := t\<rparr>)"
  shows "carries s' p"
proof -
  obtain fd cf k where l: "line s (fst p) (snd p) fd cf k" using assms(1) by (auto simp: carries_def)
  obtain cf' t where "status_of s' fd = Some cf'" "cs_channel cf' = cs_channel cf" "fd \<notin> unintercepted s'"
    "sockets s' fd = Some (k\<lparr>tx := t\<rparr>)" using assms(2) [OF l] by blast
  then have "line s' (fst p) (snd p) fd cf' (k\<lparr>tx := t\<rparr>)" using l by (simp add: line_def)
  then show ?thesis unfolding carries_def by blast
qed

section \<open>Which commands keep them\<close>

lemma tx_some [simp]: "\<exists>t. k = k\<lparr>tx := t\<rparr>" "\<exists>t. k\<lparr>tx := u\<rparr> = k\<lparr>tx := t\<rparr>"
  by (rule exI [of _ "tx k"], simp) blast

lemma deliver_keeps:
  assumes f: "fifo Q cont" and st: "steady Q cont s" and d: "deliver_msg Q ch None s = Inr s'"
  shows "status_of s' = status_of s \<and> unintercepted s' = unintercepted s \<and>
    (\<forall>g k. sockets s g = Some k \<longrightarrow> (\<exists>t. sockets s' g = Some (k\<lparr>tx := t\<rparr>)))"
  using f d
proof (cases rule: deliver_msg_cases)
  case 1
  then show ?thesis by simp
next
  case (2 q q')
  then show ?thesis by (simp add: fun_eq_iff)
next
  case (3 q q' dead m)
  define s1 where "s1 = s\<lparr>network := (network s)(chan_key ch \<mapsto> q')\<rparr>"
  note t = taken_message [OF st 3(1,2,3), folded s1_def]
  have e: "status_of s1 = status_of s" "unintercepted s1 = unintercepted s" "sockets s1 = sockets s"
    by (simp_all add: s1_def fun_eq_iff)
  have to_fd: "deliver_to_fd m s1 = Inr s'" using 3(5) by (simp add: s1_def)
  show ?thesis
  proof (cases "deliverable s1 m")
    case False
    then have "s' = s1" using to_fd by (auto simp: deliver_to_fd_def deliverable_def split: option.splits)
    then show ?thesis using e by simp
  next
    case True
    note ds = deliverable_sent [OF t(1,2) True to_fd]
    have "same_but_sockets s1 s'" using ds by blast
    note sb = same_but_sockets_simps [OF this]
    have "\<exists>t. sockets s' g = Some (k\<lparr>tx := t\<rparr>)" if "sockets s g = Some k" for g k
      using ds that e(3) by (auto simp: delivers_def)
    then show ?thesis using sb e by simp
  qed
qed

lemma close_connection_unint: "close_connection fd t cp s = Inr s' \<Longrightarrow> unintercepted s' \<subseteq> unintercepted s"
  by (auto simp: close_connection_def Let_def do_close_def k_close_simps set_disconnected_simps split: option.splits if_splits)

lemma close_all_unint: "close_all fds s = Inr s' \<Longrightarrow> unintercepted s' \<subseteq> unintercepted s"
  by (induction fds arbitrary: s) (auto simp: result_simps dest!: close_connection_unint)

lemma clear_msgs_unint [simp]: "unintercepted (clear_msgs Q ch s) = unintercepted s"
  by (simp add: clear_msgs_def split: option.splits)

lemma partition_scan_unint:
  "partition_scan Q addr cm r fds acc s = Inr (out, s') \<Longrightarrow> unintercepted s' \<subseteq> unintercepted s"
proof (induction fds arbitrary: acc s)
  case (Cons fd fds)
  obtain cs where cs: "deref fd s = Inr cs" using Cons.prems by (auto simp: result_simps)
  show ?case
  proof (cases "cmp_addr_equal (ch_first (cs_channel cs)) addr")
    case False
    then show ?thesis using Cons.prems cs Cons.IH by simp
  next
    case True
    then obtain s1 where s1: "(if r then Inr (set_disconnected fd False s) else close_connection fd True True s) = Inr s1"
      "partition_scan Q addr cm r fds (if r then acc @ [fd] else acc) (if cm then clear_msgs Q (cs_channel cs) s1 else s1) =
        Inr (out, s')"
      using Cons.prems cs by (auto simp: result_simps)
    have "unintercepted s1 \<subseteq> unintercepted s"
      using s1(1) by (cases r) (auto simp: set_disconnected_simps dest!: close_connection_unint)
    then show ?thesis using Cons.IH [OF s1(2)] by (auto split: if_splits)
  qed
qed simp

lemma partition_node_unint: "partition_node Q c node cm r s = Inr s' \<Longrightarrow> unintercepted s' \<subseteq> unintercepted s"
  by (auto simp: partition_node_def Let_def result_simps split: if_splits dest!: close_all_unint partition_scan_unint)

lemma partition_keeps:
  assumes "steady Q cont s" and "named c node n" and p: "partition_node Q c node False False s = Inr s'"
  shows "sockets s' = sockets s \<and> unintercepted s' \<subseteq> unintercepted s \<and>
    (\<forall>g. map_option cs_channel (status_of s' g) = map_option cs_channel (status_of s g))"
proof -
  have b: "sin_port (get_node_addr c node) \<noteq> bad_port" using assms(2) by (simp add: named_def)
  have o: "flags_only s s'" "\<forall>g. status_of s' g =
      map_option (\<lambda>cs. cs\<lparr>cs_disconnected := cs_disconnected cs \<or> touches s (get_node_addr c node) g\<rparr>) (status_of s g)"
    using partition_outcome [OF steadyD(1) [OF assms(1)], of Q c node] b p by auto
  show ?thesis using flags_onlyD(1) [OF o(1)] o(2) partition_node_unint [OF p] by (simp add: option.map_comp comp_def)
qed

lemma recover_keeps:
  assumes "fifo Q cont" and st: "steady Q cont s" and "named c node n" and r: "recover_node Q c node s = Inr s'"
    and "status_of s g = Some cf" and "fst (chan_key (cs_channel cf)) \<noteq> n" and "snd (chan_key (cs_channel cf)) \<noteq> n"
  shows "status_of s' g = Some cf \<and> sockets s' g = sockets s g"
proof -
  have node: "sin_port (get_node_addr c node) \<noteq> bad_port" "n = key_of (get_node_addr c node)"
    using assms(3) by (simp_all add: named_def)
  have "\<not> touches s (get_node_addr c node) g"
    using touches_key [OF steadyD(1,2) [OF st] assms(5)] node(2) assms(6,7) by simp
  then show ?thesis using recover_effect [OF assms(1) steadyD(1) [OF st] node(1)] r assms(5) by auto
qed

lemma recover_forgets:
  assumes "fifo Q cont" and st: "steady Q cont s" and "named c node n" and r: "recover_node Q c node s = Inr s'"
    and "status_of s g = None"
  shows "status_of s' g = None"
  using recover_effect [OF assms(1) steadyD(1) [OF st], of c node] assms(3-5) by (auto simp: named_def)

section \<open>One label\<close>

text \<open>The pairs whose connections are still there afterwards: a recovery closes those of the node.\<close>

fun lines_after ::
  "addr_key set \<Rightarrow> (addr_key \<times> addr_key) set \<Rightarrow> (addr_key, u8 list) label \<Rightarrow> (addr_key \<times> addr_key) set" where
  "lines_after out M Lb_Cure = {p \<in> M. fst p \<notin> out \<and> snd p \<notin> out}"
| "lines_after out M _ = M"

text \<open>What can be followed: sends of non-empty messages between connected nodes, and what has a command.\<close>

fun feasible ::
  "config \<Rightarrow> (addr_key \<Rightarrow> string) \<Rightarrow> addr_key set \<Rightarrow> (addr_key \<times> addr_key) set \<Rightarrow> (addr_key, u8 list) label \<Rightarrow> bool" where
  "feasible c name out M (Lb_Send x y bodies) = ((x, y) \<in> M \<and> bodies_ok bodies)"
| "feasible c name out M lb = writable c name out lb"

fun feasible_trace ::
  "config \<Rightarrow> (addr_key \<Rightarrow> string) \<Rightarrow> addr_key set \<Rightarrow> (addr_key \<times> addr_key) set \<Rightarrow> (addr_key, u8 list) label list \<Rightarrow> bool" where
  "feasible_trace c name out M [] = True"
| "feasible_trace c name out M (lb # ls) =
     (feasible c name out M lb \<and> feasible_trace c name (isolated_after out lb) (lines_after out M lb) ls)"

text \<open>What the operator types and what arrives.\<close>

fun bytes_of_label :: "(addr_key, u8 list) label \<Rightarrow> u8 list list" where
  "bytes_of_label (Lb_Send x y bodies) = [concat (map frame bodies)]"
| "bytes_of_label _ = []"

definition follows ::
  "('q, msg) queue_ops \<Rightarrow> config \<Rightarrow> (addr_key \<Rightarrow> string) \<Rightarrow> fd \<Rightarrow> addr_key set \<Rightarrow> 'q net \<times> addr_key set \<Rightarrow> cmd list \<Rightarrow>
     (addr_key, u8 list) label list \<Rightarrow> action list \<Rightarrow> 'q net \<times> addr_key set \<Rightarrow> bool" where
  "follows Q c name l nodes si cs ls acts sj \<longleftrightarrow> goes Q c l (fst si) acts (fst sj) \<and>
     (\<exists>ls'. router_fifo_run Q c l nodes si ls' sj \<and> filter (\<lambda>lb. lb \<noteq> Lb_Idle) ls' = ls) \<and>
     commands_in acts = cs \<and> arrivals_in acts = concat (map bytes_of_label ls)"

lemma router_fifo_run_append:
  "router_fifo_run Q c l nodes si ls sj \<Longrightarrow> router_fifo_run Q c l nodes sj ls' sk \<Longrightarrow>
    router_fifo_run Q c l nodes si (ls @ ls') sk"
  by (induction rule: router_fifo_run.induct) (auto intro: router_fifo_run.intros)

lemma follows_append:
  assumes "follows Q c name l nodes si cs ls acts sj" and "follows Q c name l nodes sj cs' ls' acts' sk"
  shows "follows Q c name l nodes si (cs @ cs') (ls @ ls') (acts @ acts') sk"
proof -
  obtain m where "router_fifo_run Q c l nodes si m sj" "filter (\<lambda>lb. lb \<noteq> Lb_Idle) m = ls" using assms(1) by (auto simp: follows_def)
  moreover obtain m' where "router_fifo_run Q c l nodes sj m' sk" "filter (\<lambda>lb. lb \<noteq> Lb_Idle) m' = ls'"
    using assms(2) by (auto simp: follows_def)
  ultimately have "\<exists>m. router_fifo_run Q c l nodes si m sk \<and> filter (\<lambda>lb. lb \<noteq> Lb_Idle) m = ls @ ls'"
    using router_fifo_run_append by (metis filter_append)
  then show ?thesis using assms goes_append by (auto simp: follows_def)
qed

text \<open>An event without a new connection.\<close>

definition no_world :: world where
  "no_world = \<lparr>w_accept = None, w_peername = Map.empty, w_sockname = Map.empty, w_socket = None, w_setsockopt = (\<lambda>_ _. True),
     w_bind = (\<lambda>_ _. True), w_listen = (\<lambda>_. True), w_connect = (\<lambda>_ _. True), w_epoll_add = (\<lambda>_. True)\<rparr>"

lemma send_followed:
  assumes f: "fifo Q cont" and i: "implements Q cont (s, out) a" and st: "fifo_step True a (Lb_Send x y bodies) a'"
    and ok: "bodies_ok bodies" and kp: "keeps_lines l M s" and "(x, y) \<in> M"
  shows "\<exists>acts s'. follows Q c name l (fn_nodes a) (s, out) [] [Lb_Send x y bodies] acts (s', out) \<and>
    implements Q cont (s', out) a' \<and> fn_nodes a' = fn_nodes a \<and> keeps_lines l M s'"
proof -
  note sd = steadyD [OF implementsD(1) [OF i]]
  have "carries s (x, y)" using kp assms(6) by (simp add: keeps_lines_def)
  then obtain fd cf k where ln: "line s x y fd cf k" by (auto simp: carries_def)
  then have k: "status_of s fd = Some cf" "chan_key (cs_channel cf) = (x, y)" "fd \<notin> unintercepted s" "sockets s fd = Some k"
    "rx k = []" "rx_then k = Rx_Open" by (simp_all add: line_def)
  define bs where "bs = concat (map frame bodies)"
  define s1 where "s1 = s\<lparr>sockets := (sockets s)(fd \<mapsto> k\<lparr>rx := bs\<rparr>)\<rparr>"
  define s2 where "s2 = enqueue_all Q cf (map (rx_msg cf) bodies) (set_rx fd [] s1)"
  have kk: "k\<lparr>rx := rx k @ bs, rx_then := Rx_Open\<rparr> = k\<lparr>rx := bs\<rparr>" using k(5,6) by (cases k) simp
  have s1: "status_of s1 = status_of s" "unintercepted s1 = unintercepted s" "sockets s1 fd = Some (k\<lparr>rx := bs\<rparr>)"
    "\<not> is_direct s1" "fd_to_client s1 fd = None"
    using sd(4) entry_owned(5) [OF sd(1) k(1)] by (simp_all add: s1_def fun_eq_iff status_of_def)
  have arrive: "router_act Q c l s (Act_Arrive fd bs Rx_Open) = Inr s1"
    by (simp add: router_act_def k(4) kk s1_def)
  have len: "\<forall>b \<in> set bodies. length b < 2 ^ 32" using ok by (simp add: bodies_ok_def)
  have rcv: "do_receive Q fd s1 = Inr s2"
    using do_receive_frames [of s1 fd cf "k\<lparr>rx := bs\<rparr>" bodies Q] s1 k len by (simp add: bs_def s2_def)
  have "fd \<noteq> l" using kp k(1) by (auto simp: keeps_lines_def)
  then have event: "router_act Q c l s1 (Act_Event fd no_world) = Inr s2"
    by (simp add: router_act_def handle_event_def s1(5) rcv)
  have "goes Q c l s [Act_Arrive fd bs Rx_Open, Act_Event fd no_world] s2"
    using arrive event k by (auto simp: possible_def fresh_fds_def no_world_def)
  moreover have step: "router_fifo_step Q c l (fn_nodes a) (s1, out) (Lb_Send x y bodies) (s2, out)"
    by (rule router_fifo_step.receive [OF _ k(2) _ s1(3)]) (use s1 k ok rcv in \<open>simp_all add: bs_def\<close>)
  have "router_fifo_run Q c l (fn_nodes a) (s, out) [Lb_Idle, Lb_Send x y bodies] (s2, out)"
    by (rule router_fifo_run.more [OF router_fifo_step.arrive [OF k(4,6) arrive] router_fifo_run.more [OF step router_fifo_run.none]])
  ultimately have "follows Q c name l (fn_nodes a) (s, out) [] [Lb_Send x y bodies]
      [Act_Arrive fd bs Rx_Open, Act_Event fd no_world] (s2, out)"
    unfolding follows_def by (auto simp: bs_def intro!: exI [of _ "[Lb_Idle, Lb_Send x y bodies]"])
  moreover have "\<exists>b. fifo_step True a (Lb_Send x y bodies) b \<and> implements Q cont (s2, out) b \<and> fn_nodes b = fn_nodes a"
    by (rule step_simulates [OF f step router_act_arrive [OF i arrive]])
  then have "implements Q cont (s2, out) a' \<and> fn_nodes a' = fn_nodes a" using st by (auto elim!: fifo_stepE)
  moreover have e: "status_of s2 g = status_of s g" "unintercepted s2 = unintercepted s" "sockets s2 = sockets s" for g
    using k(4,5) s1 by (simp_all add: s2_def net_simps) (auto simp: set_rx_def s1_def fun_eq_iff)
  then have "carries s2 p = carries s p" for p by (simp add: carries_def line_def)
  then have "keeps_lines l M s2" using kp e(1) by (simp add: keeps_lines_def)
  ultimately show ?thesis by blast
qed

text \<open>A command, once its effect on the connections is known.\<close>

lemma command_followed:
  assumes "run_cmd Q c s cm = Inr s'" and "cm \<noteq> []" and "router_fifo_step Q c l nodes (s, out) lb (s', out')"
    and "lb \<noteq> Lb_Idle" and "bytes_of_label lb = []"
  shows "follows Q c name l nodes (s, out) [cm] [lb] [Act_Command cm] (s', out')"
proof -
  have "router_fifo_run Q c l nodes (s, out) [lb] (s', out')" by (rule router_fifo_run.more [OF assms(3) router_fifo_run.none])
  then show ?thesis using assms by (auto simp: follows_def possible_def router_act_def intro!: exI [of _ "[lb]"])
qed

lemma deliver_lines:
  assumes "fifo Q cont" and "steady Q cont s" and "deliver_msg Q ch None s = Inr s'" and kp: "keeps_lines l M s"
  shows "keeps_lines l M s'"
proof -
  note d = deliver_keeps [OF assms(1-3)]
  have "carries s' p" if "carries s p" for p
    by (rule carriesI [OF that]) (use d in \<open>auto simp: line_def\<close>)
  then show ?thesis using kp d by (simp add: keeps_lines_def)
qed

lemma partition_lines:
  assumes "steady Q cont s" and "named c node n" and "partition_node Q c node False False s = Inr s'" and kp: "keeps_lines l M s"
  shows "keeps_lines l M s'"
proof -
  note d = partition_keeps [OF assms(1-3)]
  have st: "\<exists>cf'. status_of s' g = Some cf' \<and> cs_channel cf' = cs_channel cf" if "status_of s g = Some cf" for g cf
  proof -
    have "map_option cs_channel (status_of s' g) = Some (cs_channel cf)" using d that by simp
    then show ?thesis by auto
  qed
  have "carries s' p" if "carries s p" for p
  proof (rule carriesI [OF that])
    fix fd cf k assume ln: "line s (fst p) (snd p) fd cf k"
    then have l: "status_of s fd = Some cf" "fd \<notin> unintercepted s" "sockets s fd = Some k" by (simp_all add: line_def)
    obtain cf' where "status_of s' fd = Some cf'" "cs_channel cf' = cs_channel cf" using st [OF l(1)] by blast
    moreover have "fd \<notin> unintercepted s'" "sockets s' fd = Some k" using d l by auto
    ultimately show "\<exists>cf' t. status_of s' fd = Some cf' \<and> cs_channel cf' = cs_channel cf \<and> fd \<notin> unintercepted s' \<and>
      sockets s' fd = Some (k\<lparr>tx := t\<rparr>)" by (simp add: exI [of _ "tx k"])
  qed
  moreover have "status_of s' l = None"
  proof -
    have "map_option cs_channel (status_of s' l) = map_option cs_channel (status_of s l)" using d by blast
    then show ?thesis using kp by (simp add: keeps_lines_def)
  qed
  ultimately show ?thesis using kp by (simp add: keeps_lines_def)
qed

lemma recover_lines:
  assumes "fifo Q cont" and "steady Q cont s" and "named c node n" and r: "recover_node Q c node s = Inr s'"
    and kp: "keeps_lines l M s"
  shows "keeps_lines l {p \<in> M. fst p \<notin> {n} \<and> snd p \<notin> {n}} s'"
proof -
  have u: "unintercepted s' \<subseteq> unintercepted s" using partition_node_unint r by (simp add: recover_node_def)
  have "carries s' p" if "carries s p" "fst p \<noteq> n" "snd p \<noteq> n" for p
  proof (rule carriesI [OF that(1)])
    fix fd cf k assume "line s (fst p) (snd p) fd cf k"
    then have l: "status_of s fd = Some cf" "chan_key (cs_channel cf) = p" "fd \<notin> unintercepted s" "sockets s fd = Some k"
      by (simp_all add: line_def)
    have "status_of s' fd = Some cf \<and> sockets s' fd = sockets s fd"
      by (rule recover_keeps [OF assms(1-3) r l(1)]) (simp_all add: l(2) that)
    then show "\<exists>cf' t. status_of s' fd = Some cf' \<and> cs_channel cf' = cs_channel cf \<and> fd \<notin> unintercepted s' \<and>
      sockets s' fd = Some (k\<lparr>tx := t\<rparr>)" using l u by auto
  qed
  then show ?thesis using kp recover_forgets [OF assms(1-4)] by (simp add: keeps_lines_def)
qed

lemma label_followed:
  assumes f: "fifo Q cont" and i: "implements Q cont (s, out) a" and st: "fifo_step True a lb a'"
    and kp: "keeps_lines l M s" and fe: "feasible c name out M lb"
  shows "\<exists>acts s'. follows Q c name l (fn_nodes a) (s, out) (filter (\<lambda>cm. cm \<noteq> []) [command_of name out lb]) [lb] acts
      (s', isolated_after out lb) \<and>
    implements Q cont (s', isolated_after out lb) a' \<and> fn_nodes a' = fn_nodes a \<and>
    keeps_lines l (lines_after out M lb) s'"
proof (cases "\<exists>x y bodies. lb = Lb_Send x y bodies")
  case True
  then obtain x y bodies where lb: "lb = Lb_Send x y bodies" by blast
  then show ?thesis using send_followed [OF f i _ _ kp, of x y bodies a' c name] st fe by simp
next
  case False
  then have w: "writable c name out lb" using fe by (cases lb) simp_all
  then have lb: "command_of name out lb \<noteq> []" "lb \<noteq> Lb_Idle" "bytes_of_label lb = []" by (cases lb; simp)+
  obtain s' where s': "run_cmd Q c s (command_of name out lb) = Inr s'"
    "router_fifo_step Q c l (fn_nodes a) (s, out) lb (s', isolated_after out lb)"
    "implements Q cont (s', isolated_after out lb) a'" "fn_nodes a' = fn_nodes a"
    using command_replayed [OF f i st w] by blast
  note sd = implementsD(1) [OF i]
  have "keeps_lines l (lines_after out M lb) s'"
  proof (cases lb)
    case (Lb_Deliver x y b)
    then have n: "named c (name x) x" "named c (name y) y" using w by (simp_all add: good_name_def)
    show ?thesis using s'(1) deliver_lines [OF f sd _ kp] by (simp add: Lb_Deliver run_deliver [OF n])
  next
    case (Lb_Isolate n)
    then have "named c (name n) n" using w by (simp add: good_name_def)
    from partition_lines [OF sd this _ kp] show ?thesis using s'(1) by (simp add: Lb_Isolate run_partition)
  next
    case Lb_Cure
    then obtain n where n: "named c (name n) n" "out = {n}" using w by (auto simp: good_name_def)
    from recover_lines [OF f sd n(1) _ kp] show ?thesis using s'(1) by (simp add: Lb_Cure n(2) run_recover)
  qed (use w in simp_all)
  then show ?thesis using command_followed [OF s'(1) lb(1) s'(2) lb(2,3), of name] s'(3,4) lb(1) by auto
qed

section \<open>Property\<close>


text \<open>From the state with one received message: another one is sent, both are delivered, \<open>tr_x\<close> is isolated, what it sends then is
  lost, and it is recovered.\<close>

lemma tr_received_lines: "keeps_lines 3 {(tr_x, tr_y)} tr_received"
proof -
  have "status_of tr_received 3 = None \<and> 7 \<notin> unintercepted tr_received \<and> sockets tr_received 7 = Some new_sock \<and>
      map_option (\<lambda>cf. chan_key (cs_channel cf)) (status_of tr_received 7) = Some (tr_x, tr_y)"
    by code_simp
  then have "line tr_received tr_x tr_y 7 (the (status_of tr_received 7)) new_sock" "status_of tr_received 3 = None"
    by (auto simp: line_def new_sock_def)
  then show ?thesis unfolding keeps_lines_def carries_def by fastforce
qed


end
