(* ===== verification/Spec2Isabelle.thy ===== *)
theory Spec2Isabelle
  imports Clocks Lib_Config Early_Alloc Printing Ptracer Redirect Hooks Router_Client Net_Race Net_Follow
begin

text \<open>
  A verification library for TMET, a tool that tests distributed systems by taking control of their
  messages and clocks. The development is a shallow embedding of its two programs.

  \<^bold>\<open>The programs.\<close> \<^verbatim>\<open>tproxy/\<close> is the router, a transparent proxy. It accepts the connections of all
  nodes, connects to the real destination itself, and keeps what they send to each other in one queue
  for each pair of nodes until an operator (or a file) says \<^verbatim>\<open>deliver\<close>; \<^verbatim>\<open>partition\<close> and \<^verbatim>\<open>recover\<close>
  simulate faults, and \<^verbatim>\<open>cmd\<close> sends a command to a node. \<^verbatim>\<open>mysyscall/\<close> is a library that is preloaded into
  every node: it puts a header before each buffer that a node sends, so that the router can tell one
  message from the next, it replaces the clock by one that only moves when the router says so, and it
  counts calls. The two share the format of frames (\<open>Wire\<close>) and the syntax of configuration
  files (\<open>Tokens\<close>, \<open>Address\<close>).

  \<^bold>\<open>Shared theories.\<close> \<open>Prelude\<close>: machine integers, the ways to stop abnormally (a failed assertion, an
  uncaught exception, undefined behaviour) as values of a sum type, and the locales \<open>safe_machine\<close> and
  \<open>total_machine\<close>, which lift an invariant from one step to whole runs. \<open>Ordered_Map\<close>: \<^verbatim>\<open>std::map\<close> as a sorted
  list behind the locale \<open>keyed_store\<close>. \<open>Byte_Order\<close>, \<open>C_Lib\<close>: byte order, \<^verbatim>\<open>stoi\<close>, \<^verbatim>\<open>to_string\<close>, \<^verbatim>\<open>inet_aton\<close>,
  \<^verbatim>\<open>inet_ntoa\<close>. \<open>Queue_Api\<close>: the queue of \<^verbatim>\<open>readerwriterqueue.h\<close>, which is not in the repository; it is a
  parameter \<open>Q\<close> with the contract \<open>fifo\<close>, and every theorem about it has a witness with \<open>list_queue\<close>.

  \<^bold>\<open>The router.\<close>
  \<open>Config_File\<close>: \<^verbatim>\<open>ConfigFile.{h,cpp}\<close>, the record \<open>config\<close> for the members of the class, \<open>load\<close>, masquerading,
  node names. \<open>Command_Queue\<close>: \<^verbatim>\<open>Command.{h,cpp}\<close> and \<^verbatim>\<open>Repl.cpp\<close>. \<open>Net_State\<close>: the members of \<^verbatim>\<open>TcpNetwork\<close>
  (record \<open>net\<close>), the kernel's sockets, and the closing of connections. A \<^verbatim>\<open>shared_ptr<int>\<close> is the number of a cell of
  the store \<open>cells\<close>, so that the sharing between entries and buffered messages is part of the model.
  \<open>Net_Deliver\<close>, \<open>Net_Receive\<close>, \<open>Net_Parse\<close>, \<open>Net_Connect\<close>, \<open>Net_Commands\<close>, \<open>Net_Operator\<close>: the handlers of
  \<^verbatim>\<open>TcpNetwork.cpp\<close> and \<^verbatim>\<open>TcpSocket.cpp\<close> one group after the other, and what they do. \<open>Net_Run\<close>: \<^verbatim>\<open>run_epoll\<close> and the machine
  of events, commands and traffic with its reachable states. \<open>Redirect\<close>: \<^verbatim>\<open>SimpleRedirect.cpp\<close> and \<^verbatim>\<open>main.cpp\<close>.

  \<^bold>\<open>The specification.\<close> The repository tests programs by traces of a TLA+ specification whose network the router has to
  reproduce. \<open>Fifo_Network\<close>: that network, \<^verbatim>\<open>PySyncObjTLA/FifoNetwork.tla\<close>, with all operations of its API, the type of its state and the
  order of its messages. \<open>Net_Refine\<close>: the router implements it. The abstraction \<open>implements\<close> takes for the sequence between two nodes the bodies of
  the buffered messages that a delivery would still send, and for the cut pairs the flags of the connections; every step of \<open>router_fifo_step\<close> is
  one of the specification's with the same label. \<open>Net_Replay\<close>: conversely, the router can follow every trace of commands of the
  specification. \<open>Net_Script\<close>: it does so when it is started with the trace as a file of commands, read by \<^verbatim>\<open>read_file\<close> and
  run by \<^verbatim>\<open>run_read_cmd\<close>. \<open>Net_Follow\<close>: it also follows traces in which the nodes send between the commands, as a sequence of
  actions of the machine of \<open>Net_Run\<close>.

  \<^bold>\<open>The library.\<close> \<open>Registry\<close>: the table of \<^verbatim>\<open>common.h\<close>, \<^verbatim>\<open>common.c\<close>, and \<^verbatim>\<open>ptracer.c\<close>. \<open>Timing\<close>: \<^verbatim>\<open>timing.c\<close>, the virtual clock.
  \<open>Clocks\<close>: the intercepted clock functions. \<open>Concern\<close> and \<open>Lib_Config\<close>: \<^verbatim>\<open>config.cpp\<close>, which descriptors and
  peers are of concern, and the start-up. \<open>Hooks\<close>: the intercepted socket and file functions.
  \<open>Router_Client\<close>: \<^verbatim>\<open>router.cpp\<close>, the thread that obeys the router. \<open>Early_Alloc\<close>: \<^verbatim>\<open>mymallocfree.c\<close>.
  \<open>Printing\<close> and \<open>Statistics\<close>: the output functions of \<^verbatim>\<open>common.c\<close>, its statistics and logs, and \<^verbatim>\<open>addr_to_str\<close>.
  \<open>Ptracer\<close>: \<^verbatim>\<open>main\<close> of \<^verbatim>\<open>ptracer.c\<close>.

  \<^bold>\<open>What the lemmas show.\<close> The invariant \<open>wf_net\<close> of the router's maps is kept by every handler
  (\<open>wf_do_close\<close>, \<open>do_receive_sound\<close>, \<open>on_listen_outcome\<close>, \<open>run_cmd_sound\<close>), hence in every reachable state,
  and with it that no iterator dangles, that descriptors reused by the kernel are never mixed
  up, and that a cell that died stays dead (\<open>cells_mono\<close>). For each operation there is an equation for its
  effect on every branch (\<open>close_result_closed\<close>, \<open>deliver_msg_full\<close>, \<open>do_receive_frames\<close>, \<open>transfer_all\<close>,
  \<open>on_listen_pair\<close>, \<open>partition_outcome\<close>, \<open>recover_outcome\<close>, \<open>read_cmd_loop_runs\<close>). For the library: the configuration
  invariant, the clock as a machine, the framing of all sending functions, the transparency of the others,
  and the equivalence of its command loop with running the commands. This theory joins both sides.

  \<^bold>\<open>Bounds and fuel.\<close> Loops over arriving bytes are functions by the number of bytes that are left. Loops
  over a queue take its size plus one as the bound; \<open>deq_live_enough\<close>, \<open>pop_all_enough\<close> and
  \<open>read_cmd_loop_runs\<close> show that it is enough. \<^verbatim>\<open>max_events\<close> bounds a round of events as in the code. Integers have
  the width of the code wherever it shows: ports 16 bits, addresses and message sizes 32, headers as bytes.

  \<^bold>\<open>Assumptions.\<close> The kernel gives new descriptors that are not open (\<open>fresh_fds\<close>). A write takes at
  least one byte or fails. In the machine of \<open>Net_Run\<close> the handlers of the router's two threads are atomic; the code has no lock,
  so this is an assumption about scheduling and not a property of the code. \<open>Net_Race\<close> takes \<^verbatim>\<open>deliver_msg\<close> apart into its accesses to
  shared state (\<open>deliver_step\<close>), shows that the steps alone are the handler, that arrivals, receptions and new connections between
  them (\<open>calm\<close>) do not disturb it, and that closing and reusing a descriptor there does. The machine is little-endian. Where a
  theorem needs whole writes, it says so (\<open>plan k = []\<close>, \<open>takes_all\<close>), and other theorems say what happens otherwise.

  \<^bold>\<open>Not modelled.\<close> The texts of warnings and logs, except those of \<open>check_prompt_invalid\<close>, \<open>print_status\<close>,
  \<open>print_info_va\<close>, \<open>log_intercepted\<close>, \<open>print_statistics\<close> and \<^verbatim>\<open>ptracer\<close>; gflags and readline, which are other
  libraries; the \<^verbatim>\<open>thread\<close> objects and the interleaving inside handlers
  other than \<^verbatim>\<open>deliver_msg\<close>, where unlocked changes of a \<^verbatim>\<open>map\<close> are undefined behaviour in any case; the build files, scripts and the
  TLA+ modules other than \<^verbatim>\<open>FifoNetwork.tla\<close>, which describe the tested programs. \<open>router_fifo_step\<close> has no step that closes
  connections (the specification has no such action) and cures one isolated node at a time.
\<close>

section \<open>Delivering a whole queue\<close>

definition deliver_times :: "('q, msg) queue_ops \<Rightarrow> channel \<Rightarrow> nat \<Rightarrow> 'q net \<Rightarrow> 'q net result" where
  "deliver_times Q ch n s = run (\<lambda>s _. deliver_msg Q ch None s) s (replicate n ())"

lemma deliver_times_all:
  assumes "fifo Q cont"
  shows "wf_net s \<Longrightarrow> cont (queue_of Q s (chan_key ch)) = ms \<Longrightarrow>
    \<forall>m \<in> set ms. m_fd m = i \<and> msg_ok m \<and> m_size m \<noteq> 0 \<Longrightarrow>
    status_of s (cells s i) = Some cs \<Longrightarrow> \<not> cs_disconnected cs \<Longrightarrow> sockets s (cells s i) = Some k \<Longrightarrow> plan k = [] \<Longrightarrow>
    \<exists>s'. deliver_times Q ch (length ms) s = Inr s' \<and>
      sockets s' (cells s i) = Some (k\<lparr>tx := tx k @ concat (map msg_body ms)\<rparr>)"
proof (induction ms arbitrary: s k)
  case Nil
  then show ?case by (simp add: deliver_times_def)
next
  case (Cons m ms)
  obtain q where q: "network s (chan_key ch) = Some q" "cont q = m # ms"
    using Cons.prems(2) fifo_empty [OF assms] by (auto simp: queue_of_def split: option.splits)
  have mi: "m_fd m = i" "msg_ok m" "m_size m \<noteq> 0" using Cons.prems(3) by simp_all
  have pos: "0 \<le> cells s i" using entry_owned(2) [OF Cons.prems(1,4)] .
  obtain q' where q': "cont q' = ms" "deliver_msg Q ch None s = Inr (s\<lparr>network := (network s)(chan_key ch \<mapsto> q'),
      sockets := (sockets s)(cells s i \<mapsto> k\<lparr>tx := tx k @ msg_body m\<rparr>)\<rparr>)"
    using deliver_msg_full [OF assms Cons.prems(1) q(1), of "[]" m ms cs k] q(2) mi pos Cons.prems(4-7) by auto
  define t where "t = s\<lparr>network := (network s)(chan_key ch \<mapsto> q'),
      sockets := (sockets s)(cells s i \<mapsto> k\<lparr>tx := tx k @ msg_body m\<rparr>)\<rparr>"
  have "same_but_sockets (s\<lparr>network := (network s)(chan_key ch \<mapsto> q')\<rparr>) t"
    using Cons.prems(6) by (simp add: same_but_sockets_def t_def)
  then have w: "wf_net t" using same_but_sockets_wf Cons.prems(1) by (metis wf_network)
  have f: "cells t = cells s" "status_of t g = status_of s g" "sockets t (cells s i) = Some (k\<lparr>tx := tx k @ msg_body m\<rparr>)"
    "cont (queue_of Q t (chan_key ch)) = ms" for g
    using q'(1) by (simp_all add: t_def status_of_def queue_of_def)
  have "plan (k\<lparr>tx := tx k @ msg_body m\<rparr>) = []" using Cons.prems(7) by simp
  then obtain s' where "deliver_times Q ch (length ms) t = Inr s'" "sockets s' (cells s i) =
      Some ((k\<lparr>tx := tx k @ msg_body m\<rparr>)\<lparr>tx := (tx k @ msg_body m) @ concat (map msg_body ms)\<rparr>)"
    using Cons.IH [OF w f(4), of "k\<lparr>tx := tx k @ msg_body m\<rparr>"] Cons.prems(3-5) f by auto
  moreover have "deliver_times Q ch (length (m # ms)) s = deliver_times Q ch (length ms) t"
    using q'(2) by (simp add: deliver_times_def t_def)
  ultimately show ?case by simp
qed

section \<open>Properties\<close>

text \<open>C1: From program to program: when a program behind the library has written any sequence of non-empty
  buffers to its new connection with \<^verbatim>\<open>write\<close>, \<^verbatim>\<open>send\<close> or \<^verbatim>\<open>sendto\<close>, and what went out has arrived at the router,
  then one event takes it all into the queue, and as many \<^verbatim>\<open>deliver\<close> commands as there were calls send the
  other end exactly the bytes that were written, in order and without headers.\<close>

theorem messages_end_to_end:
  assumes "takes_all real" and "check_intercept (reg p) SYS_sendto" and "check_intercept (reg p) SYS_write"
    and "\<forall>e \<in> set es. event_real e real \<and> (\<exists>buf. payload e = Some (a, buf) \<and> 0 < length buf \<and> length buf < 2 ^ 32)"
    and "port_known p a" and "sent p a = []" and "run hook_step p es = Inr p'"
    and "fifo Q cont" and "wf_net s" and "status_of s fd = Some cf" and "\<not> cs_disconnected cf"
    and "fd \<notin> unintercepted s" and "\<not> is_direct s"
    and "sockets s fd = Some k" and "rx k = sent p' a" and "rx_then k = Rx_Open"
    and "cont (queue_of Q s (chan_key (cs_channel cf))) = []"
    and "status_of s (cells s (cs_fd cf)) = Some pe" and "\<not> cs_disconnected pe"
    and "sockets s (cells s (cs_fd cf)) = Some ko" and "plan ko = []"
  shows "\<exists>s1 s2. do_receive Q fd s = Inr s1 \<and> deliver_times Q (cs_channel cf) (length es) s1 = Inr s2 \<and>
    sockets s2 (cells s (cs_fd cf)) = Some (ko\<lparr>tx := tx ko @ concat (map (snd \<circ> the \<circ> payload) es)\<rparr>)"
proof -
  define bs where "bs = map (snd \<circ> the \<circ> payload) es"
  have bs: "0 < length b \<and> length b < 2 ^ 32" if b: "b \<in> set bs" for b
  proof -
    obtain e where "e \<in> set es" "b = snd (the (payload e))" using b by (auto simp: bs_def)
    then show ?thesis using assms(4) by force
  qed
  have "filter (\<lambda>(f, _). f = a) (map (the \<circ> payload) es) = map (the \<circ> payload) es"
    using assms(4) by (force intro!: filter_True)
  then have snt: "sent p' a = concat (map frame bs)"
    using run_sends_framed [OF assms(1-3), of es] assms(4-7) by (fastforce simp: bs_def comp_assoc)
  define ms where "ms = map (rx_msg cf) bs"
  define s1 where "s1 = enqueue_all Q cf ms (set_rx fd [] s)"
  have r: "do_receive Q fd s = Inr s1"
    using do_receive_frames [OF assms(10,12-14), of bs Q] assms(15,16) snt bs by (simp add: s1_def ms_def)
  obtain n where n: "s1 = (set_rx fd [] s)\<lparr>network := n\<rparr>"
    using enqueue_all_network [OF assms(11)] unfolding s1_def by blast
  have "same_but_sockets s (set_rx fd [] s)" using assms(14) by (auto simp: same_but_sockets_def set_rx_def)
  then have w: "wf_net s1" using same_but_sockets_wf assms(9) by (simp add: n)
  have q: "cont (queue_of Q s1 (chan_key (cs_channel cf))) = ms"
    using enqueue_all_contents [OF assms(8,11), of ms "set_rx fd [] s"] assms(17) by (simp add: s1_def net_simps)
  have "cells s (cs_fd cf) \<noteq> fd" by (rule peer_other(1) [OF assms(9,10,18)])
  then have f: "cells s1 = cells s" "status_of s1 g = status_of s g"
    "sockets s1 (cells s (cs_fd cf)) = Some ko" for g
    using assms(20) by (simp_all add: s1_def net_simps) (simp add: set_rx_def)
  have m: "\<forall>m \<in> set ms. m_fd m = cs_fd cf \<and> msg_ok m \<and> m_size m \<noteq> 0"
    using bs rx_msg_ok by (auto simp: ms_def)
  have st: "status_of s1 (cells s1 (cs_fd cf)) = Some pe" "sockets s1 (cells s1 (cs_fd cf)) = Some ko"
    using f assms(18) by simp_all
  obtain s2 where "deliver_times Q (cs_channel cf) (length ms) s1 = Inr s2"
    "sockets s2 (cells s1 (cs_fd cf)) = Some (ko\<lparr>tx := tx ko @ concat (map msg_body ms)\<rparr>)"
    using deliver_times_all [OF assms(8) w q m st(1) assms(19) st(2) assms(21)] by blast
  moreover have "map msg_body ms = bs" using bs rx_msg_ok(4) by (simp add: ms_def map_idI)
  moreover have "length ms = length es" by (simp add: ms_def bs_def)
  ultimately show ?thesis using r f(1) by (auto simp: bs_def)
qed

theorem messages_end_to_end_witness:
  "\<exists>p' s1 s2. run hook_step example_proc [Write full_real 5 [1, 2], Send full_real 5 [3] 0] = Inr p' \<and>
    do_receive list_queue 6 (example_net (new_sock\<lparr>rx := sent p' 5\<rparr>) []) = Inr s1 \<and>
    deliver_times list_queue example_reverse 2 s1 = Inr s2 \<and> sockets s2 5 = Some (new_sock\<lparr>tx := [1, 2, 3]\<rparr>)"
proof -
  let ?es = "[Write full_real 5 [1, 2], Send full_real 5 [3] 0]"
  let ?cf = "\<lparr>cs_channel = example_reverse, cs_self = 1, cs_fd = 0, cs_disconnected = False\<rparr>"
  have ev: "\<forall>e \<in> set ?es. event_real e full_real \<and> (\<exists>buf. payload e = Some (5, buf) \<and> 0 < length buf \<and> length buf < 2 ^ 32)"
    by simp
  obtain p' where p': "run hook_step example_proc ?es = Inr p'"
    using run_sends_framed [OF example_proc_ok(4,1,2), of ?es] example_proc_ok(3) by fastforce
  let ?k = "new_sock\<lparr>rx := sent p' 5\<rparr>"
  let ?s = "example_net ?k []"
  have c: "6 \<notin> unintercepted ?s" "\<not> is_direct ?s" "sockets ?s 6 = Some ?k" "rx ?k = sent p' 5" "rx_then ?k = Rx_Open"
    "cells ?s (cs_fd ?cf) = 5" "sockets ?s 5 = Some new_sock" "plan new_sock = []"
    by (simp_all add: example_net_def) (simp_all add: new_sock_def)
  have q: "id (queue_of list_queue ?s (chan_key (cs_channel ?cf))) = []"
    by (simp add: queue_of_def example_net_def chan_key_def example_reverse_def example_channel_def key_of_def
        list_queue_def)
  have st: "status_of ?s (cells ?s (cs_fd ?cf)) = Some
      \<lparr>cs_channel = example_channel, cs_self = 0, cs_fd = 1, cs_disconnected = False\<rparr>"
    "sockets ?s (cells ?s (cs_fd ?cf)) = Some new_sock"
    using c(6,7) example_status(1) by simp_all
  have nd: "\<not> cs_disconnected ?cf" "\<not> cs_disconnected
      \<lparr>cs_channel = example_channel, cs_self = 0, cs_fd = 1, cs_disconnected = False\<rparr>" by simp_all
  show ?thesis
    using messages_end_to_end [OF example_proc_ok(4,1,2) ev example_proc_ok(3,5) p' fifo_list_queue example_wf
        example_status(2) nd(1) c(1-5) q st(1) nd(2) st(2) c(8)] p' c(6)
    by (auto simp: new_sock_def numeral_2_eq_2)
qed



end
